(* ===== verification/Prelude.thy ===== *)
theory Prelude
  imports Main "HOL-Library.Word"
begin

text \<open>
  Shared vocabulary of the development: the machine integers of the C++ code, the ways a
  call can fail to return normally, the shape of a stateful call, and the generic lemmas
  on lists, words and loops that several components use.

  The code is compiled for a 64 bit Unix (see \<^verbatim>\<open>SConstruct\<close>): \<open>int\<close> has 32 bits,
  \<open>size_t\<close> and \<open>long\<close> have 64 bits.
\<close>

section \<open>Machine integers\<close>

type_synonym c_int = "32 word"
type_synonym size_t = "64 word"

definition INT_MIN :: c_int where
  "INT_MIN = 0x80000000"

lemma INT_MIN_neq [simp]: "1000 \<noteq> INT_MIN" "0 \<noteq> INT_MIN" "1 \<noteq> INT_MIN"
  by (simp_all add: INT_MIN_def)

abbreviation ULONG_MAX :: size_t where
  "ULONG_MAX \<equiv> - 1"

text \<open>The implicit conversion of an \<open>int\<close> to \<open>size_t\<close> extends the sign.\<close>

definition int_to_size :: "c_int \<Rightarrow> size_t" where
  "int_to_size i = word_of_int (sint i)"

text \<open>A number of elements or bytes as the value of \<open>size()\<close>.\<close>

definition size_of_nat :: "nat \<Rightarrow> size_t" where
  "size_of_nat n = word_of_nat n"

section \<open>How a call ends\<close>

text \<open>
  \<^item> \<open>Broker_exception\<close>: \<open>broker_exception\<close> and its typedefs (\<open>broker_timeout\<close>,
    \<open>broker_argument_error\<close>, \<open>broker_not_inited\<close>, \<open>broker_not_connected\<close>), which are one
    and the same type in the code;
  \<^item> \<open>Std_exception\<close>: another class derived from \<open>std::exception\<close> (thrown by the
    database driver, the JSON parser or the allocator);
  \<^item> \<open>Thrown_cstr\<close>: a thrown string literal, which is not a \<open>std::exception\<close>;
  \<^item> \<open>Thrown_error_code\<close>: a thrown \<open>boost::system::error_code\<close>, not one either;
  \<^item> \<open>Assertion_failed\<close>: a failed \<open>BOOST_ASSERT\<close> (the build does not define \<open>NDEBUG\<close>);
  \<^item> \<open>Undefined\<close>: undefined behaviour of C++ (an access out of bounds);
  \<^item> \<open>Blocked\<close>: the call waits and nothing in its environment wakes it.
\<close>

datatype fault =
    Broker_exception string
  | Std_exception string
  | Thrown_cstr string
  | Thrown_error_code
  | Assertion_failed
  | Undefined
  | Blocked

text \<open>A stateful call returns a value or a fault together with the state it leaves.\<close>

type_synonym ('s, 'a) outcome = "(fault + 'a) \<times> 's"

definition andthen :: "('s, 'a) outcome \<Rightarrow> ('a \<Rightarrow> 's \<Rightarrow> ('s, 'b) outcome) \<Rightarrow> ('s, 'b) outcome" where
  "andthen r k = (case r of (Inl e, s) \<Rightarrow> (Inl e, s) | (Inr a, s) \<Rightarrow> k a s)"

lemma andthen_simps [simp]:
  "andthen (Inl e, s) k = (Inl e, s)"
  "andthen (Inr a, s) k = k a s"
  by (simp_all add: andthen_def)

lemma andthen_assoc: "andthen (andthen r k) l = andthen r (\<lambda>a s. andthen (k a s) l)"
  by (auto simp: andthen_def split: prod.splits sum.splits)

lemma andthen_split:
  "P (andthen r k) \<longleftrightarrow>
    (\<forall>e s. r = (Inl e, s) \<longrightarrow> P (Inl e, s)) \<and> (\<forall>a s. r = (Inr a, s) \<longrightarrow> P (k a s))"
  by (auto simp: andthen_def split: prod.splits sum.splits)

text \<open>The part of a fault that a \<open>catch(std::exception&)\<close> clause sees.\<close>

fun is_std_exception :: "fault \<Rightarrow> bool" where
  "is_std_exception (Broker_exception m) = True"
| "is_std_exception (Std_exception m) = True"
| "is_std_exception _ = False"

section \<open>Lemma collections\<close>

named_theorems frame \<open>what a successful or failing call leaves alone, as destruction rules\<close>
named_theorems inv_intro \<open>operations that keep an invariant\<close>

section \<open>Words\<close>

lemma unat_int_to_size:
  assumes "0 \<le> sint i" shows "unat (int_to_size i) = nat (sint i)"
proof -
  have "sint i < 2 ^ 31"
    using sint_lt [of i] by simp
  then have "sint i mod 2 ^ 64 = sint i"
    using assms by (intro mod_pos_pos_trivial) auto
  then have "uint (int_to_size i) = sint i"
    by (simp only: int_to_size_def uint_word_of_int) simp
  then show ?thesis
    by (metis unat_eq_nat_uint)
qed

lemma unat_size_of_nat: "n < 2 ^ 64 \<Longrightarrow> unat (size_of_nat n) = n"
  by (simp add: size_of_nat_def unat_of_nat)

lemma sint_size_of_int:
  "- (2 ^ 63) \<le> i \<Longrightarrow> i < 2 ^ 63 \<Longrightarrow> sint (word_of_int i :: size_t) = i"
  by (simp only: sint_sbintrunc') (rule signed_take_bit_int_eq_self; simp)

lemma sint_int_of_int:
  "- (2 ^ 31) \<le> i \<Longrightarrow> i < 2 ^ 31 \<Longrightarrow> sint (word_of_int i :: c_int) = i"
  by (simp only: sint_sbintrunc') (rule signed_take_bit_int_eq_self; simp)

lemma int_to_size_of_int:
  "- (2 ^ 31) \<le> i \<Longrightarrow> i < 2 ^ 31 \<Longrightarrow> int_to_size (word_of_int i) = word_of_int i"
  by (simp only: int_to_size_def sint_int_of_int)

lemma int_to_size_of_nat: "n < 2 ^ 31 \<Longrightarrow> int_to_size (word_of_nat n) = size_of_nat n"
  using int_to_size_of_int [of "int n"] by (simp add: size_of_nat_def)

lemma unat_ULONG_MAX: "unat ULONG_MAX = 2 ^ 64 - 1"
  by (simp add: unat_eq_nat_uint uint_word_ariths)

lemma size_of_nat_not_max: "n < 2 ^ 64 - 1 \<Longrightarrow> size_of_nat n \<noteq> ULONG_MAX"
  using unat_size_of_nat [of n] unat_ULONG_MAX by auto

lemma unat_minus_of_nat:
  assumes "0 < n" "n < 2 ^ 64" shows "unat (- word_of_nat n :: size_t) = 2 ^ 64 - n"
proof -
  have "uint (- word_of_nat n :: size_t) = (- int n) mod 2 ^ 64"
    using uint_word_of_int [of "- int n", where ?'a = 64] by simp
  also have "\<dots> = 2 ^ 64 - int n"
    using assms by (simp add: zmod_zminus1_eq_if)
  finally show ?thesis
    using assms(2) by (simp add: unat_eq_nat_uint nat_diff_distrib)
qed

end
