(* ===== verification/C_Library.thy ===== *)
theory C_Library
  imports Prelude
begin

text \<open>
  What the code uses of the C standard library: C strings, decimal output of \<open>sprintf\<close>
  with a field width, \<open>atoi\<close>, and \<open>sprintf\<close> into a buffer of known size. A C++
  \<open>string\<close> and a character array are lists of (8 bit) characters.
\<close>

section \<open>C strings\<close>

abbreviation NUL :: char where
  "NUL \<equiv> CHR 0x00"

text \<open>What a reader of a C string sees of an array that starts with these characters.\<close>

definition c_str :: "string \<Rightarrow> string" where
  "c_str s = takeWhile (\<lambda>c. c \<noteq> NUL) s"

text \<open>
  A reader of the C string that starts at an offset of an array must meet a NUL before the
  end of the array.
\<close>

definition c_str_at :: "string \<Rightarrow> nat \<Rightarrow> fault + string" where
  "c_str_at a off = (if NUL \<in> set (drop off a) then Inr (c_str (drop off a)) else Inl Undefined)"

definition isspace :: "char \<Rightarrow> bool" where
  "isspace c \<longleftrightarrow> c = CHR '' '' \<or> (9 \<le> (of_char c :: nat) \<and> (of_char c :: nat) \<le> 13)"

definition isdigit :: "char \<Rightarrow> bool" where
  "isdigit c \<longleftrightarrow> 48 \<le> (of_char c :: nat) \<and> (of_char c :: nat) \<le> 57"

definition digit :: "nat \<Rightarrow> char" where
  "digit d = char_of (48 + d)"

definition digit_value :: "char \<Rightarrow> nat" where
  "digit_value c = of_char c - 48"

section \<open>Decimal output\<close>

fun show_nat :: "nat \<Rightarrow> string" where
  "show_nat n = (if n < 10 then [digit n] else show_nat (n div 10) @ [digit (n mod 10)])"

declare show_nat.simps [simp del]

definition show_int :: "int \<Rightarrow> string" where
  "show_int i = (if i < 0 then CHR ''-'' # show_nat (nat (- i)) else show_nat (nat i))"

text \<open>A field width pads with blanks on the left and never truncates.\<close>

definition pad_left :: "nat \<Rightarrow> string \<Rightarrow> string" where
  "pad_left w s = replicate (w - length s) CHR '' '' @ s"

text \<open>
  \<open>sprintf\<close> writes the characters and a terminating NUL; the array must hold both.
\<close>

definition sprintf_into :: "nat \<Rightarrow> string \<Rightarrow> fault + string" where
  "sprintf_into capacity s = (if length s < capacity then Inr s else Inl Undefined)"

section \<open>Decimal input\<close>

definition read_nat :: "string \<Rightarrow> nat" where
  "read_nat s = foldl (\<lambda>a c. 10 * a + digit_value c) 0 (takeWhile isdigit s)"

text \<open>
  \<open>strtol\<close> in base 10 skips blanks, takes an optional sign and reads digits; the result
  saturates at the range of \<open>long\<close>. \<open>atoi\<close> converts it to \<open>int\<close>.
\<close>

definition strtol10 :: "string \<Rightarrow> int" where
  "strtol10 s =
     (case dropWhile isspace s of
        [] \<Rightarrow> 0
      | c # cs \<Rightarrow>
          max (- (2 ^ 63)) (min (2 ^ 63 - 1)
            (if c = CHR ''-'' then - int (read_nat cs)
             else if c = CHR ''+'' then int (read_nat cs)
             else int (read_nat (c # cs)))))"

definition atoi :: "string \<Rightarrow> c_int" where
  "atoi s = word_of_int (strtol10 s)"

section \<open>Facts about output\<close>

lemma isdigit_digit [simp]: "d < 10 \<Longrightarrow> isdigit (digit d)"
  by (simp add: isdigit_def digit_def)

lemma digit_value_digit [simp]: "d < 10 \<Longrightarrow> digit_value (digit d) = d"
  by (simp add: digit_value_def digit_def)

lemma isdigit_not_space: "isdigit c \<Longrightarrow> \<not> isspace c"
  by (auto simp: isdigit_def isspace_def)

lemma isdigit_not_special:
  "isdigit c \<Longrightarrow> c \<noteq> NUL \<and> c \<noteq> CHR ''-'' \<and> c \<noteq> CHR ''+'' \<and> c \<noteq> CHR '' ''"
  by (auto simp: isdigit_def)

lemma show_nat_nonempty [simp]: "show_nat n \<noteq> []"
  by (subst show_nat.simps) simp

lemma show_nat_isdigit: "c \<in> set (show_nat n) \<Longrightarrow> isdigit c"
proof (induction n rule: show_nat.induct)
  case (1 n)
  then show ?case
    by (cases "n < 10") (auto simp: show_nat.simps [of n])
qed

lemma show_int_chars: "c \<in> set (show_int i) \<Longrightarrow> isdigit c \<or> c = CHR ''-''"
  using show_nat_isdigit by (auto simp: show_int_def split: if_splits)

lemma length_show_nat: "n < 10 ^ k \<Longrightarrow> 0 < k \<Longrightarrow> length (show_nat n) \<le> k"
proof (induction n arbitrary: k rule: show_nat.induct)
  case (1 n)
  show ?case
  proof (cases "n < 10")
    case True
    with 1 show ?thesis by (simp add: show_nat.simps [of n])
  next
    case False
    with "1.prems" obtain j where k: "k = Suc j" and j: "0 < j"
      by (cases k; cases "k - 1") auto
    from "1.prems" k have "n div 10 < 10 ^ j"
      by (simp add: div_less_iff_less_mult mult.commute)
    with 1 False j have "length (show_nat (n div 10)) \<le> j" by simp
    with False k show ?thesis by (simp add: show_nat.simps [of n])
  qed
qed

lemma show_int_int [simp]: "show_int (int n) = show_nat n"
  by (simp add: show_int_def)

lemma length_pad_left [simp]: "length (pad_left w s) = max w (length s)"
  by (simp add: pad_left_def)

lemma pad_left_id: "w \<le> length s \<Longrightarrow> pad_left w s = s"
  by (simp add: pad_left_def)

lemma pad_left_idem [simp]: "pad_left w (pad_left w s) = pad_left w s"
  by (simp add: pad_left_id)

lemma sprintf_into_Inr: "sprintf_into n s = Inr t \<longleftrightarrow> length s < n \<and> t = s"
  by (auto simp: sprintf_into_def)

section \<open>Reading back what was written\<close>

lemma takeWhile_isdigit_show_nat:
  "r = [] \<or> \<not> isdigit (hd r) \<Longrightarrow> takeWhile isdigit (show_nat n @ r) = show_nat n"
  by (cases r) (auto simp: show_nat_isdigit takeWhile_append takeWhile_tail)

lemma foldl_digits_show_nat:
  "foldl (\<lambda>a c. 10 * a + digit_value c) 0 (show_nat n) = n"
proof (induction n rule: show_nat.induct)
  case (1 n)
  then show ?case
    by (cases "n < 10") (simp_all add: show_nat.simps [of n])
qed

lemma read_nat_show_nat:
  "r = [] \<or> \<not> isdigit (hd r) \<Longrightarrow> read_nat (show_nat n @ r) = n"
  by (simp add: read_nat_def takeWhile_isdigit_show_nat foldl_digits_show_nat)

lemma hd_show_nat_isdigit [simp]: "isdigit (hd (show_nat n))"
  by (rule show_nat_isdigit [of _ n]) simp

lemma dropWhile_isspace_padded:
  "dropWhile isspace (pad_left w (show_nat n) @ r) = show_nat n @ r"
proof -
  have "dropWhile isspace (show_nat n @ r) = show_nat n @ r"
    using isdigit_not_space [OF hd_show_nat_isdigit, of n]
    by (cases "show_nat n") auto
  then show ?thesis
    by (simp add: pad_left_def dropWhile_append isspace_def)
qed

lemma strtol10_padded:
  assumes "n < 2 ^ 63" "r = [] \<or> \<not> isdigit (hd r)"
  shows "strtol10 (pad_left w (show_nat n) @ r) = int n"
proof -
  have rd: "read_nat (show_nat n @ r) = n"
    using assms(2) by (rule read_nat_show_nat)
  obtain c cs where s: "show_nat n = c # cs"
    by (cases "show_nat n") auto
  then have "c \<noteq> CHR ''-''" "c \<noteq> CHR ''+''"
    using show_nat_isdigit [of c n] isdigit_not_special by auto
  moreover have "dropWhile isspace (pad_left w (show_nat n) @ r) = c # cs @ r"
    using dropWhile_isspace_padded [of w n r] s by simp
  ultimately show ?thesis
    using assms(1) rd s by (simp add: strtol10_def)
qed

lemma atoi_padded:
  "n < 2 ^ 63 \<Longrightarrow> r = [] \<or> \<not> isdigit (hd r) \<Longrightarrow>
    atoi (pad_left w (show_nat n) @ r) = word_of_nat n"
  by (simp add: atoi_def strtol10_padded)

lemma strtol10_padded_minus:
  assumes "n \<le> 2 ^ 63" "r = [] \<or> \<not> isdigit (hd r)"
  shows "strtol10 (pad_left w (CHR ''-'' # show_nat n) @ r) = - int n"
proof -
  have "dropWhile isspace (pad_left w (CHR ''-'' # show_nat n) @ r) = CHR ''-'' # show_nat n @ r"
    by (simp add: pad_left_def dropWhile_append isspace_def)
  with assms show ?thesis
    by (simp add: strtol10_def read_nat_show_nat)
qed

lemma atoi_padded_minus:
  "n \<le> 2 ^ 63 \<Longrightarrow> r = [] \<or> \<not> isdigit (hd r) \<Longrightarrow>
    atoi (pad_left w (CHR ''-'' # show_nat n) @ r) = word_of_int (- int n)"
  by (simp add: atoi_def strtol10_padded_minus)

lemma c_str_no_NUL: "NUL \<notin> set s \<Longrightarrow> c_str (s @ NUL # r) = s"
  unfolding c_str_def by (subst takeWhile_append2) auto

lemma c_str_id: "NUL \<notin> set s \<Longrightarrow> c_str s = s"
  by (auto simp: c_str_def takeWhile_eq_all_conv)

lemma c_str_snoc_NUL [simp]: "c_str (s @ [NUL]) = c_str s"
  by (induction s) (auto simp: c_str_def)

lemma c_str_at_terminated:
  "off \<le> length s \<Longrightarrow> c_str_at (s @ [NUL]) off = Inr (c_str (drop off s))"
  by (simp add: c_str_at_def)

lemma show_nat_no_NUL: "NUL \<notin> set (pad_left w (show_nat n))"
  using show_nat_isdigit [of NUL n] by (auto simp: pad_left_def isdigit_def)

end
