(* ===== verification/Color.thy ===== *)
theory Color
  imports C_Library
begin

text \<open>
  ANSI colouring of log texts (\<^verbatim>\<open>src/src/color.h\<close>, \<^verbatim>\<open>src/src/color.cc\<close>). The overloads on
  \<open>const char*\<close> read a C string; those on \<open>string\<close> pass \<open>c_str()\<close> on.
\<close>

abbreviation ESC :: char where
  "ESC \<equiv> CHR 0x1B"

definition COLOR_RESET :: string where "COLOR_RESET = ESC # ''[m''"
definition COLOR_BOLD :: string where "COLOR_BOLD = ESC # ''[1m''"
definition COLOR_RED :: string where "COLOR_RED = ESC # ''[31m''"
definition COLOR_BLUE :: string where "COLOR_BLUE = ESC # ''[34m''"

lemmas color_codes = COLOR_RESET_def COLOR_BOLD_def COLOR_RED_def COLOR_BLUE_def

text \<open>All codes of the header by their names, and the length it allows for a code with its NUL.\<close>

definition COLOR_MAXLEN :: nat where "COLOR_MAXLEN = 40"

definition color_table :: "(string \<times> string) list" where
  "color_table =
     [(''COLOR_NORMAL'', []), (''COLOR_RESET'', COLOR_RESET), (''COLOR_BOLD'', COLOR_BOLD),
      (''COLOR_RED'', COLOR_RED), (''COLOR_GREEN'', ESC # ''[32m''), (''COLOR_YELLOW'', ESC # ''[33m''),
      (''COLOR_BLUE'', COLOR_BLUE), (''COLOR_MAGENTA'', ESC # ''[35m''), (''COLOR_CYAN'', ESC # ''[36m''),
      (''COLOR_BOLD_RED'', ESC # ''[1;31m''), (''COLOR_BOLD_GREEN'', ESC # ''[1;32m''),
      (''COLOR_BOLD_YELLOW'', ESC # ''[1;33m''), (''COLOR_BOLD_BLUE'', ESC # ''[1;34m''),
      (''COLOR_BOLD_MAGENTA'', ESC # ''[1;35m''), (''COLOR_BOLD_CYAN'', ESC # ''[1;36m''),
      (''COLOR_BG_RED'', ESC # ''[41m''), (''COLOR_BG_GREEN'', ESC # ''[42m''), (''COLOR_BG_YELLOW'', ESC # ''[43m''),
      (''COLOR_BG_BLUE'', ESC # ''[44m''), (''COLOR_BG_MAGENTA'', ESC # ''[45m''), (''COLOR_BG_CYAN'', ESC # ''[46m'')]"

definition color_text :: "string \<Rightarrow> string \<Rightarrow> bool \<Rightarrow> string" where
  "color_text txt color bold =
     (if bold then COLOR_BOLD else []) @ c_str color @ c_str txt @ COLOR_RESET"

definition red_text :: "string \<Rightarrow> bool \<Rightarrow> string" where
  "red_text txt bold = color_text txt COLOR_RED bold"

definition blue_text :: "string \<Rightarrow> bool \<Rightarrow> string" where
  "blue_text txt bold = color_text txt COLOR_BLUE bold"

definition color_begin :: "string \<Rightarrow> bool \<Rightarrow> string" where
  "color_begin color bold = (if bold then COLOR_BOLD else []) @ c_str color"

definition red_begin :: "bool \<Rightarrow> string" where
  "red_begin bold = color_begin COLOR_RED bold"

definition blue_begin :: "bool \<Rightarrow> string" where
  "blue_begin bold = color_begin COLOR_BLUE bold"

definition color_end :: string where
  "color_end = COLOR_RESET"

definition color_id_string :: "string \<Rightarrow> string" where
  "color_id_string s = ''['' @ blue_text s True @ '']''"

text \<open>\<open>"%zd"\<close> prints the \<open>size_t\<close> as a signed number; the buffer has 128 characters.\<close>

definition color_id_size :: "size_t \<Rightarrow> fault + string" where
  "color_id_size n =
     (case sprintf_into 128 (show_int (sint n)) of
        Inl e \<Rightarrow> Inl e
      | Inr buffer \<Rightarrow> Inr (''['' @ blue_text buffer True @ '']''))"

text \<open>The demonstration program prints two lines of each colour, the second with \<open>bold\<close> given.\<close>

definition color_demo :: "string list" where
  "color_demo =
     [''['' @ red_text ''my red text'' True @ '']'', ''['' @ red_text ''my bold red text'' True @ '']'',
      ''['' @ blue_text ''my blue text'' True @ '']'', ''['' @ blue_text ''my bold blue text'' True @ '']'']"

section \<open>What a terminal shows\<close>

text \<open>A terminal drops each sequence from an ESC up to the next \<open>m\<close>.\<close>

fun visible :: "bool \<Rightarrow> string \<Rightarrow> string" where
  "visible esc [] = []"
| "visible False (c # cs) = (if c = ESC then visible True cs else c # visible False cs)"
| "visible True (c # cs) = visible (c \<noteq> CHR ''m'') cs"

lemma visible_plain: "ESC \<notin> set s \<Longrightarrow> visible False (s @ r) = s @ visible False r"
  by (induction s) auto

lemma c_str_codes [simp]:
  "c_str COLOR_RED = COLOR_RED" "c_str COLOR_BLUE = COLOR_BLUE"
  by (simp_all add: color_codes c_str_id)

lemma ESC_c_str: "ESC \<notin> set s \<Longrightarrow> ESC \<notin> set (c_str s)"
  by (auto simp: c_str_def dest: set_takeWhileD)

lemma color_table_codes:
  "c \<in> snd ` set color_table \<Longrightarrow> NUL \<notin> set c \<and> length c < COLOR_MAXLEN \<and> visible False (c @ r) = visible False r"
  by (auto simp: color_table_def COLOR_MAXLEN_def color_codes)

lemma in_color_table [simp]: "COLOR_RED \<in> snd ` set color_table" "COLOR_BLUE \<in> snd ` set color_table"
  by (simp_all add: color_table_def)

lemma visible_color_text:
  assumes "c \<in> snd ` set color_table" "ESC \<notin> set s"
  shows "visible False (color_text s c b @ r) = c_str s @ visible False r"
proof -
  have "visible False (c @ t) = visible False t" for t using color_table_codes [OF assms(1)] by blast
  then show ?thesis
    using color_table_codes [OF assms(1)] ESC_c_str [OF assms(2)]
    by (simp add: color_text_def c_str_id visible_plain COLOR_BOLD_def COLOR_RESET_def)
qed

lemma length_show_sint:
  "length (show_int (sint (n :: size_t))) \<le> 20"
proof -
  have "- (2 ^ 63) \<le> sint n" "sint n < 2 ^ 63"
    using sint_ge [of n] sint_lt [of n] by auto
  then have "nat (sint n) < 10 ^ 19" "nat (- sint n) < 10 ^ 19"
    by (auto simp: nat_less_iff)
  then show ?thesis
    using length_show_nat [of "nat (sint n)" 19] length_show_nat [of "nat (- sint n)" 19]
    by (simp add: show_int_def)
qed

text \<open>
  Colouring changes nothing but colour: on a terminal the coloured texts and the id labels
  show exactly the characters of their argument, and nothing after them stays coloured, in every
  colour of the header, whose codes all fit the length it announces; the
  label of a number never overruns its buffer.
\<close>

theorem colored_text_visible:
  assumes "ESC \<notin> set s" "NUL \<notin> set s" "c \<in> snd ` set color_table"
  shows "length c < COLOR_MAXLEN \<and> visible False (color_text s c b @ r) = s @ visible False r \<and>
    visible False (red_text s b @ r) = s @ visible False r \<and>
    visible False (blue_text s b @ r) = s @ visible False r \<and>
    visible False (red_begin b @ s @ color_end @ r) = s @ visible False r \<and>
    visible False (color_id_string s) = ''['' @ s @ '']'' \<and>
    (\<exists>l. color_id_size n = Inr l \<and> visible False l = ''['' @ show_int (sint n) @ '']'')"
proof -
  have i: "ESC \<notin> set (show_int (sint n)) \<and> NUL \<notin> set (show_int (sint n))"
    using show_int_chars [of ESC "sint n"] show_int_chars [of NUL "sint n"]
    by (auto simp: isdigit_def)
  have 5: "\<exists>l. color_id_size n = Inr l \<and> visible False l = ''['' @ show_int (sint n) @ '']''"
    using length_show_sint [of n] visible_color_text [of COLOR_BLUE "show_int (sint n)" True "'']''"] i
    by (simp add: color_id_size_def sprintf_into_def blue_text_def c_str_id)
  have 4: "visible False (color_id_string s) = ''['' @ s @ '']''"
    using visible_color_text [of COLOR_BLUE s True "'']''"] assms
    by (simp add: color_id_string_def blue_text_def c_str_id)
  have 3: "visible False (red_begin b @ s @ color_end @ r) = s @ visible False r"
    using visible_color_text [of COLOR_RED s b r] assms
    by (simp add: red_begin_def color_begin_def color_end_def color_text_def c_str_id)
  show ?thesis
    using assms 3 4 5 color_table_codes [OF assms(3)] visible_color_text [OF assms(3,1)]
      visible_color_text [of COLOR_RED s b r] visible_color_text [of COLOR_BLUE s b r]
    by (simp add: red_text_def blue_text_def c_str_id)
qed

theorem colored_text_visible_witness:
  "visible False (red_text ''ab'' True @ ''c'') = ''abc''"
  using colored_text_visible [of "''ab''" COLOR_RED True "''c''" 7] by simp

text \<open>
  What the demonstration shows; since \<open>bold\<close> is the default, its plain lines are as bold as the others.
\<close>

theorem color_demo_shows:
  "map (visible False) color_demo =
     [''[my red text]'', ''[my bold red text]'', ''[my blue text]'', ''[my bold blue text]''] \<and>
   (\<forall>l \<in> set color_demo. take 5 l = ''['' @ COLOR_BOLD)"
  by (simp add: color_demo_def red_text_def blue_text_def color_text_def color_codes c_str_def)

end
