(* ===== verification/Sized_Queue.thy ===== *)
theory Sized_Queue
  imports Prelude
begin

text \<open>
  The blocking bounded queue (\<^verbatim>\<open>src/src/sized_queue.hpp\<close>, \<^verbatim>\<open>src/src/sized_queue.cc\<close>), a monitor
  over a \<open>deque\<close> with two conditions. This theory has each operation as one call of one
  thread; what other threads do to the deque at the points where the caller does not hold
  the lock is part of the state, as a schedule. Theory \<open>Reader_System\<close> composes the
  critical sections of all threads.
\<close>

section \<open>State\<close>

datatype cond = Can_push | Can_pop

datatype signal = Notified cond | Waited cond

text \<open>
  One entry of the schedule says what other threads did before the caller gets the lock
  (again): elements they pushed, elements they then popped, and, where the caller waited,
  whether it was woken (by a notification or spuriously) or ran into its deadline.
\<close>

record 'a interference =
  woken :: bool
  added :: "'a list"
  taken :: nat

text \<open>
  \<open>m_limit_size\<close> and \<open>m_deque\<close> (the code's \<open>m_queue\<close>) are the code's data; \<open>m_signals\<close> logs
  what the caller does to the conditions; \<open>m_sched\<close> is the schedule.
\<close>

record 'a sized_queue =
  m_limit_size :: size_t
  m_deque :: "'a list"
  m_signals :: "signal list"
  m_sched :: "'a interference list"

definition new_sized_queue :: "size_t \<Rightarrow> 'a sized_queue" where
  "new_sized_queue n = \<lparr>m_limit_size = n, m_deque = [], m_signals = [], m_sched = []\<rparr>"

definition default_sized_queue :: "'a sized_queue" where
  "default_sized_queue = new_sized_queue 100"

definition set_size :: "size_t \<Rightarrow> 'a sized_queue \<Rightarrow> 'a sized_queue" where
  "set_size n q = q\<lparr>m_limit_size := n\<rparr>"

definition get_limit_size :: "'a sized_queue \<Rightarrow> size_t" where
  "get_limit_size q = m_limit_size q"

section \<open>Lock and conditions\<close>

definition interfere :: "'a interference \<Rightarrow> 'a list \<Rightarrow> 'a list" where
  "interfere e xs = drop (taken e) (xs @ added e)"

definition lock :: "'a sized_queue \<Rightarrow> 'a sized_queue" where
  "lock q = (case m_sched q of
     [] \<Rightarrow> q
   | e # es \<Rightarrow> q\<lparr>m_deque := interfere e (m_deque q), m_sched := es\<rparr>)"

definition notify_one :: "cond \<Rightarrow> 'a sized_queue \<Rightarrow> 'a sized_queue" where
  "notify_one c q = q\<lparr>m_signals := m_signals q @ [Notified c]\<rparr>"

text \<open>
  \<open>zbroker::wait\<close>: with a deadline a wait that is not woken throws, without one it waits on.
  With nothing left in the schedule nobody wakes the caller.
\<close>

definition wait_cond ::
  "cond \<Rightarrow> size_t \<Rightarrow> string \<Rightarrow> 'a sized_queue \<Rightarrow> ('a sized_queue, unit) outcome" where
  "wait_cond c seconds timeout_msg q0 =
     (let q = q0\<lparr>m_signals := m_signals q0 @ [Waited c]\<rparr>
      in case m_sched q of
           [] \<Rightarrow> (Inl (if seconds > 0 then Broker_exception timeout_msg else Blocked), q)
         | e # es \<Rightarrow>
             (let q' = q\<lparr>m_deque := interfere e (m_deque q), m_sched := es\<rparr>
              in if seconds > 0
                 then if \<not> woken e then (Inl (Broker_exception timeout_msg), q') else (Inr (), q')
                 else (Inr (), q')))"

section \<open>Operations\<close>

definition queue_size :: "'a sized_queue \<Rightarrow> size_t \<times> 'a sized_queue" where
  "queue_size q0 = (let q = lock q0 in (size_of_nat (length (m_deque q)), q))"

definition clear :: "'a sized_queue \<Rightarrow> 'a sized_queue" where
  "clear q0 = (let q = lock q0 in q\<lparr>m_deque := []\<rparr>)"

text \<open>\<open>front()\<close> and \<open>pop_front()\<close> of an empty deque are undefined.\<close>

definition take_front :: "'a sized_queue \<Rightarrow> ('a sized_queue, 'a) outcome" where
  "take_front q =
     (case m_deque q of
        [] \<Rightarrow> (Inl Undefined, q)
      | x # xs \<Rightarrow> (Inr x, notify_one Can_push (q\<lparr>m_deque := xs\<rparr>)))"

definition pop :: "size_t \<Rightarrow> 'a sized_queue \<Rightarrow> ('a sized_queue, 'a) outcome" where
  "pop seconds q0 =
     (let q = lock q0
      in andthen
           (if length (m_deque q) = 0
            then wait_cond Can_pop seconds ''no more items'' (notify_one Can_push q)
            else (Inr (), q))
           (\<lambda>_. take_front))"

definition wait_for_room :: "size_t \<Rightarrow> 'a sized_queue \<Rightarrow> ('a sized_queue, unit) outcome" where
  "wait_for_room seconds q =
     (if length (m_deque q) \<ge> unat (m_limit_size q)
      then wait_cond Can_push seconds ''no consumer'' (notify_one Can_pop q)
      else (Inr (), q))"

definition queue_size_int :: "'a sized_queue \<Rightarrow> c_int" where
  "queue_size_int q = word_of_nat (length (m_deque q))"

definition push :: "'a \<Rightarrow> size_t \<Rightarrow> 'a sized_queue \<Rightarrow> ('a sized_queue, c_int) outcome" where
  "push item seconds q0 =
     andthen (wait_for_room seconds (lock q0)) (\<lambda>_ q.
       let q' = notify_one Can_pop (q\<lparr>m_deque := m_deque q @ [item]\<rparr>)
       in (Inr (queue_size_int q'), q'))"

text \<open>The loop that moves items from the back of the vector to the back of the deque.\<close>

function move_back :: "nat \<Rightarrow> 'a list \<Rightarrow> 'a list \<Rightarrow> 'a list \<times> 'a list" where
  "move_back limit xs items =
     (if length items > 0 \<and> length xs < limit
      then move_back limit (xs @ [last items]) (butlast items)
      else (xs, items))"
  by pat_completeness auto
termination
  by (relation "measure (\<lambda>(_, _, items). length items)") auto

declare move_back.simps [simp del]

text \<open>\<open>push(vector<T>&)\<close> also leaves the items that did not fit in the caller's vector.\<close>

definition push_all ::
  "'a list \<Rightarrow> size_t \<Rightarrow> 'a sized_queue \<Rightarrow> ('a sized_queue, c_int \<times> 'a list) outcome" where
  "push_all items seconds q0 =
     andthen (wait_for_room seconds (lock q0)) (\<lambda>_ q.
       let (xs, rest) = move_back (unat (m_limit_size q)) (m_deque q) items;
           q' = notify_one Can_pop (q\<lparr>m_deque := xs\<rparr>)
       in (Inr (queue_size_int q', rest), q'))"

section \<open>The moving loop in closed form\<close>

lemma move_back_eq:
  "move_back limit xs items =
     (let k = min (length items) (limit - length xs)
      in (xs @ take k (rev items), take (length items - k) items))"
proof (induction limit xs items rule: move_back.induct)
  case (1 limit xs items)
  show ?case
  proof (cases "length items > 0 \<and> length xs < limit")
    case True
    then obtain ys y where items: "items = ys @ [y]"
      by (metis length_greater_0_conv rev_exhaust)
    from True have "limit - length xs = Suc (limit - length (xs @ [y]))"
      by (simp add: Suc_diff_Suc)
    then show ?thesis
      using 1 [OF True] True
      by (simp add: move_back.simps [of limit xs] items Let_def Suc_diff_le)
  next
    case False
    then show ?thesis
      by (auto simp: move_back.simps [of limit xs] Let_def)
  qed
qed

lemma move_back_conserves:
  "move_back limit xs items = (ys, rest) \<Longrightarrow> ys @ rev rest = xs @ rev items"
  by (auto simp: move_back_eq Let_def rev_take)

lemma move_back_limit:
  "move_back limit xs items = (ys, rest) \<Longrightarrow> length xs \<le> limit \<Longrightarrow> length ys \<le> limit"
  by (auto simp: move_back_eq Let_def)

lemma move_back_progress:
  "move_back limit xs items = (ys, rest) \<Longrightarrow> items \<noteq> [] \<Longrightarrow> length xs < limit \<Longrightarrow>
    length rest < length items"
  by (auto simp: move_back_eq Let_def)

section \<open>One call, case by case\<close>

lemma lock_quiet [simp]: "m_sched q = [] \<Longrightarrow> lock q = q"
  by (simp add: lock_def)

lemma lock_fields [simp]:
  "m_limit_size (lock q) = m_limit_size q" "m_signals (lock q) = m_signals q"
  by (simp_all add: lock_def split: list.splits)

lemma notify_one_fields [simp]:
  "m_limit_size (notify_one c q) = m_limit_size q" "m_deque (notify_one c q) = m_deque q"
  "m_sched (notify_one c q) = m_sched q" "m_signals (notify_one c q) = m_signals q @ [Notified c]"
  by (simp_all add: notify_one_def)

lemma wait_cond_fields [frame]:
  "wait_cond c s m q = (r, q') \<Longrightarrow> m_limit_size q' = m_limit_size q"
  by (auto simp: wait_cond_def Let_def split: list.splits if_splits)

lemma wait_for_room_fields [frame]:
  "wait_for_room s q = (r, q') \<Longrightarrow> m_limit_size q' = m_limit_size q"
  by (auto simp: wait_for_room_def wait_cond_fields split: if_splits)

lemma pop_fields [frame]: "pop s q = (r, q') \<Longrightarrow> m_limit_size q' = m_limit_size q"
  by (auto simp: pop_def andthen_def take_front_def Let_def
      dest: frame split: prod.splits sum.splits if_splits list.splits)

lemma push_all_fields [frame]: "push_all items s q = (r, q') \<Longrightarrow> m_limit_size q' = m_limit_size q"
  by (auto simp: push_all_def andthen_def Let_def
      dest: frame split: prod.splits sum.splits)

lemma queue_size_eq [simp]:
  "snd (queue_size q) = lock q" "fst (queue_size q) = size_of_nat (length (m_deque (lock q)))"
  by (simp_all add: queue_size_def Let_def)

lemma pop_quiet:
  assumes "m_sched q = []"
  shows "pop seconds q =
    (case m_deque q of
       [] \<Rightarrow> (Inl (if seconds > 0 then Broker_exception ''no more items'' else Blocked),
             q\<lparr>m_signals := m_signals q @ [Notified Can_push, Waited Can_pop]\<rparr>)
     | x # xs \<Rightarrow> (Inr x, q\<lparr>m_deque := xs, m_signals := m_signals q @ [Notified Can_push]\<rparr>))"
  using assms
  by (simp add: pop_def wait_cond_def take_front_def notify_one_def Let_def split: list.splits)

lemma push_all_quiet:
  assumes "m_sched q = []" "length (m_deque q) < unat (m_limit_size q)"
    "k = min (length items) (unat (m_limit_size q) - length (m_deque q))"
  shows "push_all items seconds q =
    (Inr (word_of_nat (length (m_deque q) + k), take (length items - k) items),
     q\<lparr>m_deque := m_deque q @ take k (rev items), m_signals := m_signals q @ [Notified Can_pop]\<rparr>)"
  using assms
  by (simp add: push_all_def wait_for_room_def move_back_eq Let_def queue_size_int_def notify_one_def
      del: of_nat_add)

lemma push_all_full_quiet:
  assumes "m_sched q = []" "unat (m_limit_size q) \<le> length (m_deque q)"
  shows "push_all items seconds q =
    (Inl (if seconds > 0 then Broker_exception ''no consumer'' else Blocked),
     q\<lparr>m_signals := m_signals q @ [Notified Can_pop, Waited Can_push]\<rparr>)"
  using assms by (simp add: push_all_def wait_for_room_def wait_cond_def notify_one_def Let_def)

section \<open>Popping several elements\<close>

text \<open>
  The loop \<open>docs.push_back(pop(...))\<close>, repeated \<open>n\<close> times: the vector belongs to the
  caller, so what was popped before an exception stays in it.
\<close>

fun pop_n :: "nat \<Rightarrow> ('s \<Rightarrow> ('s, 'a) outcome) \<Rightarrow> 'a list \<times> 's \<Rightarrow> ('a list \<times> 's, unit) outcome" where
  "pop_n 0 f (docs, s) = (Inr (), (docs, s))"
| "pop_n (Suc n) f (docs, s) =
     (case f s of
        (Inl e, s') \<Rightarrow> (Inl e, (docs, s'))
      | (Inr x, s') \<Rightarrow> pop_n n f (docs @ [x], s'))"

lemma pop_n_docs:
  "pop_n n f (docs, s) = (r, (docs', s')) \<Longrightarrow>
    \<exists>ys. docs' = docs @ ys \<and> (case r of Inr _ \<Rightarrow> length ys = n | Inl _ \<Rightarrow> length ys < n)"
proof (induction n arbitrary: docs s)
  case (Suc n)
  then show ?case
    by (cases "f s"; cases "fst (f s)") (fastforce split: sum.splits)+
qed (auto split: sum.splits)

lemma pop_n_keeps:
  assumes "\<And>s r s'. f s = (r, s') \<Longrightarrow> P s \<Longrightarrow> P s'"
  shows "pop_n n f (docs, s) = (r, (docs', s')) \<Longrightarrow> P s \<Longrightarrow> P s'"
  by (induction n arbitrary: docs s) (auto dest: assms split: prod.splits sum.splits)

text \<open>
  What a consumer relies on: taking from a source that holds something returns its first
  element and leaves the others; taking from an empty one fails and changes nothing.
\<close>

locale fifo_source =
  fixes deq :: "'s \<Rightarrow> ('s, 'a) outcome"
    and contents :: "'s \<Rightarrow> 'a list"
    and good :: "'s \<Rightarrow> bool"
    and empty_fault :: fault
  assumes deq_some: "good s \<Longrightarrow> contents s = x # xs \<Longrightarrow>
      \<exists>s'. deq s = (Inr x, s') \<and> contents s' = xs \<and> good s'"
    and deq_none: "good s \<Longrightarrow> contents s = [] \<Longrightarrow>
      \<exists>s'. deq s = (Inl empty_fault, s') \<and> contents s' = [] \<and> good s'"
begin

lemma pop_n_contents:
  "good s \<Longrightarrow> \<exists>s'. pop_n n deq (docs, s) =
      (if n \<le> length (contents s) then Inr () else Inl empty_fault,
       (docs @ take n (contents s), s')) \<and>
    contents s' = drop n (contents s) \<and> good s'"
proof (induction n arbitrary: docs s)
  case (Suc n)
  show ?case
  proof (cases "contents s")
    case Nil
    with deq_none [OF Suc.prems] show ?thesis by auto
  next
    case (Cons x xs)
    then obtain s1 where s1: "deq s = (Inr x, s1)" "contents s1 = xs" "good s1"
      using deq_some [OF Suc.prems] by auto
    with Suc.IH [of s1 "docs @ [x]"] Cons show ?thesis by auto
  qed
qed simp

end

text \<open>A queue that nobody else touches, popped with a deadline.\<close>

interpretation quiet_queue: fifo_source "pop (word_of_nat (Suc d))" m_deque
  "\<lambda>q. m_sched q = [] \<and> (0 :: size_t) < word_of_nat (Suc d)" "Broker_exception ''no more items''" for d
  by unfold_locales (auto simp: pop_quiet)

section \<open>Properties\<close>

lemma wait_cond_returned:
  "wait_cond c seconds m q = (Inr (), q') \<Longrightarrow> m_deque q' = m_deque (lock q) \<and> m_sched q \<noteq> []"
  by (auto simp: wait_cond_def lock_def Let_def split: list.splits if_splits)

lemma lock_notify: "m_deque (lock (notify_one c q)) = m_deque (lock q)"
  by (simp add: lock_def notify_one_def split: list.splits)

lemma wait_for_room_returned:
  "wait_for_room seconds q = (Inr (), q') \<Longrightarrow>
    m_deque q' = m_deque (if unat (m_limit_size q) \<le> length (m_deque q) then lock q else q)"
  by (auto simp: wait_for_room_def lock_notify dest: wait_cond_returned split: if_splits)

text \<open>
  \<open>push(vector<T>&)\<close> with any interference. If it returns, then the items it moved are
  the last ones of the vector, they stand in the deque in reverse order behind what was there
  when the lock was last taken, the vector keeps the others in order, as many as fit under
  the limit were moved, and the returned number is the new size.
\<close>

theorem push_all_effect:
  assumes "push_all items seconds q = (Inr (n, rest), q')"
  defines "xs \<equiv> m_deque (if unat (m_limit_size q) \<le> length (m_deque (lock q)) then lock (lock q) else lock q)"
  shows "\<exists>moved. items = rest @ moved \<and> m_deque q' = xs @ rev moved \<and>
    length moved = min (length items) (unat (m_limit_size q) - length xs) \<and>
    n = word_of_nat (length (m_deque q'))"
proof -
  let ?k = "min (length items) (unat (m_limit_size q) - length xs)"
  obtain q1 where q1: "wait_for_room seconds (lock q) = (Inr (), q1)"
    using assms(1) by (auto simp: push_all_def andthen_def split: prod.splits sum.splits)
  have xs: "m_deque q1 = xs" "m_limit_size q1 = m_limit_size q"
    using wait_for_room_returned [OF q1] wait_for_room_fields [OF q1] by (simp_all add: xs_def)
  have "m_deque q' = xs @ take ?k (rev items)" "rest = take (length items - ?k) items"
      "n = word_of_nat (length (m_deque q'))"
    using assms(1) q1 xs
    by (auto simp: push_all_def move_back_eq Let_def queue_size_int_def simp del: of_nat_add)
  then show ?thesis
    by (intro exI [of _ "drop (length items - ?k) items"]) (auto simp: take_rev)
qed

theorem push_all_effect_witness:
  "let q = \<lparr>m_limit_size = 2, m_deque = ''ab'', m_signals = [],
      m_sched = [\<lparr>woken = False, added = [], taken = 0\<rparr>, \<lparr>woken = True, added = [], taken = 1\<rparr>]\<rparr>
   in \<exists>moved. ''xyz'' = ''xy'' @ moved \<and> m_deque (snd (push_all ''xyz'' 0 q)) = ''b'' @ rev moved"
proof -
  let ?q = "\<lparr>m_limit_size = 2, m_deque = ''ab'', m_signals = [],
      m_sched = [\<lparr>woken = False, added = [], taken = 0\<rparr>, \<lparr>woken = True, added = [], taken = 1\<rparr>]\<rparr>"
  have "push_all ''xyz'' 0 ?q = (Inr (2, ''xy''), snd (push_all ''xyz'' 0 ?q))"
    by (simp add: push_all_def wait_for_room_def wait_cond_def lock_def interfere_def notify_one_def
        move_back.simps queue_size_int_def Let_def)
  from push_all_effect [OF this] show ?thesis
    by (auto simp: Let_def lock_def interfere_def)
qed

text \<open>
  \<open>pop\<close> with any interference. With \<open>xs\<close> what the deque holds when the lock is last
  taken: a returned element is the first of \<open>xs\<close> and the others stay; after an exception all
  of \<open>xs\<close> stays; a call with a deadline never blocks; and the one undefined outcome is a
  wake-up that finds the deque empty.
\<close>

theorem pop_effect:
  assumes "pop seconds q = (r, q')"
  defines "waits \<equiv> m_deque (lock q) = []"
  defines "xs \<equiv> m_deque (if waits then lock (lock q) else lock q)"
  shows "(\<forall>x. r = Inr x \<longrightarrow> xs = x # m_deque q') \<and>
    (\<forall>e. r = Inl e \<longrightarrow> waits \<and> m_deque q' = xs) \<and>
    (r = Inl Undefined \<longleftrightarrow>
      waits \<and> xs = [] \<and> m_sched (lock q) \<noteq> [] \<and> (0 < seconds \<longrightarrow> woken (hd (m_sched (lock q))))) \<and>
    (r = Inl Blocked \<longleftrightarrow> waits \<and> seconds = 0 \<and> m_sched (lock q) = [])"
proof (cases "waits")
  case False
  then show ?thesis
    using assms(1) unfolding waits_def xs_def
    by (auto simp: pop_def take_front_def Let_def neq_Nil_conv)
next
  case True
  let ?n = "notify_one Can_push (lock q)"
  have w: "wait_cond Can_pop seconds ''no more items'' ?n =
      (case m_sched (lock q) of
         [] \<Rightarrow> (Inl (if seconds > 0 then Broker_exception ''no more items'' else Blocked),
               ?n\<lparr>m_signals := m_signals ?n @ [Waited Can_pop]\<rparr>)
       | e # es \<Rightarrow> (if seconds > 0 \<and> \<not> woken e then Inl (Broker_exception ''no more items'') else Inr (),
           ?n\<lparr>m_signals := m_signals ?n @ [Waited Can_pop], m_deque := xs, m_sched := es\<rparr>))"
    using True unfolding xs_def
    by (simp add: wait_cond_def Let_def lock_def [of "lock q"] split: list.splits)
  have "m_sched (lock q) = [] \<Longrightarrow> xs = []"
    using True by (simp add: xs_def waits_def)
  with True assms(1) w show ?thesis
    by (auto simp: pop_def waits_def take_front_def Let_def word_gt_0 split: list.splits if_splits)
qed

theorem pop_effect_witness:
  "let q = \<lparr>m_limit_size = 2, m_deque = [], m_signals = [],
      m_sched = [\<lparr>woken = False, added = [], taken = 0\<rparr>, \<lparr>woken = True, added = ''a'', taken = 1\<rparr>]\<rparr>
   in fst (pop 3 q) = Inl Undefined"
proof -
  let ?q = "\<lparr>m_limit_size = 2, m_deque = [], m_signals = [],
      m_sched = [\<lparr>woken = False, added = [], taken = 0\<rparr>, \<lparr>woken = True, added = ''a'', taken = 1\<rparr>]\<rparr>"
  show ?thesis
    using pop_effect [of 3 ?q "fst (pop 3 ?q)" "snd (pop 3 ?q)"]
    by (simp add: Let_def lock_def interfere_def)
qed

end
