(* ===== verification/Step_System.thy ===== *)
theory Step_System
  imports Prelude
begin

text \<open>
  Transition systems: the states that runs of a step relation reach from initial states, what
  an inductive invariant gives for them, and what a rank that every step lowers gives for the
  length of a run.
\<close>

inductive reachable :: "('s \<Rightarrow> bool) \<Rightarrow> ('s \<Rightarrow> 's \<Rightarrow> bool) \<Rightarrow> 's \<Rightarrow> bool"
  for init :: "'s \<Rightarrow> bool" and step :: "'s \<Rightarrow> 's \<Rightarrow> bool" where
  start: "init s \<Longrightarrow> reachable init step s"
| next_state: "reachable init step s \<Longrightarrow> step s s' \<Longrightarrow> reachable init step s'"

lemma reachable_run:
  assumes "reachable init step s" "step\<^sup>*\<^sup>* s s'"
  shows "reachable init step s'"
  using assms(2,1) by (induction) (auto intro: next_state)

locale step_invariant =
  fixes init :: "'s \<Rightarrow> bool" and step :: "'s \<Rightarrow> 's \<Rightarrow> bool" and holds :: "'s \<Rightarrow> bool"
  assumes holds_init: "init s \<Longrightarrow> holds s"
    and holds_step: "holds s \<Longrightarrow> step s s' \<Longrightarrow> holds s'"
begin

lemma reachable_holds: "reachable init step s \<Longrightarrow> holds s"
  by (induction rule: reachable.induct) (auto intro: holds_init holds_step)

end

text \<open>
  One thread's share \<open>local_step\<close> of the steps, in states where it lowers a rank: the thread
  takes at most as many steps as the rank says, and where it cannot take one it has finished.
\<close>

locale ranked_thread = step_invariant init step holds
  for init :: "'s \<Rightarrow> bool" and step :: "'s \<Rightarrow> 's \<Rightarrow> bool" and holds :: "'s \<Rightarrow> bool" +
  fixes local_step :: "'s \<Rightarrow> 's \<Rightarrow> bool" and finishing :: "'s \<Rightarrow> bool" and finished :: "'s \<Rightarrow> bool"
    and rank :: "'s \<Rightarrow> nat"
  assumes local_is_step: "local_step s s' \<Longrightarrow> step s s'"
    and finishing_step: "holds s \<Longrightarrow> finishing s \<Longrightarrow> local_step s s' \<Longrightarrow> finishing s' \<and> rank s' < rank s"
    and not_stuck: "holds s \<Longrightarrow> finishing s \<Longrightarrow> \<not> finished s \<Longrightarrow> \<exists>s'. local_step s s'"
begin

lemma bounded_run:
  "holds s \<Longrightarrow> finishing s \<Longrightarrow> (local_step ^^ n) s s' \<Longrightarrow> n + rank s' \<le> rank s \<and> holds s' \<and> finishing s'"
proof (induction n arbitrary: s')
  case (Suc n)
  from Suc.prems(3) obtain t where t: "(local_step ^^ n) s t" "local_step t s'" by auto
  from Suc.IH [OF Suc.prems(1,2) t(1)] have "n + rank t \<le> rank s" "holds t" "finishing t" by auto
  with t(2) holds_step [OF _ local_is_step] finishing_step [of t s'] show ?case by fastforce
qed simp

lemma run_to_finish:
  "holds s \<Longrightarrow> finishing s \<Longrightarrow> \<exists>n s'. n \<le> rank s \<and> (local_step ^^ n) s s' \<and> finished s'"
proof (induction "rank s" arbitrary: s rule: less_induct)
  case less
  show ?case
  proof (cases "finished s")
    case True
    then show ?thesis by (intro exI [of _ 0] exI [of _ s]) simp
  next
    case False
    then obtain t where t: "local_step s t" using not_stuck less.prems by blast
    then have r: "finishing t" "rank t < rank s" "holds t"
      using finishing_step [OF less.prems] holds_step [OF less.prems(1) local_is_step] by auto
    then obtain n s' where n: "n \<le> rank t" "(local_step ^^ n) t s'" "finished s'"
      using less.hyps by blast
    have "(local_step ^^ Suc n) s s'" using t n(2) by (rule relpowp_Suc_I2)
    with n r(2) show ?thesis by (intro exI [of _ "Suc n"] exI [of _ s']) simp
  qed
qed

end

section \<open>Simulation of operations\<close>

text \<open>The results of a sequence of operations on a state.\<close>

fun run_ops :: "('op \<Rightarrow> 's \<Rightarrow> 'r \<times> 's) \<Rightarrow> 'op list \<Rightarrow> 's \<Rightarrow> 'r list \<times> 's" where
  "run_ops f [] s = ([], s)"
| "run_ops f (x # xs) s =
     (let (r, s1) = f x s; (rs, s2) = run_ops f xs s1 in (r # rs, s2))"

text \<open>
  An implementation \<open>cop\<close> of the operations that a specification \<open>aop\<close> has on an abstraction of
  the state, as long as the state is good.
\<close>

locale simulation =
  fixes cop :: "'op \<Rightarrow> 'c \<Rightarrow> 'r \<times> 'c" and aop :: "'op \<Rightarrow> 'a \<Rightarrow> 'r \<times> 'a"
    and abstraction :: "'c \<Rightarrow> 'a" and good :: "'c \<Rightarrow> bool"
  assumes simulates: "good c \<Longrightarrow> cop x c = (r, c') \<Longrightarrow> good c' \<and> aop x (abstraction c) = (r, abstraction c')"
begin

lemma run_simulates:
  "good c \<Longrightarrow> run_ops cop xs c = (rs, c') \<Longrightarrow> good c' \<and> run_ops aop xs (abstraction c) = (rs, abstraction c')"
proof (induction xs arbitrary: c rs)
  case (Cons x xs)
  obtain r c1 where c1: "cop x c = (r, c1)" by fastforce
  with Cons.prems(2) obtain rs' where "run_ops cop xs c1 = (rs', c')" "rs = r # rs'"
    by (auto simp: Let_def split: prod.splits)
  with Cons.IH [of c1 rs'] simulates [OF Cons.prems(1) c1] c1 show ?case by (simp add: Let_def)
qed simp

end

end
