(* ===== verification/Queue_Spec.thy ===== *)
theory Queue_Spec
  imports Sized_Queue Step_System
begin

text \<open>
  What the queue promises a single user, as a specification on plain lists, and the proof that
  the monitor's operations implement it.
\<close>

section \<open>Specification\<close>

text \<open>
  The operations of the queue as its clients call them, with a deadline, and what they return; a
  vector that is pushed comes back with the items that did not fit.
\<close>

datatype 'a queue_op = Push_item 'a | Push_items "'a list" | Pop | Size | Clear | Set_size size_t | Limit

datatype 'a queue_result = Pushed c_int "'a list" | Popped 'a | Sized size_t | Done | Expired string | Failed fault

text \<open>A bounded first-in first-out list.\<close>

fun fifo :: "'a queue_op \<Rightarrow> size_t \<times> 'a list \<Rightarrow> 'a queue_result \<times> size_t \<times> 'a list" where
  "fifo (Push_item x) (n, xs) =
     (if length xs < unat n then (Pushed (word_of_nat (length xs + 1)) [], n, xs @ [x])
      else (Expired ''no consumer'', n, xs))"
| "fifo (Push_items ys) (n, xs) =
     (if length xs < unat n
      then let k = min (length ys) (unat n - length xs)
           in (Pushed (word_of_nat (length xs + k)) (take (length ys - k) ys), n, xs @ take k (rev ys))
      else (Expired ''no consumer'', n, xs))"
| "fifo Pop (n, xs) =
     (case xs of [] \<Rightarrow> (Expired ''no more items'', n, []) | x # xs' \<Rightarrow> (Popped x, n, xs'))"
| "fifo Size (n, xs) = (Sized (size_of_nat (length xs)), n, xs)"
| "fifo Clear (n, xs) = (Done, n, [])"
| "fifo (Set_size m) (n, xs) = (Done, m, xs)"
| "fifo Limit (n, xs) = (Sized n, n, xs)"

section \<open>Implementation\<close>

definition result_of :: "('a \<Rightarrow> 'b queue_result) \<Rightarrow> fault + 'a \<Rightarrow> 'b queue_result" where
  "result_of f r = (case r of Inl (Broker_exception m) \<Rightarrow> Expired m | Inl e \<Rightarrow> Failed e | Inr x \<Rightarrow> f x)"

fun queue_call :: "size_t \<Rightarrow> 'a queue_op \<Rightarrow> 'a sized_queue \<Rightarrow> 'a queue_result \<times> 'a sized_queue" where
  "queue_call d (Push_item x) q = map_prod (result_of (\<lambda>n. Pushed n [])) id (push x d q)"
| "queue_call d (Push_items ys) q = map_prod (result_of (\<lambda>(n, rest). Pushed n rest)) id (push_all ys d q)"
| "queue_call d Pop q = map_prod (result_of Popped) id (pop d q)"
| "queue_call d Size q = map_prod Sized id (queue_size q)"
| "queue_call d Clear q = (Done, clear q)"
| "queue_call d (Set_size n) q = (Done, set_size n q)"
| "queue_call d Limit q = (Sized (get_limit_size q), q)"

definition queue_view :: "'a sized_queue \<Rightarrow> size_t \<times> 'a list" where
  "queue_view q = (m_limit_size q, m_deque q)"

lemma push_quiet:
  assumes "m_sched q = []" "0 < d"
  shows "push x d q =
    (if length (m_deque q) < unat (m_limit_size q)
     then (Inr (word_of_nat (length (m_deque q) + 1)),
           q\<lparr>m_deque := m_deque q @ [x], m_signals := m_signals q @ [Notified Can_pop]\<rparr>)
     else (Inl (Broker_exception ''no consumer''),
           q\<lparr>m_signals := m_signals q @ [Notified Can_pop, Waited Can_push]\<rparr>))"
  using assms
  by (simp add: push_def wait_for_room_def wait_cond_def notify_one_def queue_size_int_def Let_def)

interpretation timed_queue: simulation "queue_call d" fifo queue_view "\<lambda>q. m_sched q = [] \<and> 0 < d" for d
proof
  fix c c' :: "'a sized_queue" and x r
  assume g: "m_sched c = [] \<and> 0 < d" and s: "queue_call d x c = (r, c')"
  then have m: "m_sched c = []" and d: "0 < d" by simp_all
  show "(m_sched c' = [] \<and> 0 < d) \<and> fifo x (queue_view c) = (r, queue_view c')"
  proof (cases x)
    case (Push_item y)
    with s d show ?thesis
      by (auto simp: push_quiet [OF m d] result_of_def queue_view_def m split: if_splits)
  next
    case (Push_items ys)
    show ?thesis
    proof (cases "length (m_deque c) < unat (m_limit_size c)")
      case True
      with s d Push_items show ?thesis
        by (auto simp: push_all_quiet [OF m True refl] result_of_def queue_view_def m Let_def simp del: of_nat_add)
    next
      case False
      with s d Push_items show ?thesis
        by (auto simp: push_all_full_quiet [OF m] result_of_def queue_view_def m)
    qed
  next
    case Pop
    with s d show ?thesis
      by (auto simp: pop_quiet [OF m] result_of_def queue_view_def m split: list.splits)
  qed (use s g in \<open>auto simp: queue_view_def queue_size_def clear_def set_size_def get_limit_size_def\<close>)
qed

section \<open>Property\<close>

text \<open>
  C24: As long as no other thread touches it, the queue is a bounded first-in first-out list. Any
  sequence of operations that wait with a deadline, from any contents, returns what the
  specification returns, in order, and leaves the specified contents and limit; a push on a
  full and a pop on an empty queue run into their deadline.
\<close>

theorem queue_refines_fifo:
  assumes "m_sched q = []" "0 < d" "run_ops (queue_call d) ops q = (rs, q')"
  shows "run_ops fifo ops (m_limit_size q, m_deque q) = (rs, (m_limit_size q', m_deque q'))"
  using timed_queue.run_simulates [of q d ops rs q'] assms by (simp add: queue_view_def)

theorem queue_refines_fifo_witness:
  "\<exists>q'. run_ops (queue_call 3) [Push_items ''abc'', Pop, Pop, Pop] (new_sized_queue 2) =
     ([Pushed 2 ''a'', Popped CHR ''c'', Popped CHR ''b'', Expired ''no more items''], q') \<and> m_deque q' = []"
proof -
  obtain rs q' where r: "run_ops (queue_call 3) [Push_items ''abc'', Pop, Pop, Pop] (new_sized_queue 2) = (rs, q')"
    by fastforce
  from queue_refines_fifo [OF _ _ r] r show ?thesis
    by (simp add: new_sized_queue_def) 
qed

end
