(* ===== verification/Queue_Threads.thy ===== *)
theory Queue_Threads
  imports Sized_Queue Step_System
begin

text \<open>
  Threads that share one queue: any number of senders, which call \<open>push(T)\<close> for the items of a
  list, and of receivers, which call \<open>pop\<close> until they get an item \<open>stop\<close>; both wait without a
  deadline. The demonstration program of \<^verbatim>\<open>src/src/sized_queue.cc\<close> is one of each on a queue
  for two items. Other than in the brokers a condition may have several waiting threads here,
  of which a notification wakes any one.
\<close>

section \<open>Threads and steps\<close>

text \<open>A sender has the items left to push, a receiver those it got.\<close>

datatype 'a place =
    Sender "'a list"
  | Sender_wait "'a list"
  | Sender_woken "'a list"
  | Receiver "'a list"
  | Receiver_wait "'a list"
  | Receiver_woken "'a list"
  | Receiver_done "'a list"
  | Receiver_undefined "'a list"

record 'a qsys =
  q_limit :: nat
  q_deque :: "'a list"
  q_stop :: 'a
  place :: "nat \<Rightarrow> 'a place"

fun waits_for :: "cond \<Rightarrow> 'a place \<Rightarrow> bool" where
  "waits_for Can_push (Sender_wait xs) = True"
| "waits_for Can_pop (Receiver_wait xs) = True"
| "waits_for c p = False"

fun woken_place :: "'a place \<Rightarrow> 'a place" where
  "woken_place (Sender_wait xs) = Sender_woken xs"
| "woken_place (Receiver_wait xs) = Receiver_woken xs"
| "woken_place p = p"

text \<open>\<open>notify_one\<close>: any one of the waiting threads, or none if none waits.\<close>

inductive notified :: "cond \<Rightarrow> 'a qsys \<Rightarrow> 'a qsys \<Rightarrow> bool" for c :: cond where
  wake_one: "waits_for c (place s i) \<Longrightarrow> notified c s (s\<lparr>place := (place s)(i := woken_place (place s i))\<rparr>)"
| wake_none: "\<forall>i. \<not> waits_for c (place s i) \<Longrightarrow> notified c s s"

text \<open>What \<open>push\<close> and \<open>pop\<close> of thread \<open>i\<close> do when they have the lock and do not wait (any more).\<close>

definition put_item :: "nat \<Rightarrow> 'a \<Rightarrow> 'a list \<Rightarrow> 'a qsys \<Rightarrow> 'a qsys" where
  "put_item i x xs s = s\<lparr>q_deque := q_deque s @ [x], place := (place s)(i := Sender xs)\<rparr>"

definition get_item :: "nat \<Rightarrow> 'a list \<Rightarrow> 'a qsys \<Rightarrow> 'a qsys" where
  "get_item i acc s =
     (case q_deque s of
        [] \<Rightarrow> s\<lparr>place := (place s)(i := Receiver_undefined acc)\<rparr>
      | x # d \<Rightarrow> s\<lparr>q_deque := d, place := (place s)(i :=
          if x = q_stop s then Receiver_done (acc @ [x]) else Receiver (acc @ [x]))\<rparr>)"

inductive thread_step :: "nat \<Rightarrow> 'a qsys \<Rightarrow> 'a qsys \<Rightarrow> bool" for i :: nat where
  s_push: "place s i = Sender (x # xs) \<Longrightarrow> length (q_deque s) < q_limit s \<Longrightarrow>
    notified Can_pop (put_item i x xs s) s' \<Longrightarrow> thread_step i s s'"
| s_full: "place s i = Sender (x # xs) \<Longrightarrow> q_limit s \<le> length (q_deque s) \<Longrightarrow> notified Can_pop s t \<Longrightarrow>
    thread_step i s (t\<lparr>place := (place t)(i := Sender_wait (x # xs))\<rparr>)"
| s_woken: "place s i = Sender_woken (x # xs) \<Longrightarrow> notified Can_pop (put_item i x xs s) s' \<Longrightarrow> thread_step i s s'"
| r_pop: "place s i = Receiver acc \<Longrightarrow> q_deque s \<noteq> [] \<Longrightarrow> notified Can_push (get_item i acc s) s' \<Longrightarrow>
    thread_step i s s'"
| r_empty: "place s i = Receiver acc \<Longrightarrow> q_deque s = [] \<Longrightarrow> notified Can_push s t \<Longrightarrow>
    thread_step i s (t\<lparr>place := (place t)(i := Receiver_wait acc)\<rparr>)"
| r_woken: "place s i = Receiver_woken acc \<Longrightarrow> notified Can_push (get_item i acc s) s' \<Longrightarrow> thread_step i s s'"

text \<open>Any thread takes a step, or (with the parameter \<open>spur\<close>) one that waits is woken for no reason.\<close>

inductive threads_step :: "bool \<Rightarrow> 'a qsys \<Rightarrow> 'a qsys \<Rightarrow> bool" for spur :: bool where
  by_thread: "thread_step i s s' \<Longrightarrow> threads_step spur s s'"
| spurious_thread: "spur \<Longrightarrow> waits_for c (place s i) \<Longrightarrow>
    threads_step spur s (s\<lparr>place := (place s)(i := woken_place (place s i))\<rparr>)"

text \<open>The demonstration program, with its two threads; all other numbers are ended threads.\<close>

definition two_threads :: "nat \<Rightarrow> 'a list \<Rightarrow> 'a \<Rightarrow> 'a qsys" where
  "two_threads limit items stop = \<lparr>q_limit = limit, q_deque = [], q_stop = stop,
     place = (\<lambda>i. if i = 0 then Sender items else if i = 1 then Receiver [] else Sender [])\<rparr>"

definition demo_items :: "int list" where
  "demo_items = map int [0..<100] @ [- 1]"

definition demo :: "int qsys" where
  "demo = two_threads 2 demo_items (- 1)"

section \<open>One sender and one receiver\<close>

fun left :: "'a place \<Rightarrow> 'a list" where
  "left (Sender xs) = xs"
| "left (Sender_wait xs) = xs"
| "left (Sender_woken xs) = xs"
| "left p = []"

fun got :: "'a place \<Rightarrow> 'a list" where
  "got (Receiver acc) = acc"
| "got (Receiver_wait acc) = acc"
| "got (Receiver_woken acc) = acc"
| "got (Receiver_done acc) = acc"
| "got (Receiver_undefined acc) = acc"
| "got p = []"

fun is_sender :: "'a place \<Rightarrow> bool" where
  "is_sender (Sender xs) = True"
| "is_sender (Sender_wait xs) = (xs \<noteq> [])"
| "is_sender (Sender_woken xs) = (xs \<noteq> [])"
| "is_sender p = False"

fun is_receiver :: "'a \<Rightarrow> 'a place \<Rightarrow> bool" where
  "is_receiver x (Receiver acc) = (x \<notin> set acc)"
| "is_receiver x (Receiver_wait acc) = (x \<notin> set acc)"
| "is_receiver x (Receiver_woken acc) = (x \<notin> set acc)"
| "is_receiver x (Receiver_done acc) = (\<exists>ys. acc = ys @ [x] \<and> x \<notin> set ys)"
| "is_receiver x p = False"

fun receiving :: "'a place \<Rightarrow> bool" where
  "receiving (Sender xs) = False"
| "receiving (Sender_wait xs) = False"
| "receiving (Sender_woken xs) = False"
| "receiving p = True"

text \<open>What the receiver got, what the queue holds and what is left to send are the items in their order.\<close>

definition in_order :: "'a list \<Rightarrow> 'a qsys \<Rightarrow> bool" where
  "in_order items s \<longleftrightarrow> items = got (place s 1) @ q_deque s @ left (place s 0) \<and>
     is_sender (place s 0) \<and> receiving (place s 1) \<and> (\<forall>i > 1. place s i = Sender [])"

text \<open>A woken thread finds what it waits for; a thread waits only for what is not there.\<close>

definition paired :: "'a list \<Rightarrow> 'a qsys \<Rightarrow> bool" where
  "paired items s \<longleftrightarrow> 0 < q_limit s \<and> length (q_deque s) \<le> q_limit s \<and>
     items = got (place s 1) @ q_deque s @ left (place s 0) \<and>
     is_sender (place s 0) \<and> is_receiver (q_stop s) (place s 1) \<and> (\<forall>i > 1. place s i = Sender []) \<and>
     (\<forall>xs. place s 0 = Sender_wait xs \<longrightarrow> length (q_deque s) = q_limit s) \<and>
     (\<forall>xs. place s 0 = Sender_woken xs \<longrightarrow> length (q_deque s) < q_limit s) \<and>
     (\<forall>acc. place s 1 = Receiver_wait acc \<longrightarrow> q_deque s = []) \<and>
     (\<forall>acc. place s 1 = Receiver_woken acc \<longrightarrow> q_deque s \<noteq> [])"

text \<open>With two threads a notification reaches the other one.\<close>

lemma notified_pop:
  assumes "notified Can_pop s s'" "\<forall>i. i \<noteq> 1 \<longrightarrow> \<not> waits_for Can_pop (place s i)"
  shows "s' = s\<lparr>place := (place s)(1 := case place s 1 of Receiver_wait acc \<Rightarrow> Receiver_woken acc | p \<Rightarrow> p)\<rparr>"
  using assms(1)
proof cases
  case (wake_one i)
  then have "i = 1" using assms(2) by auto
  with wake_one show ?thesis by (cases "place s 1") auto
next
  case wake_none
  then have "\<not> waits_for Can_pop (place s 1)" by blast
  with wake_none(1) show ?thesis by (cases "place s 1") (auto simp: fun_upd_idem)
qed

lemma notified_push:
  assumes "notified Can_push s s'" "\<forall>i. i \<noteq> 0 \<longrightarrow> \<not> waits_for Can_push (place s i)"
  shows "s' = s\<lparr>place := (place s)(0 := case place s 0 of Sender_wait xs \<Rightarrow> Sender_woken xs | p \<Rightarrow> p)\<rparr>"
  using assms(1)
proof cases
  case (wake_one i)
  then have "i = 0" using assms(2) by auto
  with wake_one show ?thesis by (cases "place s 0") auto
next
  case wake_none
  then have "\<not> waits_for Can_push (place s 0)" by blast
  with wake_none(1) show ?thesis by (cases "place s 0") (auto simp: fun_upd_idem)
qed

lemma in_order_waits:
  assumes "in_order items s"
  shows "i \<noteq> 1 \<Longrightarrow> \<not> waits_for Can_pop (place s i)" "i \<noteq> 0 \<Longrightarrow> \<not> waits_for Can_push (place s i)"
proof -
  have p: "is_sender (place s 0)" "receiving (place s 1)" "\<forall>i > 1. place s i = Sender []"
    using assms by (auto simp: in_order_def)
  have i: "i = 0 \<or> i = 1 \<or> i > 1" by linarith
  show "i \<noteq> 1 \<Longrightarrow> \<not> waits_for Can_pop (place s i)" using i p by (cases "place s 0") auto
  show "i \<noteq> 0 \<Longrightarrow> \<not> waits_for Can_push (place s i)" using i p by (cases "place s 1") auto
qed

lemma paired_in_order: "paired items s \<Longrightarrow> in_order items s"
  by (cases "place s 1") (auto simp: paired_def in_order_def)

lemmas paired_waits = in_order_waits [OF paired_in_order]

text \<open>The steps left, where a notification hands its receiver one more.\<close>

fun place_rank :: "'a place \<Rightarrow> nat" where
  "place_rank (Sender xs) = (if xs = [] then 0 else 2)"
| "place_rank (Sender_wait xs) = 0"
| "place_rank (Sender_woken xs) = 1"
| "place_rank (Receiver acc) = 2"
| "place_rank (Receiver_wait acc) = 0"
| "place_rank (Receiver_woken acc) = 1"
| "place_rank (Receiver_done acc) = 0"
| "place_rank (Receiver_undefined acc) = 0"

definition pair_rank :: "'a qsys \<Rightarrow> nat" where
  "pair_rank s = 8 * length (left (place s 0)) + 4 * length (q_deque s) + place_rank (place s 0) + place_rank (place s 1)"

lemma paired_push:
  assumes "paired items s" "place s 0 = Sender (x # xs) \<and> length (q_deque s) < q_limit s \<or> place s 0 = Sender_woken (x # xs)"
    and "notified Can_pop (put_item 0 x xs s) s'"
  shows "paired items s' \<and> pair_rank s' < pair_rank s"
proof -
  have w: "\<forall>i. i \<noteq> 1 \<longrightarrow> \<not> waits_for Can_pop (place (put_item 0 x xs s) i)"
    using paired_waits(1) [OF assms(1)] by (simp add: put_item_def)
  from assms(1,2) notified_pop [OF assms(3) w] show ?thesis
    by (cases "place s 1") (auto simp: paired_def put_item_def pair_rank_def)
qed

lemma paired_pop:
  assumes "paired items s" "place s 1 = Receiver acc \<and> q_deque s \<noteq> [] \<or> place s 1 = Receiver_woken acc"
    and "notified Can_push (get_item 1 acc s) s'"
  shows "paired items s' \<and> pair_rank s' < pair_rank s"
proof -
  obtain x d where d: "q_deque s = x # d"
    using assms(1,2) by (cases "q_deque s") (auto simp: paired_def)
  have w: "\<forall>i. i \<noteq> 0 \<longrightarrow> \<not> waits_for Can_push (place (get_item 1 acc s) i)"
    using paired_waits(2) [OF assms(1)] d by (simp add: get_item_def)
  from assms(1,2) d notified_push [OF assms(3) w] show ?thesis
    by (cases "place s 0") (auto simp: paired_def get_item_def pair_rank_def)
qed

lemma paired_step:
  assumes "thread_step i s s'" "paired items s"
  shows "paired items s' \<and> pair_rank s' < pair_rank s"
proof -
  have p: "is_sender (place s 0)" "is_receiver (q_stop s) (place s 1)" "i > 1 \<Longrightarrow> place s i = Sender []"
    using assms(2) by (auto simp: paired_def)
  have i: "i = 0 \<or> i = 1 \<or> i > 1" by linarith
  from assms(1) show ?thesis
  proof cases
    case (s_push x xs)
    moreover from this p i have "i = 0" by auto
    ultimately show ?thesis using paired_push [OF assms(2)] by simp
  next
    case (s_woken x xs)
    moreover from this p i have "i = 0" by auto
    ultimately show ?thesis using paired_push [OF assms(2)] by simp
  next
    case (r_pop acc)
    moreover from this p i have "i = 1" by auto
    ultimately show ?thesis using paired_pop [OF assms(2)] by simp
  next
    case (r_woken acc)
    moreover from this p i have "i = 1" by auto
    ultimately show ?thesis using paired_pop [OF assms(2)] by simp
  next
    case (s_full x xs t)
    moreover from this p i have "i = 0" by auto
    ultimately show ?thesis
      using assms(2) notified_pop [OF s_full(4)] paired_waits(1) [OF assms(2)]
      by (cases "place s 1") (auto simp: paired_def pair_rank_def)
  next
    case (r_empty acc t)
    moreover from this p i have "i = 1" by auto
    ultimately show ?thesis
      using assms(2) notified_push [OF r_empty(4)] paired_waits(2) [OF assms(2)]
      by (cases "place s 0") (auto simp: paired_def pair_rank_def)
  qed
qed

text \<open>The order is kept even by spurious wake-ups, after which \<open>pop\<close> may be undefined and \<open>push\<close> exceed the limit.\<close>

lemma in_order_push:
  assumes "in_order items s" "place s 0 = Sender (x # xs) \<or> place s 0 = Sender_woken (x # xs)"
    and "notified Can_pop (put_item 0 x xs s) s'"
  shows "in_order items s'"
proof -
  have w: "\<forall>i. i \<noteq> 1 \<longrightarrow> \<not> waits_for Can_pop (place (put_item 0 x xs s) i)"
    using in_order_waits(1) [OF assms(1)] by (simp add: put_item_def)
  from assms(1,2) notified_pop [OF assms(3) w] show ?thesis
    by (cases "place s 1") (auto simp: in_order_def put_item_def)
qed

lemma in_order_pop:
  assumes "in_order items s" "place s 1 = Receiver acc \<or> place s 1 = Receiver_woken acc"
    and "notified Can_push (get_item 1 acc s) s'"
  shows "in_order items s'"
proof -
  have w: "\<forall>i. i \<noteq> 0 \<longrightarrow> \<not> waits_for Can_push (place (get_item 1 acc s) i)"
    using in_order_waits(2) [OF assms(1)] by (simp add: get_item_def split: list.split)
  from assms(1,2) notified_push [OF assms(3) w] show ?thesis
    by (cases "place s 0"; cases "q_deque s") (auto simp: in_order_def get_item_def)
qed

lemma in_order_thread:
  assumes "thread_step i s s'" "in_order items s"
  shows "in_order items s'"
proof -
  have p: "is_sender (place s 0)" "receiving (place s 1)" "i > 1 \<Longrightarrow> place s i = Sender []"
    using assms(2) by (auto simp: in_order_def)
  have i: "i = 0 \<or> i = 1 \<or> i > 1" by linarith
  note w = in_order_waits [OF assms(2)]
  from assms(1) show ?thesis
  proof cases
    case (s_push x xs)
    moreover from this p i have "i = 0" by auto
    ultimately show ?thesis using in_order_push [OF assms(2)] by simp
  next
    case (s_woken x xs)
    moreover from this p i have "i = 0" by auto
    ultimately show ?thesis using in_order_push [OF assms(2)] by simp
  next
    case (r_pop acc)
    moreover from this p i have "i = 1" by auto
    ultimately show ?thesis using in_order_pop [OF assms(2)] by simp
  next
    case (r_woken acc)
    moreover from this p i have "i = 1" by auto
    ultimately show ?thesis using in_order_pop [OF assms(2)] by simp
  next
    case (s_full x xs t)
    moreover from this p i have "i = 0" by auto
    ultimately show ?thesis
      using assms(2) notified_pop [OF s_full(4)] w(1) by (cases "place s 1") (auto simp: in_order_def)
  next
    case (r_empty acc t)
    moreover from this p i have "i = 1" by auto
    ultimately show ?thesis
      using assms(2) notified_push [OF r_empty(4)] w(2) by (cases "place s 0") (auto simp: in_order_def)
  qed
qed

lemma in_order_step:
  assumes "threads_step spur s s'" "in_order items s"
  shows "in_order items s'"
  using assms(1)
proof cases
  case (spurious_thread c i)
  have i: "i = 0 \<or> i = 1 \<or> i > 1" by linarith
  from spurious_thread assms(2) i show ?thesis
    by (cases "place s i"; cases c) (auto simp: in_order_def)
qed (use assms(2) in_order_thread in blast)

lemma in_order_run:
  assumes "(threads_step spur ^^ n) (two_threads limit items stop) s"
  shows "in_order items s"
proof -
  have "(threads_step spur)\<^sup>*\<^sup>* (two_threads limit items stop) s" using assms by (rule relpowp_imp_rtranclp)
  then show ?thesis
  proof (induction rule: rtranclp_induct)
    case base
    show ?case by (simp add: in_order_def two_threads_def)
  qed (rule in_order_step)
qed

lemma notified_total: "\<exists>s'. notified c s s'"
  by (cases "\<exists>i. waits_for c (place s i)") (auto intro: wake_one wake_none)

lemma sender_can_step:
  assumes "place s i = Sender (x # xs) \<or> place s i = Sender_woken (x # xs)"
  shows "\<exists>s'. thread_step i s s'"
proof -
  obtain s1 s2 where n: "notified Can_pop (put_item i x xs s) s1" "notified Can_pop s s2"
    using notified_total by blast
  with assms show ?thesis using s_push [OF _ _ n(1)] s_full [OF _ _ n(2)] s_woken [OF _ n(1)]
    by (cases "length (q_deque s) < q_limit s") auto
qed

lemma receiver_can_step:
  assumes "place s i = Receiver acc \<or> place s i = Receiver_woken acc"
  shows "\<exists>s'. thread_step i s s'"
proof -
  obtain s1 s2 where n: "notified Can_push (get_item i acc s) s1" "notified Can_push s s2"
    using notified_total by blast
  with assms show ?thesis using r_pop [OF _ _ n(1)] r_empty [OF _ _ n(2)] r_woken [OF _ n(1)]
    by (cases "q_deque s = []") auto
qed

lemma pairedD:
  assumes "paired items s"
  shows "0 < q_limit s" "length (q_deque s) \<le> q_limit s"
    "got (place s 1) @ q_deque s @ left (place s 0) = items"
    "is_sender (place s 0)" "is_receiver (q_stop s) (place s 1)"
    "place s 0 = Sender_wait xs \<Longrightarrow> length (q_deque s) = q_limit s"
    "place s 1 = Receiver_wait acc \<Longrightarrow> q_deque s = []"
  using assms by (simp_all add: paired_def)

lemma split_at_only:
  assumes "xs @ [y] = ys @ y # zs" "y \<notin> set xs"
  shows "ys = xs \<and> zs = []"
proof -
  have "takeWhile (\<lambda>x. x \<noteq> y) (xs @ [y]) = xs" using assms(2) by (induction xs) auto
  moreover have "y \<notin> set ys"
  proof (cases zs rule: rev_cases)
    case (snoc zs' z)
    with assms(1) have "xs = ys @ y # zs'" by (metis append_Cons append_assoc butlast_snoc)
    with assms(2) show ?thesis by auto
  qed (use assms in auto)
  then have "takeWhile (\<lambda>x. x \<noteq> y) (ys @ y # zs) = ys" by (induction ys) auto
  ultimately show ?thesis using assms(1) by simp
qed

lemma paired_stuck:
  assumes "paired (xs @ [stop]) s" "q_stop s = stop" "stop \<notin> set xs" "\<nexists>s'. threads_step False s s'"
  shows "place s 1 = Receiver_done (xs @ [stop]) \<and> place s 0 = Sender [] \<and> q_deque s = []"
proof -
  note p = pairedD [OF assms(1)]
  have n: "\<nexists>s'. thread_step i s s'" for i using assms(4) by (auto intro: by_thread)
  have full: "place s 0 = Sender [] \<or> (\<exists>ys. place s 0 = Sender_wait ys \<and> ys \<noteq> [])"
  proof (cases "place s 0")
    case (Sender ys)
    then show ?thesis using sender_can_step [of s 0] n [of 0] by (cases ys) auto
  next
    case (Sender_woken ys)
    then show ?thesis using sender_can_step [of s 0] n [of 0] p(4) by (cases ys) auto
  qed (use p(4) in auto)
  show ?thesis
  proof (cases "place s 1")
    case (Receiver acc)
    then show ?thesis using receiver_can_step [of s 1] n [of 1] by blast
  next
    case (Receiver_woken acc)
    then show ?thesis using receiver_can_step [of s 1] n [of 1] by blast
  next
    case (Receiver_done acc)
    with p(5) assms(2) obtain ys where ys: "place s 1 = Receiver_done (ys @ [stop])" by auto
    with p(3) have "xs @ [stop] = ys @ stop # (q_deque s @ left (place s 0))" by simp
    from split_at_only [OF this assms(3)] have "ys = xs" "q_deque s = []" "left (place s 0) = []" by auto
    with ys full show ?thesis by auto
  next
    case (Receiver_wait acc)
    then have d: "q_deque s = []" by (rule p(7))
    then have "left (place s 0) = []" using full p(1,6) by auto
    with p(3) d Receiver_wait have "acc = xs @ [stop]" by simp
    with p(5) assms(2) Receiver_wait show ?thesis by simp
  qed (use p(5) in simp_all)
qed

definition pair_start :: "'a list \<Rightarrow> 'a \<Rightarrow> 'a qsys \<Rightarrow> bool" where
  "pair_start xs stop s \<longleftrightarrow> stop \<notin> set xs \<and> (\<exists>limit > 0. s = two_threads limit (xs @ [stop]) stop)"

lemma pair_startI: "0 < limit \<Longrightarrow> stop \<notin> set xs \<Longrightarrow> pair_start xs stop (two_threads limit (xs @ [stop]) stop)"
  by (auto simp: pair_start_def)

definition paired_to :: "'a list \<Rightarrow> 'a \<Rightarrow> 'a qsys \<Rightarrow> bool" where
  "paired_to xs stop s \<longleftrightarrow> paired (xs @ [stop]) s \<and> q_stop s = stop \<and> stop \<notin> set xs"

lemma notified_stop: "notified c s s' \<Longrightarrow> q_stop s' = q_stop s"
  by (erule notified.cases) auto

lemma thread_step_stop: "thread_step i s s' \<Longrightarrow> q_stop s' = q_stop s"
  by (erule thread_step.cases) (auto dest!: notified_stop simp: put_item_def get_item_def split: list.splits)

lemma paired_to_start: "pair_start xs stop s \<Longrightarrow> paired_to xs stop s"
  by (auto simp: pair_start_def paired_to_def paired_def two_threads_def)

lemma paired_to_step:
  "threads_step False s s' \<Longrightarrow> paired_to xs stop s \<Longrightarrow> paired_to xs stop s' \<and> pair_rank s' < pair_rank s"
  by (erule threads_step.cases) (auto simp: paired_to_def thread_step_stop dest: paired_step)

text \<open>The receiver has everything and the sender is through.\<close>

definition delivered :: "'a list \<Rightarrow> 'a qsys \<Rightarrow> bool" where
  "delivered items s \<longleftrightarrow> place s 1 = Receiver_done items \<and> place s 0 = Sender [] \<and> q_deque s = []"

lemma paired_to_stuck: "paired_to xs stop s \<Longrightarrow> \<not> delivered (xs @ [stop]) s \<Longrightarrow> \<exists>s'. threads_step False s s'"
  using paired_stuck [of xs stop s] by (simp only: paired_to_def delivered_def) blast

interpretation pair: ranked_thread "pair_start xs stop" "threads_step False" "paired_to xs stop"
    "threads_step False" "\<lambda>_. True" "delivered (xs @ [stop])" pair_rank
  for xs :: "'a list" and stop :: 'a
  by unfold_locales (auto simp: paired_to_start dest: paired_to_step paired_to_stuck)

text \<open>Any run is finite, and where it cannot go on everything was delivered.\<close>

lemma pair_run:
  assumes "0 < limit" "stop \<notin> set xs" "(threads_step False ^^ n) (two_threads limit (xs @ [stop]) stop) s"
  shows "n \<le> 8 * length xs + 12 \<and> paired_to xs stop s \<and> ((\<nexists>s'. threads_step False s s') \<longrightarrow> delivered (xs @ [stop]) s)"
proof -
  let ?s = "two_threads limit (xs @ [stop]) stop"
  have p: "paired_to xs stop ?s" using assms(1,2) by (intro paired_to_start) (auto simp: pair_start_def)
  have "pair_rank ?s = 8 * length xs + 12" by (simp add: pair_rank_def two_threads_def)
  with pair.bounded_run [OF p _ assms(3)] paired_to_stuck show ?thesis by fastforce
qed

section \<open>Three threads\<close>

text \<open>Threads 0 to 2 on a queue for one item.\<close>

definition trio :: "int list \<Rightarrow> int place \<Rightarrow> int place \<Rightarrow> int place \<Rightarrow> int qsys" where
  "trio d a b c = \<lparr>q_limit = 1, q_deque = d, q_stop = - 1,
     place = (\<lambda>i. if i = 0 then a else if i = 1 then b else if i = 2 then c else Sender [])\<rparr>"

lemma trio_simps [simp]:
  "place (trio d a b c) 0 = a" "place (trio d a b c) 1 = b" "place (trio d a b c) (Suc 0) = b" "place (trio d a b c) 2 = c"
  "q_deque (trio d a b c) = d" "q_limit (trio d a b c) = 1" "q_stop (trio d a b c) = - 1"
  "(trio d a b c)\<lparr>place := (place (trio d a b c))(0 := p)\<rparr> = trio d p b c"
  "(trio d a b c)\<lparr>place := (place (trio d a b c))(1 := p)\<rparr> = trio d a p c"
  "(trio d a b c)\<lparr>place := (place (trio d a b c))(Suc 0 := p)\<rparr> = trio d a p c"
  "(trio d a b c)\<lparr>place := (place (trio d a b c))(2 := p)\<rparr> = trio d a b p"
  "(trio d a b c)\<lparr>q_deque := e, place := (place (trio d a b c))(0 := p)\<rparr> = trio e p b c"
  "(trio d a b c)\<lparr>q_deque := e, place := (place (trio d a b c))(1 := p)\<rparr> = trio e a p c"
  "(trio d a b c)\<lparr>q_deque := e, place := (place (trio d a b c))(Suc 0 := p)\<rparr> = trio e a p c"
  "(trio d a b c)\<lparr>q_deque := e, place := (place (trio d a b c))(2 := p)\<rparr> = trio e a b p"
  by (auto simp: trio_def)

lemmas threads_stepI = by_thread

lemma not_waiting [simp]: "\<not> waits_for k (Sender xs)" "\<not> waits_for k (Receiver acc)"
  "\<not> waits_for k (Sender_woken xs)" "\<not> waits_for k (Receiver_woken acc)"
  by (cases k; simp)+

lemma trio_notified:
  "waits_for k a \<Longrightarrow> notified k (trio d a b c) (trio d (woken_place a) b c)"
  "waits_for k b \<Longrightarrow> notified k (trio d a b c) (trio d a (woken_place b) c)"
  "\<not> waits_for k a \<Longrightarrow> \<not> waits_for k b \<Longrightarrow> \<not> waits_for k c \<Longrightarrow> notified k (trio d a b c) (trio d a b c)"
  using wake_one [of k "trio d a b c" 0] wake_one [of k "trio d a b c" 1]
  by simp_all (auto intro!: wake_none simp: trio_def split: if_splits)

text \<open>Receiver 1 waits and is woken for an item that receiver 2 pops first.\<close>

lemma two_receivers_run:
  "(threads_step spur)\<^sup>*\<^sup>* (trio [] (Sender [5]) (Receiver []) (Receiver []))
     (trio [] (Sender []) (Receiver_undefined []) (Receiver [5]))"
proof -
  note go = converse_rtranclp_into_rtranclp [where r = "threads_step spur", OF threads_stepI]
  let ?s0 = "trio [] (Sender [5]) (Receiver []) (Receiver [])"
  let ?s1 = "trio [] (Sender [5]) (Receiver_wait []) (Receiver [])"
  let ?s2 = "trio [5] (Sender []) (Receiver_woken []) (Receiver [])"
  let ?s3 = "trio [] (Sender []) (Receiver_woken []) (Receiver [5])"
  have s1: "thread_step 1 ?s0 ?s1" using r_empty [of ?s0 1 "[]", OF _ _ trio_notified(3)] by simp
  have s2: "thread_step 0 ?s1 ?s2"
    using trio_notified(2) [of Can_pop "Receiver_wait []"]
    by (intro s_push [of _ _ 5 "[]"]) (simp_all add: put_item_def)
  have s3: "thread_step 2 ?s2 ?s3" by (rule r_pop [of _ _ "[]"]) (simp_all add: get_item_def trio_notified(3))
  have s4: "thread_step 1 ?s3 (trio [] (Sender []) (Receiver_undefined []) (Receiver [5]))"
    by (rule r_woken [of _ _ "[]"]) (simp_all add: get_item_def trio_notified(3))
  show ?thesis
    by (rule go [OF s1], rule go [OF s2], rule go [OF s3], rule go [OF s4], rule rtranclp.rtrancl_refl)
qed

text \<open>Sender 0 waits for room and is woken for room that sender 1 takes first.\<close>

lemma two_senders_run:
  "(threads_step spur)\<^sup>*\<^sup>* (trio [] (Sender [1, 2]) (Sender [3]) (Receiver []))
     (trio [3, 2] (Sender []) (Sender []) (Receiver [1]))"
proof -
  note go = converse_rtranclp_into_rtranclp [where r = "threads_step spur", OF threads_stepI]
  let ?s0 = "trio [] (Sender [1, 2]) (Sender [3]) (Receiver [])"
  let ?s1 = "trio [1] (Sender [2]) (Sender [3]) (Receiver [])"
  let ?s2 = "trio [1] (Sender_wait [2]) (Sender [3]) (Receiver [])"
  let ?s3 = "trio [] (Sender_woken [2]) (Sender [3]) (Receiver [1])"
  let ?s4 = "trio [3] (Sender_woken [2]) (Sender []) (Receiver [1])"
  have s1: "thread_step 0 ?s0 ?s1" by (rule s_push [of _ _ 1 "[2]"]) (simp_all add: put_item_def trio_notified(3))
  have s2: "thread_step 0 ?s1 ?s2" using s_full [of ?s1 0 2 "[]", OF _ _ trio_notified(3)] by simp
  have s3: "thread_step 2 ?s2 ?s3"
    using trio_notified(1) [of Can_push "Sender_wait [2]"]
    by (intro r_pop [of _ _ "[]"]) (simp_all add: get_item_def)
  have s4: "thread_step 1 ?s3 ?s4" by (rule s_push [of _ _ 3 "[]"]) (simp_all add: put_item_def trio_notified(3))
  have s5: "thread_step 0 ?s4 (trio [3, 2] (Sender []) (Sender []) (Receiver [1]))"
    by (rule s_woken [of _ _ 2 "[]"]) (simp_all add: put_item_def trio_notified(3))
  show ?thesis
    by (rule go [OF s1], rule go [OF s2], rule go [OF s3], rule go [OF s4], rule go [OF s5], rule rtranclp.rtrancl_refl)
qed

lemma stop_is_new: "- 1 \<notin> set (map int [0..<n])"
  by auto

section \<open>Properties\<close>

text \<open>
  C13: One sender and one receiver, for a positive limit and a list of items that ends with the only
  item \<open>stop\<close>. In every run of the two threads, spurious wake-ups included, what the receiver got,
  what the queue holds and what is left to send are the items in their order: none is lost,
  duplicated or overtaken. If there are no spurious wake-ups, every run has at most \<open>8 * length xs + 12\<close>
  steps, keeps the queue within its limit and never takes the front of an empty deque, and where
  it cannot go on the receiver has got all items: no deadlock and no lost wake-up. Spurious wake-ups
  break the limit and the safety of \<open>pop\<close>, which waits in an \<open>if\<close> (next theorem).
\<close>

theorem pair_delivers_all:
  assumes "0 < limit" "stop \<notin> set xs" "(threads_step spur ^^ n) (two_threads limit (xs @ [stop]) stop) s"
  shows "got (place s 1) @ q_deque s @ left (place s 0) = xs @ [stop] \<and>
    (spur \<or> n \<le> 8 * length xs + 12 \<and> length (q_deque s) \<le> q_limit s \<and>
      (\<forall>acc. place s 1 \<noteq> Receiver_undefined acc) \<and>
      ((\<nexists>s'. threads_step spur s s') \<longrightarrow> place s 1 = Receiver_done (xs @ [stop])))"
proof (cases spur)
  case True
  then show ?thesis using in_order_run [OF assms(3)] by (simp add: in_order_def)
next
  case False
  note r = pair_run [OF assms(1,2) assms(3) [unfolded eq_False [THEN iffD2, OF False]]]
  then have p: "paired (xs @ [stop]) s" by (simp add: paired_to_def)
  have "place s 1 \<noteq> Receiver_undefined acc" for acc using pairedD(5) [OF p] by auto
  with r pairedD(2,3) [OF p] False show ?thesis by (simp add: delivered_def)
qed

theorem pair_delivers_all_witness:
  "\<exists>n s. (threads_step False ^^ n) demo s \<and> n \<le> 812 \<and> place s 1 = Receiver_done demo_items"
proof -
  let ?xs = "map int [0..<100]"
  have d: "demo = two_threads 2 (?xs @ [- 1]) (- 1)" by (simp only: demo_def demo_items_def)
  have stop: "- 1 \<notin> set ?xs" by (rule stop_is_new)
  have "pair_start ?xs (- 1) demo" unfolding d by (rule pair_startI [OF zero_less_numeral stop])
  from pair.run_to_finish [OF paired_to_start [OF this] TrueI]
  obtain n s where n: "(threads_step False ^^ n) demo s" "delivered (?xs @ [- 1]) s" by (elim exE conjE)
  from pair_delivers_all [OF zero_less_numeral stop n(1) [unfolded d]] have "n \<le> 8 * length ?xs + 12" by blast
  moreover have "8 * length ?xs + 12 = 812" by (simp only: length_map length_upt)
  ultimately have "n \<le> 812" by (simp only:)
  moreover have "place s 1 = Receiver_done demo_items" using n(2) by (simp only: delivered_def demo_items_def)
  ultimately show ?thesis using n(1) by (intro exI conjI)
qed

text \<open>
  With spurious wake-ups one sender and one receiver are not safe either: a receiver that is woken
  for nothing takes the front of an empty deque, and a sender that is woken for nothing puts a
  second item into a queue for one.
\<close>

lemma trio_two_threads: "two_threads 1 items (- 1) = trio [] (Sender items) (Receiver []) (Sender [])"
  by (auto simp: two_threads_def trio_def)

lemma spurious_receiver_run:
  "(threads_step True)\<^sup>*\<^sup>* (trio [] (Sender items) (Receiver []) (Sender []))
     (trio [] (Sender items) (Receiver_undefined []) (Sender []))"
proof -
  note go = converse_rtranclp_into_rtranclp [where r = "threads_step True"]
  let ?s0 = "trio [] (Sender items) (Receiver []) (Sender [])"
  let ?s1 = "trio [] (Sender items) (Receiver_wait []) (Sender [])"
  let ?s2 = "trio [] (Sender items) (Receiver_woken []) (Sender [])"
  have s1: "thread_step 1 ?s0 ?s1" using r_empty [of ?s0 1 "[]", OF _ _ trio_notified(3)] by simp
  have s2: "threads_step True ?s1 ?s2" using spurious_thread [of True Can_pop ?s1 1] by simp
  have s3: "thread_step 1 ?s2 (trio [] (Sender items) (Receiver_undefined []) (Sender []))"
    by (rule r_woken [of _ _ "[]"]) (simp_all add: get_item_def trio_notified(3))
  show ?thesis
    by (rule go [OF by_thread [OF s1]], rule go [OF s2], rule go [OF by_thread [OF s3]], rule rtranclp.rtrancl_refl)
qed

lemma spurious_sender_run:
  "(threads_step True)\<^sup>*\<^sup>* (trio [] (Sender [1, - 1]) (Receiver []) (Sender []))
     (trio [1, - 1] (Sender []) (Receiver []) (Sender []))"
proof -
  note go = converse_rtranclp_into_rtranclp [where r = "threads_step True"]
  let ?s0 = "trio [] (Sender [1, - 1]) (Receiver []) (Sender [])"
  let ?s1 = "trio [1] (Sender [- 1]) (Receiver []) (Sender [])"
  let ?s2 = "trio [1] (Sender_wait [- 1]) (Receiver []) (Sender [])"
  let ?s3 = "trio [1] (Sender_woken [- 1]) (Receiver []) (Sender [])"
  have s1: "thread_step 0 ?s0 ?s1" by (rule s_push [of _ _ 1 "[- 1]"]) (simp_all add: put_item_def trio_notified(3))
  have s2: "thread_step 0 ?s1 ?s2" using s_full [of ?s1 0 "- 1" "[]", OF _ _ trio_notified(3)] by simp
  have s3: "threads_step True ?s2 ?s3" using spurious_thread [of True Can_push ?s2 0] by simp
  have s4: "thread_step 0 ?s3 (trio [1, - 1] (Sender []) (Receiver []) (Sender []))"
    by (rule s_woken [of _ _ "- 1" "[]"]) (simp_all add: put_item_def trio_notified(3))
  show ?thesis
    by (rule go [OF by_thread [OF s1]], rule go [OF by_thread [OF s2]], rule go [OF s3], rule go [OF by_thread [OF s4]],
        rule rtranclp.rtrancl_refl)
qed

theorem spurious_pair_breaks:
  "(\<exists>s. (threads_step True)\<^sup>*\<^sup>* (two_threads 1 [1, - 1] (- 1 :: int)) s \<and> place s 1 = Receiver_undefined []) \<and>
   (\<exists>s. (threads_step True)\<^sup>*\<^sup>* (two_threads 1 [1, - 1] (- 1 :: int)) s \<and> q_limit s < length (q_deque s))"
  unfolding trio_two_threads
  by (intro conjI exI, rule spurious_receiver_run, simp, rule spurious_sender_run, simp)

text \<open>
  More than one thread on a side is too many, without any spurious wake-up. With two receivers
  there is a run in which one takes the front of an empty deque, and with two senders one in
  which the queue for one item holds two: a thread is woken for an item or for room that
  another one takes first, and neither \<open>pop\<close> nor \<open>push\<close> looks again.
\<close>

theorem two_on_a_side_break:
  "(\<exists>s. (threads_step spur)\<^sup>*\<^sup>* (trio [] (Sender [5]) (Receiver []) (Receiver [])) s \<and> place s 1 = Receiver_undefined []) \<and>
   (\<exists>s. (threads_step spur)\<^sup>*\<^sup>* (trio [] (Sender [1, 2]) (Sender [3]) (Receiver [])) s \<and> q_limit s < length (q_deque s))"
  by (intro conjI exI, rule two_receivers_run, simp, rule two_senders_run, simp)

end
