(* ===== verification/Driver_Api.thy ===== *)
theory Driver_Api
  imports Prelude
begin

text \<open>
  The MongoDB C++ driver is not part of the repository. The model takes it as a parameter: a
  record of the functions the code calls, over an abstract type of BSON objects \<open>'o\<close> and of
  database contents \<open>'db\<close>. A \<open>BSONObjBuilder\<close> is the object built so far. Calls that the
  driver documents to throw return a fault or a value.

  \<open>getIntField\<close> yields \<open>INT_MIN\<close>, \<open>getStringField\<close> the empty string, \<open>getObjectField\<close> the
  empty object and \<open>getBoolField\<close> false for a missing field; \<open>getObjectID\<close> yields the
  \<open>OID::str()\<close> of the field \<open>_id\<close>; \<open>conn_connect\<close> an error message or nothing; \<open>conn_query\<close>
  the documents its cursor iterates over, for a condition, the direction of the sort by
  \<open>_id\<close>, \<open>limit\<close>, \<open>skip\<close> and the fields to return.
\<close>

record ('o, 'db) driver =
  fromjson :: "string \<Rightarrow> fault + 'o"
  jsonString :: "'o \<Rightarrow> string"
  emptyObj :: "'o"
  isEmpty :: "'o \<Rightarrow> bool"
  getStringField :: "'o \<Rightarrow> string \<Rightarrow> string"
  getIntField :: "'o \<Rightarrow> string \<Rightarrow> c_int"
  getObjectField :: "'o \<Rightarrow> string \<Rightarrow> 'o"
  getBoolField :: "'o \<Rightarrow> string \<Rightarrow> bool"
  objVals :: "'o \<Rightarrow> 'o list"
  md5 :: "'o \<Rightarrow> string"
  getObjectID :: "'o \<Rightarrow> string option"
  append_int :: "string \<Rightarrow> c_int \<Rightarrow> 'o \<Rightarrow> 'o"
  append_string :: "string \<Rightarrow> string \<Rightarrow> 'o \<Rightarrow> 'o"
  append_object :: "string \<Rightarrow> 'o \<Rightarrow> 'o \<Rightarrow> 'o"
  append_OID :: "string \<Rightarrow> string \<Rightarrow> 'o \<Rightarrow> 'o"
  appendElements :: "'o \<Rightarrow> 'o \<Rightarrow> 'o"
  conn_connect :: "'db \<Rightarrow> string \<Rightarrow> string option"
  conn_query :: "'db \<Rightarrow> string \<Rightarrow> 'o \<Rightarrow> int \<Rightarrow> c_int \<Rightarrow> c_int \<Rightarrow> 'o option \<Rightarrow> fault + 'o list"
  conn_update :: "'db \<Rightarrow> string \<Rightarrow> 'o \<Rightarrow> 'o \<Rightarrow> bool \<Rightarrow> bool \<Rightarrow> fault + 'db"

text \<open>
  Documented behaviour used as a hypothesis where a property needs it: printing an object as
  JSON and parsing it gives the object back.
\<close>

definition json_roundtrip :: "('o, 'db) driver \<Rightarrow> bool" where
  "json_roundtrip D \<longleftrightarrow> (\<forall>x. fromjson D (jsonString D x) = Inr x)"

section \<open>A small concrete driver\<close>

text \<open>
  An instance of the parameter on which witnesses are evaluated: an object is a list of named
  values, its JSON text is its id, and the database is a list of documents in the order of
  their ids, so that "greater than an id" is "behind the document with that id".
\<close>

datatype bson_value =
    VInt c_int | VStr string | VBool bool | VOid string | VObj "(string \<times> bson_value) list"

type_synonym bson = "(string \<times> bson_value) list"

definition sample_int :: "bson \<Rightarrow> string \<Rightarrow> c_int" where
  "sample_int x f = (case map_of x f of Some (VInt i) \<Rightarrow> i | _ \<Rightarrow> INT_MIN)"

definition sample_str :: "bson \<Rightarrow> string \<Rightarrow> string" where
  "sample_str x f = (case map_of x f of Some (VStr s) \<Rightarrow> s | _ \<Rightarrow> [])"

definition sample_obj :: "bson \<Rightarrow> string \<Rightarrow> bson" where
  "sample_obj x f = (case map_of x f of Some (VObj y) \<Rightarrow> y | _ \<Rightarrow> [])"

definition sample_bool :: "bson \<Rightarrow> string \<Rightarrow> bool" where
  "sample_bool x f = (case map_of x f of Some (VBool b) \<Rightarrow> b | _ \<Rightarrow> False)"

definition sample_vals :: "bson \<Rightarrow> bson list" where
  "sample_vals x = concat (map (\<lambda>(_, v). case v of VObj y \<Rightarrow> [y] | _ \<Rightarrow> []) x)"

definition sample_oid :: "bson \<Rightarrow> string option" where
  "sample_oid x = (case map_of x ''_id'' of Some (VOid s) \<Rightarrow> Some s | _ \<Rightarrow> None)"

definition page :: "c_int \<Rightarrow> c_int \<Rightarrow> 'a list \<Rightarrow> 'a list" where
  "page limit skip xs =
     (let ys = drop (nat (sint skip)) xs in if limit = 0 then ys else take (nat (sint limit)) ys)"

definition sample_behind :: "bson \<Rightarrow> bson list \<Rightarrow> bson list" where
  "sample_behind c db =
     (case map_of (sample_obj c ''_id'') ''$gt'' of
        Some (VOid i) \<Rightarrow> tl (dropWhile (\<lambda>d. sample_oid d \<noteq> Some i) db)
      | _ \<Rightarrow> db)"

definition sample_driver :: "(bson, bson list) driver" where
  "sample_driver = \<lparr>
     fromjson = (\<lambda>s. Inr [(''_id'', VOid s)]),
     jsonString = (\<lambda>x. case sample_oid x of Some i \<Rightarrow> i | None \<Rightarrow> []),
     emptyObj = [],
     isEmpty = (\<lambda>x. x = []),
     getStringField = sample_str, getIntField = sample_int, getObjectField = sample_obj,
     getBoolField = sample_bool, objVals = sample_vals,
     md5 = (\<lambda>x. sample_str x ''collection''),
     getObjectID = sample_oid,
     append_int = (\<lambda>f i x. x @ [(f, VInt i)]),
     append_string = (\<lambda>f s x. x @ [(f, VStr s)]),
     append_object = (\<lambda>f y x. x @ [(f, VObj y)]),
     append_OID = (\<lambda>f i x. x @ [(f, VOid i)]),
     appendElements = (\<lambda>y x. x @ y),
     conn_connect = (\<lambda>db s. None),
     conn_query = (\<lambda>db ds c dir limit skip flds.
        Inr (page limit skip (if dir = 1 then sample_behind c db else rev (sample_behind c db)))),
     conn_update = (\<lambda>db ds q d upsert multi. Inr (db @ [d]))\<rparr>"

lemmas sample_defs = sample_driver_def sample_int_def sample_str_def sample_obj_def
  sample_bool_def sample_vals_def sample_oid_def sample_behind_def page_def

lemma sample_driver_simps:
  "fromjson sample_driver = (\<lambda>s. Inr [(''_id'', VOid s)])"
  "jsonString sample_driver = (\<lambda>x. case sample_oid x of Some i \<Rightarrow> i | None \<Rightarrow> [])"
  "emptyObj sample_driver = []" "isEmpty sample_driver = (\<lambda>x. x = [])"
  "getStringField sample_driver = sample_str" "getIntField sample_driver = sample_int"
  "getObjectField sample_driver = sample_obj" "getBoolField sample_driver = sample_bool"
  "objVals sample_driver = sample_vals" "md5 sample_driver = (\<lambda>x. sample_str x ''collection'')"
  "getObjectID sample_driver = sample_oid"
  "append_int sample_driver = (\<lambda>f i x. x @ [(f, VInt i)])"
  "append_string sample_driver = (\<lambda>f s x. x @ [(f, VStr s)])"
  "append_object sample_driver = (\<lambda>f y x. x @ [(f, VObj y)])"
  "append_OID sample_driver = (\<lambda>f i x. x @ [(f, VOid i)])"
  "appendElements sample_driver = (\<lambda>y x. x @ y)"
  "conn_connect sample_driver db s = None"
  "conn_query sample_driver db ds c dir l sk f =
     Inr (page l sk (if dir = 1 then sample_behind c db else rev (sample_behind c db)))"
  "conn_update sample_driver db ds q d upsert multi = Inr (db @ [d])"
  by (simp_all add: sample_driver_def)

text \<open>Options that name a host, a port, a database and a collection.\<close>

definition sample_options :: "(string \<times> bson_value) list \<Rightarrow> bson" where
  "sample_options ps =
     [(''host'', VStr ''h''), (''port'', VInt 27017), (''database'', VStr ''d''),
      (''collection'', VStr ''c''), (''parameters'', VObj ps), (''purpose'', VInt 1)]"

end
