(* ===== verification/Broker.thy ===== *)
theory Broker
  imports Driver_Api Sized_Queue C_Library
begin

text \<open>
  The broker (\<^verbatim>\<open>src/src/broker.hpp\<close>, \<^verbatim>\<open>src/src/broker.cc\<close>) moves documents between one
  collection of the database and a bounded queue. A read broker queries pages of documents
  and queues them for its clients; a write broker takes update requests from its queue and
  applies them. This theory has its state and its operations as calls of one thread; log
  output and timers are left out.
\<close>

section \<open>State\<close>

definition Asc :: int where "Asc = 1"
definition Desc :: int where "Desc = - 1"

record 'o broker =
  m_queue :: "string sized_queue"
  m_json_doc_cache :: "string list"
  m_connection_string :: string
  m_docset :: string
  m_last_doc_id :: string
  m_options :: "'o"
  m_host :: string
  m_port :: c_int
  m_database :: string
  m_collection :: string
  m_limit :: c_int
  m_skip :: c_int
  m_queue_size :: c_int
  m_read_timeout :: c_int
  m_read_retry :: c_int
  m_conditions :: "'o"
  m_fields :: "'o"
  m_do_exit :: bool
  m_inited :: bool
  m_connected :: bool
  m_reach_end :: bool
  m_has_fields :: bool
  m_querying :: bool
  m_query_doc_count :: size_t
  m_query_count :: size_t
  m_update_count :: size_t

definition reset :: "'o broker \<Rightarrow> 'o broker" where
  "reset b = b\<lparr>
     m_do_exit := False, m_querying := False,
     m_inited := False, m_connected := False, m_reach_end := False,
     m_port := 0, m_limit := 0, m_skip := 0, m_queue_size := 0,
     m_read_timeout := 1, m_read_retry := 1,
     m_query_doc_count := 0, m_query_count := 0, m_update_count := 0,
     m_has_fields := False,
     m_last_doc_id := []\<rparr>"

text \<open>The members before the constructor's body runs; \<open>reset\<close> sets all the scalars.\<close>

definition default_broker :: "('o, 'db) driver \<Rightarrow> 'o broker" where
  "default_broker D = \<lparr>
     m_queue = default_sized_queue, m_json_doc_cache = [], m_connection_string = [],
     m_docset = [], m_last_doc_id = [], m_options = emptyObj D, m_host = [], m_port = 0,
     m_database = [], m_collection = [], m_limit = 0, m_skip = 0, m_queue_size = 0,
     m_read_timeout = 0, m_read_retry = 0, m_conditions = emptyObj D, m_fields = emptyObj D,
     m_do_exit = False, m_inited = False, m_connected = False, m_reach_end = False,
     m_has_fields = False, m_querying = False,
     m_query_doc_count = 0, m_query_count = 0, m_update_count = 0\<rparr>"

definition new_broker :: "('o, 'db) driver \<Rightarrow> 'o broker" where
  "new_broker D = reset (default_broker D)"

definition new_broker_options :: "('o, 'db) driver \<Rightarrow> 'o \<Rightarrow> 'o broker" where
  "new_broker_options D options = (reset (default_broker D))\<lparr>m_options := options\<rparr>"

definition broker_hash :: "('o, 'db) driver \<Rightarrow> 'o \<Rightarrow> string" where
  "broker_hash D obj = md5 D obj"

section \<open>Initialisation\<close>

text \<open>The assignments of \<open>init\<close> up to the first check.\<close>

definition load_options :: "('o, 'db) driver \<Rightarrow> 'o option \<Rightarrow> 'o broker \<Rightarrow> 'o broker" where
  "load_options D options b =
     (let opts = (case options of Some x \<Rightarrow> x | None \<Rightarrow> m_options b);
          parameters = getObjectField D opts ''parameters''
      in b\<lparr>m_options := opts,
           m_host := getStringField D opts ''host'',
           m_port := getIntField D opts ''port'',
           m_database := getStringField D opts ''database'',
           m_collection := getStringField D opts ''collection'',
           m_limit := getIntField D parameters ''limit'',
           m_skip := getIntField D parameters ''skip'',
           m_queue_size := getIntField D parameters ''queue_size'',
           m_read_timeout := getIntField D parameters ''read_timeout'',
           m_conditions := getObjectField D opts ''conditions'',
           m_fields := getObjectField D opts ''fields'',
           m_has_fields := \<not> isEmpty D (getObjectField D opts ''fields'')\<rparr>)"

text \<open>The defaults for missing parameters; an overflow of \<open>m_limit * 5\<close> is undefined.\<close>

definition overflows_times5 :: "c_int \<Rightarrow> bool" where
  "overflows_times5 i \<longleftrightarrow> \<not> (- (2 ^ 31) \<le> sint i * 5 \<and> sint i * 5 < 2 ^ 31)"

definition default_parameters :: "'o broker \<Rightarrow> ('o broker, unit) outcome" where
  "default_parameters b =
     (let b1 = (if m_limit b = INT_MIN then b\<lparr>m_limit := 1000\<rparr> else b);
          b2 = (if m_skip b1 = INT_MIN then b1\<lparr>m_skip := 0\<rparr> else b1)
      in if m_queue_size b2 = INT_MIN \<and> overflows_times5 (m_limit b2) then (Inl Undefined, b2)
         else
           let b3 = (if m_queue_size b2 = INT_MIN then b2\<lparr>m_queue_size := m_limit b2 * 5\<rparr> else b2);
               b4 = (if m_read_timeout b3 = INT_MIN then b3\<lparr>m_read_timeout := 1\<rparr>
                     else if sint (m_read_timeout b3) < 0 then b3\<lparr>m_read_timeout := 1\<rparr>
                     else b3)
           in (Inr (), b4))"

definition init :: "('o, 'db) driver \<Rightarrow> 'o option \<Rightarrow> 'o broker \<Rightarrow> ('o broker, unit) outcome" where
  "init D options b0 =
     (if m_inited b0 then (Inr (), b0)
      else if isEmpty D (m_options b0) \<and> options = None then (Inl Assertion_failed, b0)
      else
        let b = load_options D options b0
        in if m_host b = [] then (Inl (Broker_exception ''host must not be empty''), b)
           else if m_port b = INT_MIN then (Inl (Broker_exception ''port must be set''), b)
           else if m_database b = [] then (Inl (Broker_exception ''database must not be empty''), b)
           else if m_collection b = [] then (Inl (Broker_exception ''collection must not be empty''), b)
           else andthen (default_parameters b) (\<lambda>_ b.
             (Inr (), b\<lparr>m_docset := m_database b @ ''.'' @ m_collection b,
                        m_queue := set_size (int_to_size (m_queue_size b)) (clear (m_queue b)),
                        m_inited := True\<rparr>)))"

text \<open>The connection string is printed into an array of \<open>m_host.size() + 10\<close> characters.\<close>

definition open_broker ::
  "('o, 'db) driver \<Rightarrow> 'db \<Rightarrow> 'o option \<Rightarrow> 'o broker \<Rightarrow> ('o broker, unit) outcome" where
  "open_broker D db options b0 =
     andthen (init D options b0) (\<lambda>_ b.
       case sprintf_into (length (m_host b) + 10)
              (c_str (m_host b) @ '':'' @ show_int (sint (m_port b))) of
         Inl e \<Rightarrow> (Inl e, b)
       | Inr s \<Rightarrow>
           (let b1 = b\<lparr>m_connection_string := s\<rparr>
            in case conn_connect D db s of
                 Some errmsg \<Rightarrow> (Inl (Broker_exception errmsg), b1)
               | None \<Rightarrow> (Inr (), b1\<lparr>m_connected := True\<rparr>)))"

definition close_broker :: "'o broker \<Rightarrow> 'o broker" where
  "close_broker b = reset b"

definition check_status :: "'o broker \<Rightarrow> ('o broker, unit) outcome" where
  "check_status b =
     (if \<not> m_inited b then (Inl (Broker_exception ''broker not inited''), b)
      else if \<not> m_connected b then (Inl (Broker_exception ''broker not connected''), b)
      else (Inr (), b))"

section \<open>Queue operations\<close>

definition on_queue ::
  "(string sized_queue \<Rightarrow> (string sized_queue, 'a) outcome) \<Rightarrow> 'o broker \<Rightarrow> ('o broker, 'a) outcome" where
  "on_queue f b = (let (r, q) = f (m_queue b) in (r, b\<lparr>m_queue := q\<rparr>))"

text \<open>\<open>push\<close> returns the size as an \<open>int\<close> that is converted to \<open>size_t\<close>, and what is left.\<close>

definition broker_push ::
  "string list \<Rightarrow> 'o broker \<Rightarrow> ('o broker, size_t \<times> string list) outcome" where
  "broker_push docs b =
     andthen (check_status b) (\<lambda>_ b.
     andthen (on_queue (push_all docs 0) b) (\<lambda>(n, rest) b.
       (Inr (int_to_size n, rest), b)))"

definition broker_pop :: "size_t \<Rightarrow> 'o broker \<Rightarrow> ('o broker, string) outcome" where
  "broker_pop seconds b = andthen (check_status b) (\<lambda>_. on_queue (pop seconds))"

definition broker_size :: "'o broker \<Rightarrow> ('o broker, size_t) outcome" where
  "broker_size b =
     andthen (check_status b) (\<lambda>_. on_queue (\<lambda>q. let (n, q') = queue_size q in (Inr n, q')))"

definition rewind :: "'o broker \<Rightarrow> 'o broker" where
  "rewind b = b\<lparr>m_last_doc_id := [], m_reach_end := False\<rparr>"

definition set_exit :: "'o broker \<Rightarrow> 'o broker" where
  "set_exit b = b\<lparr>m_do_exit := True\<rparr>"

section \<open>Querying a page\<close>

definition prepare_condition :: "('o, 'db) driver \<Rightarrow> 'o broker \<Rightarrow> 'o" where
  "prepare_condition D b =
     (if m_last_doc_id b \<noteq> []
      then append_object D ''_id'' (append_OID D ''$gt'' (m_last_doc_id b) (emptyObj D))
             (appendElements D (m_conditions b) (emptyObj D))
      else m_conditions b)"

text \<open>
  \<open>query\<close> has two halves that a concurrent \<open>rewind\<close> can separate: it computes the condition
  and asks the database; then it fills the cache, remembers the last id and announces the end
  of the query.
\<close>

definition query_begin ::
  "('o, 'db) driver \<Rightarrow> 'db \<Rightarrow> int \<Rightarrow> 'o broker \<Rightarrow> ('o broker, 'o list) outcome" where
  "query_begin D db dir b0 =
     (let b = b0\<lparr>m_querying := True\<rparr>
      in (conn_query D db (m_docset b) (prepare_condition D b) dir (m_limit b) (m_skip b)
            (if m_has_fields b then Some (m_fields b) else None), b))"

definition query_end :: "('o, 'db) driver \<Rightarrow> 'o list \<Rightarrow> 'o broker \<Rightarrow> ('o broker, string list) outcome" where
  "query_end D docs b0 =
     (let cache = map (jsonString D) docs;
          b = b0\<lparr>m_json_doc_cache := cache\<rparr>
      in andthen
           (if docs \<noteq> []
            then case getObjectID D (last docs) of
                   None \<Rightarrow> (Inl Assertion_failed, b)
                 | Some oid \<Rightarrow> (Inr (), b\<lparr>m_last_doc_id := oid\<rparr>)
            else (Inr (), b))
           (\<lambda>_ b. (Inr cache, b\<lparr>m_query_count := m_query_count b + 1, m_querying := False\<rparr>)))"

definition query ::
  "('o, 'db) driver \<Rightarrow> 'db \<Rightarrow> int \<Rightarrow> 'o broker \<Rightarrow> ('o broker, string list) outcome" where
  "query D db dir b = andthen (query_begin D db dir b) (query_end D)"

section \<open>Popping a batch\<close>

text \<open>
  After a timed out \<open>pop\<close>, if a query is running, \<open>batch_pop\<close> waits until the querying
  thread announces its end; what that thread and others did meanwhile is the next entry of
  the schedule, and without one nobody wakes the caller.
\<close>

definition wait_query_done :: "'o broker \<Rightarrow> ('o broker, unit) outcome" where
  "wait_query_done b =
     (if m_querying b
      then case m_sched (m_queue b) of
             [] \<Rightarrow> (Inl Blocked, b)
           | _ # _ \<Rightarrow> (Inr (), b\<lparr>m_queue := lock (m_queue b), m_querying := False\<rparr>)
      else (Inr (), b))"

text \<open>
  One round of the retry loop: the \<open>try\<close> block, or the handler of \<open>broker_timeout\<close> (which is
  the same class as every other \<open>broker_exception\<close>) up to the warning it logs; the warning
  asks the queue for its size, which takes the queue's lock. \<open>True\<close> stands for \<open>break\<close>.
\<close>

definition batch_round ::
  "c_int \<Rightarrow> size_t \<Rightarrow> string list \<times> 'o broker \<Rightarrow> (string list \<times> 'o broker, bool) outcome" where
  "batch_round timeout batch_size s =
     (case pop_n (unat batch_size) (broker_pop (int_to_size timeout)) s of
        (Inr _, s1) \<Rightarrow> (Inr True, s1)
      | (Inl (Broker_exception _), (docs, b)) \<Rightarrow>
          (case wait_query_done b of
             (Inl e, b1) \<Rightarrow> (Inl e, (docs, b1))
           | (Inr _, b1) \<Rightarrow> (Inr False, (docs, b1\<lparr>m_queue := snd (queue_size (m_queue b1))\<rparr>)))
      | (Inl e, s1) \<Rightarrow> (Inl e, s1))"

text \<open>
  \<open>limit\<close> is \<open>m_read_retry\<close>, which nothing changes while the loop runs. The product
  \<open>m_read_timeout*retry\<close> of two \<open>int\<close> is taken to wrap around.
\<close>

function batch_pop_loop ::
  "int \<Rightarrow> int \<Rightarrow> c_int \<Rightarrow> size_t \<Rightarrow> string list \<times> 'o broker \<Rightarrow> (string list \<times> 'o broker, size_t) outcome" where
  "batch_pop_loop limit retry timeout batch_size s =
     (case batch_round timeout batch_size s of
        (Inl e, s1) \<Rightarrow> (Inl e, s1)
      | (Inr True, s1) \<Rightarrow> (Inr (size_of_nat (length (fst s1))), s1)
      | (Inr False, s1) \<Rightarrow>
          (let retry1 = retry + 1;
               timeout1 = m_read_timeout (snd s1) * word_of_int retry1
           in if limit \<ge> retry1
              then batch_pop_loop limit retry1 timeout1 batch_size s1
              else (Inr ULONG_MAX, s1)))"
  by pat_completeness auto
termination
  by (relation "measure (\<lambda>(limit, retry, _). nat (limit + 1 - retry))") auto

declare batch_pop_loop.simps [simp del]

definition batch_pop ::
  "size_t \<Rightarrow> string list \<times> 'o broker \<Rightarrow> (string list \<times> 'o broker, size_t) outcome" where
  "batch_pop batch_size s =
     (if batch_size = 0 then (Inl Assertion_failed, s)
      else batch_pop_loop (sint (m_read_retry (snd s))) 0 (m_read_timeout (snd s)) batch_size s)"

section \<open>Applying updates\<close>

text \<open>
  The body of the loop in \<open>update\<close> on the broker and the database. A request that does not
  parse or that the database rejects throws an exception the handler does not catch. \<open>True\<close>
  stands for \<open>break\<close>: after a timed out \<open>pop\<close> the loop ends if the exit flag is set.
\<close>

definition apply_update ::
  "('o, 'db) driver \<Rightarrow> string \<Rightarrow> 'o broker \<times> 'db \<Rightarrow> ('o broker \<times> 'db, unit) outcome" where
  "apply_update D json s =
     (let (b, db) = s
      in case fromjson D json of
           Inl e \<Rightarrow> (Inl e, s)
         | Inr obj \<Rightarrow>
             (case conn_update D db (m_docset b) (getObjectField D obj ''query'')
                     (getObjectField D obj ''doc'') (getBoolField D obj ''upsert'')
                     (getBoolField D obj ''multi'') of
                Inl e \<Rightarrow> (Inl e, s)
              | Inr db' \<Rightarrow> (Inr (), (b\<lparr>m_update_count := m_update_count b + 1\<rparr>, db'))))"

definition update_round ::
  "('o, 'db) driver \<Rightarrow> 'o broker \<times> 'db \<Rightarrow> ('o broker \<times> 'db, bool) outcome" where
  "update_round D s =
     (let (b, db) = s
      in case on_queue (pop 3) b of
           (Inr json, b1) \<Rightarrow> andthen (apply_update D json (b1, db)) (\<lambda>_ s1. (Inr False, s1))
         | (Inl (Broker_exception m), b1) \<Rightarrow> (Inr (m_do_exit b1), (b1, db))
         | (Inl e, b1) \<Rightarrow> (Inl e, (b1, db)))"

text \<open>
  \<open>update\<close> runs until the exit flag is set, so it is given a number of rounds; \<open>None\<close> means
  that it is still running after them.
\<close>

fun update :: "nat \<Rightarrow> ('o, 'db) driver \<Rightarrow> 'o broker \<times> 'db \<Rightarrow> ('o broker \<times> 'db, unit) outcome option" where
  "update 0 D s = None"
| "update (Suc n) D s =
     (case update_round D s of
        (Inl e, s1) \<Rightarrow> Some (Inl e, s1)
      | (Inr True, s1) \<Rightarrow> Some (Inr (), s1)
      | (Inr False, s1) \<Rightarrow> update n D s1)"

section \<open>What the queue operations leave alone\<close>

text \<open>
  Calls on the queue change the queue, and \<open>batch_pop\<close> also the flag of a running query;
  everything else of a broker is its settings.
\<close>

definition settings :: "'o broker \<Rightarrow> 'o broker" where
  "settings b = b\<lparr>m_queue := new_sized_queue 0, m_querying := False\<rparr>"

lemma settings_simps [simp]:
  "settings (b\<lparr>m_queue := q\<rparr>) = settings b" "settings (b\<lparr>m_querying := f\<rparr>) = settings b"
  by (simp_all add: settings_def)

lemma settings_fields:
  assumes "settings b' = settings b"
  shows "m_inited b' = m_inited b" "m_connected b' = m_connected b"
    "m_read_timeout b' = m_read_timeout b" "m_read_retry b' = m_read_retry b"
    "m_last_doc_id b' = m_last_doc_id b" "m_limit b' = m_limit b" "m_docset b' = m_docset b"
  using assms by (cases b; cases b'; simp add: settings_def)+

lemma on_queue_simps [simp]:
  "fst (on_queue f b) = fst (f (m_queue b))"
  "snd (on_queue f b) = b\<lparr>m_queue := snd (f (m_queue b))\<rparr>"
  by (simp_all add: on_queue_def split: prod.splits)

lemma on_queue_eq: "on_queue f b = (r, b') \<longleftrightarrow> (\<exists>q. f (m_queue b) = (r, q) \<and> b' = b\<lparr>m_queue := q\<rparr>)"
  by (auto simp: on_queue_def split: prod.splits)

lemma check_status_ok [simp]: "m_inited b \<Longrightarrow> m_connected b \<Longrightarrow> check_status b = (Inr (), b)"
  by (simp add: check_status_def)

lemma broker_pop_settings: "broker_pop s b = (r, b') \<Longrightarrow> settings b' = settings b"
  by (auto simp: broker_pop_def check_status_def on_queue_eq split: if_splits)

lemma broker_push_settings: "broker_push docs b = (r, b') \<Longrightarrow> settings b' = settings b"
  by (auto simp: broker_push_def andthen_def check_status_def on_queue_def
      split: if_splits prod.splits sum.splits)

lemma broker_size_settings: "broker_size b = (r, b') \<Longrightarrow> settings b' = settings b"
  by (auto simp: broker_size_def check_status_def on_queue_eq split: if_splits)

lemma wait_query_done_settings: "wait_query_done b = (r, b') \<Longrightarrow> settings b' = settings b"
  by (auto simp: wait_query_done_def split: if_splits list.splits)

lemma pop_n_broker_settings:
  "pop_n n (broker_pop s) (docs, b) = (r, (docs', b')) \<Longrightarrow> settings b' = settings b"
  using pop_n_keeps [of "broker_pop s" "\<lambda>x. settings x = settings b"] broker_pop_settings
  by (metis (no_types, lifting))

lemma batch_round_settings:
  "batch_round t n (docs, b) = (r, (docs', b')) \<Longrightarrow> settings b' = settings b"
  by (auto simp: batch_round_def split: prod.splits sum.splits fault.splits
      dest!: pop_n_broker_settings wait_query_done_settings)

text \<open>What every round keeps, the loop keeps.\<close>

lemma batch_pop_loop_keeps:
  assumes step: "\<And>n t s r s'. batch_round t n s = (r, s') \<Longrightarrow> P s \<Longrightarrow> P s'"
  shows "batch_pop_loop limit retry t n s = (r, s') \<Longrightarrow> P s \<Longrightarrow> P s'"
proof (induction limit retry t n s rule: batch_pop_loop.induct)
  case (1 limit retry t n s)
  obtain x s1 where r: "batch_round t n s = (x, s1)" by (metis prod.exhaust)
  show ?case
  proof (cases "x = Inr False \<and> retry + 1 \<le> limit")
    case True
    with 1(2) r have "batch_pop_loop limit (retry + 1)
        (m_read_timeout (snd s1) * word_of_int (retry + 1)) n s1 = (r, s')"
      by (subst (asm) batch_pop_loop.simps) (simp add: Let_def)
    with 1(1) [of x s1 False] step [OF r 1(3)] True r show ?thesis by (cases s1) auto
  next
    case False
    with 1(2,3) r step show ?thesis
      by (subst (asm) batch_pop_loop.simps) (auto simp: Let_def split: sum.splits bool.splits if_splits)
  qed
qed

lemma batch_pop_keeps:
  assumes "\<And>n t s r s'. batch_round t n s = (r, s') \<Longrightarrow> P s \<Longrightarrow> P s'"
    and "batch_pop n s = (r, s')" "P s"
  shows "P s'"
proof (cases "n = 0")
  case True
  with assms show ?thesis by (simp add: batch_pop_def)
next
  case False
  with assms(2) have "batch_pop_loop (sint (m_read_retry (snd s))) 0 (m_read_timeout (snd s)) n s = (r, s')"
    by (simp add: batch_pop_def)
  then show ?thesis using batch_pop_loop_keeps [of P] assms(1,3) by blast
qed

lemma batch_pop_settings:
  "batch_pop n (docs, b) = (r, (docs', b')) \<Longrightarrow> settings b' = settings b"
  using batch_pop_keeps [where P = "\<lambda>x. settings (snd x) = settings b"]
    batch_round_settings
  by (metis (no_types, lifting) prod.collapse snd_conv)

end
