(* ===== verification/Broker_Facts.thy ===== *)
theory Broker_Facts
  imports Broker
begin

text \<open>
  Correctness of the broker's calls: the invariant every call keeps, the outcomes of
  \<open>init\<close> and \<open>open\<close>, and what becomes of unusual options.
\<close>

section \<open>The queue's limit is constant\<close>

lemma broker_pop_limit:
  assumes "broker_pop s b = (r, b')"
  shows "m_limit_size (m_queue b') = m_limit_size (m_queue b)"
proof (cases "m_inited b \<and> m_connected b")
  case True
  with assms obtain q where "pop s (m_queue b) = (r, q)" "b' = b\<lparr>m_queue := q\<rparr>"
    by (auto simp: broker_pop_def on_queue_eq)
  then show ?thesis by (simp add: pop_fields)
next
  case False
  with assms show ?thesis by (auto simp: broker_pop_def check_status_def split: if_splits)
qed

lemma pop_n_broker_limit:
  "pop_n n (broker_pop s) (docs, b) = (r, (docs', b')) \<Longrightarrow>
    m_limit_size (m_queue b') = m_limit_size (m_queue b)"
  using pop_n_keeps [of "broker_pop s" "\<lambda>x. m_limit_size (m_queue x) = m_limit_size (m_queue b)"]
    broker_pop_limit
  by (metis (no_types, lifting))

lemma wait_query_done_limit:
  "wait_query_done b = (r, b') \<Longrightarrow> m_limit_size (m_queue b') = m_limit_size (m_queue b)"
  by (auto simp: wait_query_done_def split: if_splits list.splits)

lemma batch_round_limit:
  "batch_round t n (docs, b) = (r, (docs', b')) \<Longrightarrow> m_limit_size (m_queue b') = m_limit_size (m_queue b)"
  by (auto simp: batch_round_def split: prod.splits sum.splits fault.splits
      dest!: pop_n_broker_limit wait_query_done_limit)

lemma batch_pop_limit:
  "batch_pop n (docs, b) = (r, (docs', b')) \<Longrightarrow> m_limit_size (m_queue b') = m_limit_size (m_queue b)"
  using batch_pop_keeps [where P = "\<lambda>x. m_limit_size (m_queue (snd x)) = m_limit_size (m_queue b)"]
    batch_round_limit
  by (metis (no_types, lifting) prod.collapse snd_conv)

section \<open>The invariant\<close>

definition settings_ok :: "'o broker \<Rightarrow> bool" where
  "settings_ok b \<longleftrightarrow>
     m_host b \<noteq> [] \<and> m_port b \<noteq> INT_MIN \<and> m_database b \<noteq> [] \<and> m_collection b \<noteq> [] \<and>
     m_limit b \<noteq> INT_MIN \<and> m_skip b \<noteq> INT_MIN \<and> 0 \<le> sint (m_read_timeout b) \<and>
     m_docset b = m_database b @ ''.'' @ m_collection b \<and>
     m_limit_size (m_queue b) = int_to_size (m_queue_size b)"

definition broker_inv :: "'o broker \<Rightarrow> bool" where
  "broker_inv b \<longleftrightarrow> (m_connected b \<longrightarrow> m_inited b) \<and> (m_inited b \<longrightarrow> settings_ok b)"

lemma broker_inv_settings:
  assumes "broker_inv b" "settings b' = settings b"
    "m_limit_size (m_queue b') = m_limit_size (m_queue b)"
  shows "broker_inv b'"
  using assms by (cases b; cases b') (simp add: broker_inv_def settings_ok_def settings_def)

lemma broker_inv_reset [inv_intro]: "broker_inv (reset b)"
  by (simp add: broker_inv_def reset_def)

lemma default_parameters_eq:
  "default_parameters b =
    (let l = (if m_limit b = INT_MIN then 1000 else m_limit b);
         s = (if m_skip b = INT_MIN then 0 else m_skip b)
     in if m_queue_size b = INT_MIN \<and> overflows_times5 l
        then (Inl Undefined, b\<lparr>m_limit := l, m_skip := s\<rparr>)
        else (Inr (), b\<lparr>m_limit := l, m_skip := s,
                m_queue_size := if m_queue_size b = INT_MIN then l * 5 else m_queue_size b,
                m_read_timeout :=
                  if m_read_timeout b = INT_MIN \<or> sint (m_read_timeout b) < 0 then 1
                  else m_read_timeout b\<rparr>))"
  by (simp add: default_parameters_def Let_def)

lemma load_options_status [simp]:
  "m_inited (load_options D x b) = m_inited b" "m_connected (load_options D x b) = m_connected b"
  "m_queue (load_options D x b) = m_queue b"
  by (simp_all add: load_options_def Let_def)

lemma default_parameters_status:
  "default_parameters b = (r, b') \<Longrightarrow>
    m_inited b' = m_inited b \<and> m_connected b' = m_connected b \<and> m_queue b' = m_queue b \<and>
    m_host b' = m_host b \<and> m_port b' = m_port b \<and> m_database b' = m_database b \<and>
    m_collection b' = m_collection b"
  by (auto simp: default_parameters_eq Let_def split: if_splits)

lemma default_parameters_values:
  assumes "default_parameters b = (Inr (), b')"
  shows "m_limit b' \<noteq> INT_MIN \<and> m_skip b' \<noteq> INT_MIN \<and> 0 \<le> sint (m_read_timeout b')"
proof -
  have "b' = snd (default_parameters b)" and ok: "isl (fst (default_parameters b)) = False"
    using assms by simp_all
  then show ?thesis
    by (simp add: default_parameters_eq Let_def split: if_splits)
qed

text \<open>How \<open>init\<close> ends on a broker that is not initialised yet.\<close>

definition missing_option :: "'o broker \<Rightarrow> string option" where
  "missing_option b =
     (if m_host b = [] then Some ''host must not be empty''
      else if m_port b = INT_MIN then Some ''port must be set''
      else if m_database b = [] then Some ''database must not be empty''
      else if m_collection b = [] then Some ''collection must not be empty''
      else None)"

lemma init_missing:
  "\<not> m_inited b \<Longrightarrow> \<not> (isEmpty D (m_options b) \<and> x = None) \<Longrightarrow>
    missing_option (load_options D x b) = Some m \<Longrightarrow>
    init D x b = (Inl (Broker_exception m), load_options D x b)"
  by (auto simp: init_def missing_option_def Let_def split: if_splits)

lemma init_given:
  "\<not> m_inited b \<Longrightarrow> \<not> (isEmpty D (m_options b) \<and> x = None) \<Longrightarrow>
    missing_option (load_options D x b) = None \<Longrightarrow>
    init D x b = andthen (default_parameters (load_options D x b)) (\<lambda>_ b.
      (Inr (), b\<lparr>m_docset := m_database b @ ''.'' @ m_collection b,
                 m_queue := set_size (int_to_size (m_queue_size b)) (clear (m_queue b)),
                 m_inited := True\<rparr>))"
  by (auto simp: init_def missing_option_def Let_def split: if_splits)

lemma init_cases:
  obtains (inited) "m_inited b" "init D x b = (Inr (), b)"
  | (nothing) "\<not> m_inited b" "init D x b = (Inl Assertion_failed, b)"
  | (missing) m where "\<not> m_inited b" "init D x b = (Inl (Broker_exception m), load_options D x b)"
  | (overflow) b' where "\<not> m_inited b" "default_parameters (load_options D x b) = (Inl Undefined, b')"
      "init D x b = (Inl Undefined, b')"
  | (ok) b' where "\<not> m_inited b" "missing_option (load_options D x b) = None"
      "default_parameters (load_options D x b) = (Inr (), b')"
      "init D x b = (Inr (), b'\<lparr>m_docset := m_database b' @ ''.'' @ m_collection b',
        m_queue := set_size (int_to_size (m_queue_size b')) (clear (m_queue b')), m_inited := True\<rparr>)"
proof (cases "m_inited b")
  case True
  then show thesis by (intro inited) (simp_all add: init_def)
next
  case F: False
  show thesis
  proof (cases "isEmpty D (m_options b) \<and> x = None")
    case True
    with F have "init D x b = (Inl Assertion_failed, b)" by (simp add: init_def)
    with F show thesis by (rule nothing)
  next
    case False
    show thesis
    proof (cases "missing_option (load_options D x b)")
      case (Some m)
      then show thesis using missing init_missing [OF F False] F by blast
    next
      case None
      obtain r b' where d: "default_parameters (load_options D x b) = (r, b')" by (metis prod.exhaust)
      then have "r = Inl Undefined \<or> r = Inr ()"
        by (auto simp: default_parameters_eq Let_def split: if_splits)
      with None d F overflow [of b'] ok [of b'] init_given [OF F False None]
      show thesis by auto
    qed
  qed
qed

lemma broker_inv_init [inv_intro]:
  assumes "broker_inv b" "init D x b = (r, b')" shows "broker_inv b'"
proof (cases D x b rule: init_cases)
  case (ok b1)
  have "settings_ok b'"
    using ok assms(2) default_parameters_values [OF ok(3)] default_parameters_status [OF ok(3)]
    by (auto simp: settings_ok_def missing_option_def set_size_def split: if_splits)
  with ok assms(2) show ?thesis by (auto simp: broker_inv_def)
next
  case (overflow b1)
  with assms default_parameters_status [OF overflow(2)] show ?thesis by (auto simp: broker_inv_def)
qed (use assms in \<open>auto simp: broker_inv_def\<close>)

lemma init_ok_inited: "init D x b = (Inr (), b') \<Longrightarrow> m_inited b'"
  by (cases D x b rule: init_cases) auto

lemma broker_inv_open [inv_intro]:
  assumes "broker_inv b" "open_broker D db x b = (r, b')" shows "broker_inv b'"
proof -
  obtain r1 b1 where i: "init D x b = (r1, b1)" by (metis prod.exhaust)
  have b1: "broker_inv b1" using broker_inv_init [OF assms(1) i] .
  show ?thesis
  proof (cases r1)
    case (Inl e)
    with i assms(2) b1 show ?thesis by (simp add: open_broker_def)
  next
    case (Inr u)
    then have "m_inited b1" using i init_ok_inited by simp
    with Inr i assms(2) b1 show ?thesis
      by (auto simp: open_broker_def Let_def broker_inv_def settings_ok_def
          split: sum.splits option.splits)
  qed
qed

section \<open>Every call keeps the invariant\<close>

text \<open>
  The public calls of a broker, each with the state of the database it meets and with what
  other threads do to the queue meanwhile.
\<close>

datatype 'o broker_op =
    Open_op "'o option" | Close_op | Push_op "string list" | Pop_op size_t | Size_op
  | Batch_op size_t | Rewind_op | Exit_op | Query_op int | Update_op

fun broker_call :: "('o, 'db) driver \<Rightarrow> 'db \<Rightarrow> 'o broker_op \<Rightarrow> 'o broker \<Rightarrow> 'o broker" where
  "broker_call D db (Open_op x) b = snd (open_broker D db x b)"
| "broker_call D db Close_op b = close_broker b"
| "broker_call D db (Push_op docs) b = snd (broker_push docs b)"
| "broker_call D db (Pop_op s) b = snd (broker_pop s b)"
| "broker_call D db Size_op b = snd (broker_size b)"
| "broker_call D db (Batch_op n) b = snd (snd (batch_pop n ([], b)))"
| "broker_call D db Rewind_op b = rewind b"
| "broker_call D db Exit_op b = set_exit b"
| "broker_call D db (Query_op dir) b = snd (query D db dir b)"
| "broker_call D db Update_op b = fst (snd (update_round D (b, db)))"

definition interleave :: "string interference list \<Rightarrow> 'o broker \<Rightarrow> 'o broker" where
  "interleave sched b = b\<lparr>m_queue := (m_queue b)\<lparr>m_sched := sched\<rparr>\<rparr>"

fun broker_calls ::
  "('o, 'db) driver \<Rightarrow> ('db \<times> string interference list \<times> 'o broker_op) list \<Rightarrow> 'o broker \<Rightarrow> 'o broker" where
  "broker_calls D [] b = b"
| "broker_calls D ((db, sched, c) # cs) b = broker_calls D cs (broker_call D db c (interleave sched b))"

lemma broker_inv_interleave [inv_intro]: "broker_inv b \<Longrightarrow> broker_inv (interleave sched b)"
  by (rule broker_inv_settings) (simp_all add: interleave_def)

lemma broker_push_limit:
  "broker_push docs b = (r, b') \<Longrightarrow> m_limit_size (m_queue b') = m_limit_size (m_queue b)"
  by (auto simp: broker_push_def andthen_def check_status_def on_queue_def
      dest: push_all_fields split: if_splits prod.splits sum.splits)

lemma broker_size_limit:
  "broker_size b = (r, b') \<Longrightarrow> m_limit_size (m_queue b') = m_limit_size (m_queue b)"
  by (auto simp: broker_size_def check_status_def on_queue_eq queue_size_def Let_def split: if_splits)

lemma broker_inv_rewind [inv_intro]: "broker_inv b \<Longrightarrow> broker_inv (rewind b)"
  by (simp add: broker_inv_def settings_ok_def rewind_def)

lemma broker_inv_set_exit [inv_intro]: "broker_inv b \<Longrightarrow> broker_inv (set_exit b)"
  by (simp add: broker_inv_def settings_ok_def set_exit_def)

lemma broker_inv_query_begin [inv_intro]:
  "broker_inv b \<Longrightarrow> query_begin D db dir b = (r, b') \<Longrightarrow> broker_inv b'"
  by (auto simp: query_begin_def Let_def broker_inv_def settings_ok_def)

lemma broker_inv_query_end [inv_intro]:
  "broker_inv b \<Longrightarrow> query_end D docs b = (r, b') \<Longrightarrow> broker_inv b'"
  by (auto simp: query_end_def Let_def broker_inv_def settings_ok_def andthen_def
      split: if_splits option.splits)

lemma broker_inv_query [inv_intro]:
  "broker_inv b \<Longrightarrow> query D db dir b = (r, b') \<Longrightarrow> broker_inv b'"
  by (auto simp: query_def andthen_def split: prod.splits sum.splits
      intro: inv_intro)

lemma broker_inv_update_round [inv_intro]:
  assumes "broker_inv b" "update_round D (b, db) = (r, (b', db'))" shows "broker_inv b'"
proof -
  obtain r1 q where p: "pop 3 (m_queue b) = (r1, q)" by (metis prod.exhaust)
  have b1: "broker_inv (b\<lparr>m_queue := q\<rparr>)"
    using pop_fields [OF p] by (intro broker_inv_settings [OF assms(1)]) simp_all
  then have "broker_inv ((b\<lparr>m_queue := q\<rparr>)\<lparr>m_update_count := n\<rparr>)" for n
    by (simp add: broker_inv_def settings_ok_def)
  with b1 assms(2) p show ?thesis
    by (auto simp: update_round_def on_queue_def apply_update_def Let_def
        split: sum.splits fault.splits)
qed

lemma broker_inv_pop [inv_intro]: "broker_inv b \<Longrightarrow> broker_inv (snd (broker_pop s b))"
  using broker_inv_settings [OF _ broker_pop_settings broker_pop_limit, of b s]
  by (cases "broker_pop s b") simp

lemma broker_inv_push [inv_intro]: "broker_inv b \<Longrightarrow> broker_inv (snd (broker_push docs b))"
  using broker_inv_settings [OF _ broker_push_settings broker_push_limit, of b docs]
  by (cases "broker_push docs b") simp

lemma broker_inv_size [inv_intro]: "broker_inv b \<Longrightarrow> broker_inv (snd (broker_size b))"
  using broker_inv_settings [OF _ broker_size_settings broker_size_limit, of b]
  by (cases "broker_size b") simp

lemma broker_inv_batch [inv_intro]: "broker_inv b \<Longrightarrow> broker_inv (snd (snd (batch_pop n (docs, b))))"
  using broker_inv_settings [OF _ batch_pop_settings batch_pop_limit, of b n docs]
  by (cases "batch_pop n (docs, b)") (auto simp: prod.split)

lemma broker_call_inv [inv_intro]: "broker_inv b \<Longrightarrow> broker_inv (broker_call D db c b)"
proof (cases c)
  case (Open_op x)
  then show "broker_inv b \<Longrightarrow> ?thesis"
    using broker_inv_open [of b D db x] by (cases "open_broker D db x b") simp
next
  case (Query_op dir)
  then show "broker_inv b \<Longrightarrow> ?thesis"
    using broker_inv_query [of b D db dir] by (cases "query D db dir b") simp
next
  case Update_op
  then show "broker_inv b \<Longrightarrow> ?thesis"
    using broker_inv_update_round [of b D db] by (cases "update_round D (b, db)") auto
qed (auto simp: close_broker_def intro: inv_intro)

lemma broker_calls_inv_from: "broker_inv b \<Longrightarrow> broker_inv (broker_calls D cs b)"
  by (induction D cs b rule: broker_calls.induct) (auto intro: inv_intro)

text \<open>
  C29: Whatever calls a broker gets, in any order, with any outcomes and any interference, it
  is connected only when it is initialised, and an initialised broker has a host, a port, a
  database, a collection, a limit, a skip and a timeout that are set, the document set they
  name, and a queue with the configured limit.
\<close>

theorem broker_always_consistent:
  "broker_inv (broker_calls D cs (new_broker D))"
  by (rule broker_calls_inv_from) (simp add: new_broker_def broker_inv_reset)

section \<open>Initialisation and opening\<close>

definition requested_limit :: "('o, 'db) driver \<Rightarrow> 'o \<Rightarrow> c_int" where
  "requested_limit D x =
     (let l = getIntField D (getObjectField D x ''parameters'') ''limit''
      in if l = INT_MIN then 1000 else l)"

definition requested_queue_size :: "('o, 'db) driver \<Rightarrow> 'o \<Rightarrow> c_int" where
  "requested_queue_size D x = getIntField D (getObjectField D x ''parameters'') ''queue_size''"

lemma init_ok_values:
  assumes "\<not> m_inited b" "init D (Some x) b = (Inr (), b')"
  shows "m_limit b' = requested_limit D x"
    "m_queue b' = set_size (int_to_size (if requested_queue_size D x = INT_MIN
       then requested_limit D x * 5 else requested_queue_size D x)) (clear (m_queue b))"
proof -
  have "m_limit b' = requested_limit D x \<and>
    m_queue b' = set_size (int_to_size (if requested_queue_size D x = INT_MIN
       then requested_limit D x * 5 else requested_queue_size D x)) (clear (m_queue b))"
  proof (cases D "Some x" b rule: init_cases)
    case (ok b1)
    have "b1 = snd (default_parameters (load_options D (Some x) b))"
      and r: "fst (default_parameters (load_options D (Some x) b)) = Inr ()"
      using ok(3) by simp_all
    then have "m_limit b1 = requested_limit D x" "m_queue b1 = m_queue b"
      "m_queue_size b1 = (if requested_queue_size D x = INT_MIN then requested_limit D x * 5
        else requested_queue_size D x)"
      by (simp_all add: default_parameters_eq load_options_def Let_def requested_limit_def
          requested_queue_size_def split: if_splits)
    with ok assms(2) show ?thesis by auto
  qed (use assms in auto)
  then show "m_limit b' = requested_limit D x"
    "m_queue b' = set_size (int_to_size (if requested_queue_size D x = INT_MIN
       then requested_limit D x * 5 else requested_queue_size D x)) (clear (m_queue b))"
    by blast+
qed

text \<open>
  C34: \<open>init\<close> on a broker that is not initialised, with options, returns normally exactly when
  host, port, database and collection are given and the default queue size, if it is used,
  does not overflow; then the broker is initialised with an empty queue of the configured size.
\<close>

theorem init_succeeds_iff:
  assumes "\<not> m_inited b" "m_sched (m_queue b) = []"
  shows "if getStringField D x ''host'' \<noteq> [] \<and> getIntField D x ''port'' \<noteq> INT_MIN \<and>
      getStringField D x ''database'' \<noteq> [] \<and> getStringField D x ''collection'' \<noteq> [] \<and>
      \<not> (requested_queue_size D x = INT_MIN \<and> overflows_times5 (requested_limit D x))
    then \<exists>b'. init D (Some x) b = (Inr (), b') \<and> m_inited b' \<and> m_limit b' = requested_limit D x \<and>
           m_deque (m_queue b') = [] \<and>
           m_limit_size (m_queue b') =
             int_to_size (if requested_queue_size D x = INT_MIN then requested_limit D x * 5
                          else requested_queue_size D x)
    else \<exists>e. fst (init D (Some x) b) = Inl e"
proof -
  have nb: "\<not> (isEmpty D (m_options b) \<and> Some x = None)" by simp
  show ?thesis
  proof (cases "missing_option (load_options D (Some x) b)")
    case (Some m)
    then have "\<not> (getStringField D x ''host'' \<noteq> [] \<and> getIntField D x ''port'' \<noteq> INT_MIN \<and>
        getStringField D x ''database'' \<noteq> [] \<and> getStringField D x ''collection'' \<noteq> [])"
      by (auto simp: missing_option_def load_options_def Let_def split: if_splits)
    with init_missing [OF assms(1) nb Some] show ?thesis by auto
  next
    case None
    then have g: "getStringField D x ''host'' \<noteq> [] \<and> getIntField D x ''port'' \<noteq> INT_MIN \<and>
        getStringField D x ''database'' \<noteq> [] \<and> getStringField D x ''collection'' \<noteq> []"
      by (auto simp: missing_option_def load_options_def Let_def split: if_splits)
    note e = init_given [OF assms(1) nb None]
    show ?thesis
      using g assms(2) unfolding e default_parameters_eq
      by (auto simp: load_options_def Let_def requested_limit_def requested_queue_size_def set_size_def clear_def)
  qed
qed

text \<open>
  A closed broker that is opened again starts afresh: with the same options \<open>init\<close> ends
  as on a new broker, and when it succeeds the two brokers differ only in the cache of the last
  page, the last connection string and the log of the queue.
\<close>

theorem init_after_close:
  assumes "m_sched (m_queue b) = []"
  defines "c \<equiv> \<lambda>b'. b'\<lparr>m_json_doc_cache := m_json_doc_cache b,
      m_connection_string := m_connection_string b,
      m_queue := (m_queue b')\<lparr>m_signals := m_signals (m_queue b)\<rparr>\<rparr>"
  shows "fst (init D (Some x) (close_broker b)) = fst (init D (Some x) (new_broker D)) \<and>
    (fst (init D (Some x) (new_broker D)) = Inr () \<longrightarrow>
      snd (init D (Some x) (close_broker b)) = c (snd (init D (Some x) (new_broker D))))"
proof -
  have nb: "\<not> m_inited (close_broker b)" "\<not> m_inited (new_broker D)"
    "m_sched (m_queue (close_broker b)) = []" "m_sched (m_queue (new_broker D)) = []"
    using assms(1) by (simp_all add: close_broker_def new_broker_def reset_def default_broker_def
        default_sized_queue_def new_sized_queue_def)
  have ld: "load_options D (Some x) (close_broker b) =
      (load_options D (Some x) (new_broker D))\<lparr>m_json_doc_cache := m_json_doc_cache b,
        m_connection_string := m_connection_string b, m_docset := m_docset b,
        m_queue := m_queue b\<rparr>"
    by (simp add: load_options_def close_broker_def new_broker_def reset_def default_broker_def Let_def)
  have mo: "missing_option (load_options D (Some x) (close_broker b)) =
      missing_option (load_options D (Some x) (new_broker D))"
    by (simp add: ld missing_option_def)
  show ?thesis
  proof (cases "missing_option (load_options D (Some x) (new_broker D))")
    case (Some m)
    with mo init_missing [OF nb(1), of D "Some x" m] init_missing [OF nb(2), of D "Some x" m]
    show ?thesis by simp
  next
    case None
    with mo init_given [OF nb(1), of D "Some x"] init_given [OF nb(2), of D "Some x"] assms(1)
    show ?thesis
      by (simp add: default_parameters_eq ld Let_def c_def set_size_def clear_def new_broker_def
          reset_def default_broker_def default_sized_queue_def new_sized_queue_def)
  qed
qed

theorem init_succeeds_iff_witness:
  "\<exists>b'. init sample_driver (Some (sample_options [(''limit'', VInt 7)])) (new_broker sample_driver) = (Inr (), b') \<and>
     m_inited b' \<and> m_limit b' = 7 \<and> m_deque (m_queue b') = [] \<and> m_limit_size (m_queue b') = int_to_size 35"
proof -
  have "\<not> m_inited (new_broker sample_driver)" "m_sched (m_queue (new_broker sample_driver)) = []"
    by (simp_all add: new_broker_def reset_def default_broker_def default_sized_queue_def
        new_sized_queue_def)
  moreover have "(7 :: c_int) \<noteq> INT_MIN" "27017 \<noteq> INT_MIN" by (simp_all add: INT_MIN_def)
  ultimately show ?thesis
    using init_succeeds_iff [of "new_broker sample_driver" sample_driver
        "sample_options [(''limit'', VInt 7)]"]
    by (simp add: requested_limit_def requested_queue_size_def sample_defs sample_options_def
        overflows_times5_def)
qed

theorem init_after_close_witness:
  "fst (init sample_driver (Some (sample_options [])) (close_broker
      ((new_broker sample_driver)\<lparr>m_host := ''old'', m_last_doc_id := ''z'', m_do_exit := True\<rparr>))) =
   fst (init sample_driver (Some (sample_options [])) (new_broker sample_driver))"
  using init_after_close [of "(new_broker sample_driver)\<lparr>m_host := ''old'', m_last_doc_id := ''z'', m_do_exit := True\<rparr>"
      sample_driver "sample_options []"]
  by (simp add: new_broker_def reset_def default_broker_def default_sized_queue_def
        new_sized_queue_def)

text \<open>
  The documented \<open>limit\<close> 0 ("no limit") stops a read broker. After \<open>init\<close> with limit 0
  and no queue size, the queue has room for nothing: pushing any page without a consumer
  blocks for ever and queues nothing, and asking for a batch of \<open>m_limit\<close> documents fails an
  assertion.
\<close>

theorem zero_limit_blocks:
  assumes "\<not> m_inited b" "m_sched (m_queue b) = []" "init D (Some x) b = (Inr (), b')"
    and "requested_limit D x = 0" "requested_queue_size D x = INT_MIN"
  shows "fst (on_queue (push_all docs 0) b') = Inl Blocked \<and>
    m_deque (m_queue (snd (on_queue (push_all docs 0) b'))) = [] \<and>
    fst (batch_pop (int_to_size (m_limit b')) (out, b')) = Inl Assertion_failed"
proof -
  note v = init_ok_values [OF assms(1,3)]
  have "int_to_size 0 = 0" by (simp add: int_to_size_def)
  with v assms(2,4,5) show ?thesis
    by (simp add: push_all_full_quiet batch_pop_def set_size_def clear_def)
qed

theorem zero_limit_blocks_witness:
  "let b = snd (init sample_driver (Some (sample_options [(''limit'', VInt 0)])) (new_broker sample_driver))
   in fst (on_queue (push_all [''doc''] 0) b) = Inl Blocked"
proof -
  let ?x = "sample_options [(''limit'', VInt 0)]"
  let ?n = "new_broker sample_driver"
  have n: "\<not> m_inited ?n" "m_sched (m_queue ?n) = []"
    by (simp_all add: new_broker_def reset_def default_broker_def default_sized_queue_def
        new_sized_queue_def)
  have v: "requested_limit sample_driver ?x = 0" "requested_queue_size sample_driver ?x = INT_MIN"
    by (simp_all add: requested_limit_def requested_queue_size_def sample_defs sample_options_def)
  have "27017 \<noteq> INT_MIN" by (simp add: INT_MIN_def)
  then have "fst (init sample_driver (Some ?x) ?n) = Inr ()"
    using n init_given [OF n(1), of sample_driver "Some ?x"]
    by (simp add: missing_option_def load_options_def sample_defs sample_options_def Let_def
        default_parameters_eq overflows_times5_def)
  then have "init sample_driver (Some ?x) ?n = (Inr (), snd (init sample_driver (Some ?x) ?n))"
    by (metis prod.collapse)
  from zero_limit_blocks [OF n this v] show ?thesis by (simp add: Let_def)
qed

text \<open>
  The buffer for the connection string. After a successful \<open>init\<close> with a host free of NUL,
  \<open>open\<close> writes outside the buffer exactly when the port prints to nine characters or more;
  so it never does for a TCP port.
\<close>

theorem open_port_buffer:
  assumes "init D x b = (Inr (), b')" "NUL \<notin> set (m_host b')"
  shows "(fst (open_broker D db x b) = Inl Undefined \<longleftrightarrow> 9 \<le> length (show_int (sint (m_port b')))) \<and>
    (0 \<le> sint (m_port b') \<and> sint (m_port b') < 65536 \<longrightarrow> fst (open_broker D db x b) \<noteq> Inl Undefined)"
proof -
  have "fst (open_broker D db x b) = Inl Undefined \<longleftrightarrow> 9 \<le> length (show_int (sint (m_port b')))"
    using assms
    by (auto simp: open_broker_def sprintf_into_def c_str_id Let_def split: option.splits)
  moreover have "length (show_int (sint (m_port b'))) \<le> 5"
    if "0 \<le> sint (m_port b')" "sint (m_port b') < 65536"
    using that length_show_nat [of "nat (sint (m_port b'))" 5] by (simp add: show_int_def nat_less_iff)
  ultimately show ?thesis by auto
qed

theorem open_port_buffer_witness:
  "fst (open_broker sample_driver [] None ((new_broker sample_driver)\<lparr>m_inited := True, m_host := ''h'', m_port := 123456789\<rparr>)) =
    Inl Undefined"
proof -
  let ?b = "(new_broker sample_driver)\<lparr>m_inited := True, m_host := ''h'', m_port := 123456789\<rparr>"
  have "init sample_driver None ?b = (Inr (), ?b)" by (simp add: init_def)
  moreover have "9 \<le> length (show_int (sint (m_port ?b)))"
    by (simp add: show_int_def show_nat.simps)
  ultimately show ?thesis using open_port_buffer [of sample_driver None ?b ?b "[]"] by simp
qed

end
