(* ===== verification/Broker_Batches.thy ===== *)
theory Broker_Batches
  imports Broker_Facts
begin

text \<open>
  Batches of documents: what \<open>batch_pop\<close> gives its caller on a queue that nobody else uses,
  and the bounds that hold under any interference.
\<close>

section \<open>Batches\<close>

text \<open>
  A connected broker whose queue nobody else touches is a source of documents in the sense of
  \<open>fifo_source\<close>.
\<close>

definition quiet :: "'o broker \<Rightarrow> bool" where
  "quiet b \<longleftrightarrow> m_inited b \<and> m_connected b \<and> m_sched (m_queue b) = []"

lemma broker_pop_quiet:
  assumes "quiet b" "0 < s"
  shows "broker_pop s b =
    (case m_deque (m_queue b) of
       [] \<Rightarrow> (Inl (Broker_exception ''no more items''),
             b\<lparr>m_queue := (m_queue b)\<lparr>m_signals := m_signals (m_queue b) @ [Notified Can_push, Waited Can_pop]\<rparr>\<rparr>)
     | x # xs \<Rightarrow> (Inr x,
             b\<lparr>m_queue := (m_queue b)\<lparr>m_deque := xs, m_signals := m_signals (m_queue b) @ [Notified Can_push]\<rparr>\<rparr>))"
  using assms by (simp add: broker_pop_def quiet_def on_queue_def pop_quiet split: list.splits)

interpretation quiet_broker: fifo_source "broker_pop s" "\<lambda>b. m_deque (m_queue b)"
  "\<lambda>b. quiet b \<and> 0 < s \<and> settings b = c" "Broker_exception ''no more items''" for s c
  by unfold_locales (auto simp: broker_pop_quiet, auto simp: quiet_def)

lemma pop_n_quiet:
  assumes "quiet b" "0 < s"
  shows "\<exists>b'. pop_n n (broker_pop s) (docs, b) =
      (if n \<le> length (m_deque (m_queue b)) then Inr () else Inl (Broker_exception ''no more items''),
       (docs @ take n (m_deque (m_queue b)), b')) \<and>
    m_deque (m_queue b') = drop n (m_deque (m_queue b)) \<and> quiet b' \<and> settings b' = settings b"
  using quiet_broker.pop_n_contents [of b s "settings b"] assms by blast

lemma broker_pop_querying: "broker_pop s b = (r, b') \<Longrightarrow> m_querying b' = m_querying b"
  by (auto simp: broker_pop_def check_status_def on_queue_eq split: if_splits)

lemma pop_n_querying:
  "pop_n n (broker_pop s) (docs, b) = (r, (docs', b')) \<Longrightarrow> m_querying b' = m_querying b"
  by (erule pop_n_keeps [where P = "\<lambda>x. m_querying x = m_querying b", rotated])
    (auto dest: broker_pop_querying)

lemma batch_round_quiet:
  assumes "quiet b" "0 < int_to_size t" "\<not> m_querying b"
  shows "\<exists>b'. batch_round t n (docs, b) =
      (Inr (unat n \<le> length (m_deque (m_queue b))), (docs @ take (unat n) (m_deque (m_queue b)), b')) \<and>
    m_deque (m_queue b') = drop (unat n) (m_deque (m_queue b)) \<and> quiet b' \<and>
    settings b' = settings b \<and> \<not> m_querying b'"
proof -
  obtain b1 where b1: "pop_n (unat n) (broker_pop (int_to_size t)) (docs, b) =
      (if unat n \<le> length (m_deque (m_queue b)) then Inr () else Inl (Broker_exception ''no more items''),
       (docs @ take (unat n) (m_deque (m_queue b)), b1))"
    "m_deque (m_queue b1) = drop (unat n) (m_deque (m_queue b))" "quiet b1" "settings b1 = settings b"
    using pop_n_quiet [OF assms(1,2)] by blast
  have "\<not> m_querying b1" using pop_n_querying [OF b1(1)] assms(3) by simp
  with b1 show ?thesis
    by (simp add: batch_round_def wait_query_done_def quiet_def)
qed

lemma batch_round_docs:
  assumes "batch_round t n (docs, b) = (Inr f, (docs', b'))"
  shows "\<exists>ys. docs' = docs @ ys \<and> (if f then length ys = unat n else length ys < unat n)"
proof -
  obtain r docs1 b1 where p: "pop_n (unat n) (broker_pop (int_to_size t)) (docs, b) = (r, (docs1, b1))"
    by (metis prod.exhaust)
  then have "docs' = docs1 \<and> (f \<longleftrightarrow> r = Inr ())"
    using assms by (auto simp: batch_round_def split: sum.splits fault.splits prod.splits)
  with pop_n_docs [OF p] show ?thesis by (cases r) auto
qed

lemma batch_pop_two_rounds:
  assumes "sint (m_read_retry b) = 1" "batch_pop n (docs, b) = (Inr r, s)"
  obtains (first) "batch_round (m_read_timeout b) n (docs, b) = (Inr True, s)"
      "r = size_of_nat (length (fst s))"
  | (second) f docs1 b1 where "batch_round (m_read_timeout b) n (docs, b) = (Inr False, (docs1, b1))"
      "batch_round (m_read_timeout b1) n (docs1, b1) = (Inr f, s)"
      "r = (if f then size_of_nat (length (fst s)) else ULONG_MAX)"
proof -
  have l: "batch_pop_loop 1 0 (m_read_timeout b) n (docs, b) = (Inr r, s)"
    using assms by (simp add: batch_pop_def split: if_splits)
  obtain x docs1 b1 where r1: "batch_round (m_read_timeout b) n (docs, b) = (x, (docs1, b1))"
    by (metis prod.exhaust)
  obtain y s2 where r2: "batch_round (m_read_timeout b1) n (docs1, b1) = (y, s2)"
    by (metis prod.exhaust)
  show thesis
  proof (cases "x = Inr False")
    case True
    with l r1 have "batch_pop_loop 1 1 (m_read_timeout b1) n (docs1, b1) = (Inr r, s)"
      by (subst (asm) batch_pop_loop.simps) (simp add: Let_def)
    then have "\<exists>f. y = Inr f \<and> s = s2 \<and> r = (if f then size_of_nat (length (fst s)) else ULONG_MAX)"
      using r2 by (subst (asm) batch_pop_loop.simps) (auto simp: Let_def split: sum.splits bool.splits)
    with True r1 r2 second show thesis by blast
  next
    case False
    with l r1 first show thesis
      by (subst (asm) batch_pop_loop.simps) (auto split: sum.splits bool.splits)
  qed
qed

lemma batch_pop_from_quiet:
  assumes "quiet b" "0 < n" "sint (m_read_retry b) = 1" "0 < int_to_size (m_read_timeout b)"
    "\<not> m_querying b"
  defines "q \<equiv> m_deque (m_queue b)"
  shows "\<exists>b'. batch_pop n (docs, b) =
      (Inr (if unat n \<le> length q then size_of_nat (length docs + unat n) else ULONG_MAX),
       (docs @ take (unat n) q, b')) \<and>
    m_deque (m_queue b') = drop (unat n) q \<and> settings b' = settings b"
proof -
  let ?loop = "batch_pop_loop (sint (m_read_retry b)) 0 (m_read_timeout b) n (docs, b)"
  obtain b1 where b1: "batch_round (m_read_timeout b) n (docs, b) =
      (Inr (unat n \<le> length q), (docs @ take (unat n) q, b1))"
    "m_deque (m_queue b1) = drop (unat n) q" "quiet b1" "settings b1 = settings b" "\<not> m_querying b1"
    using batch_round_quiet [OF assms(1,4,5), of n docs] q_def by blast
  have bp: "batch_pop n (docs, b) = ?loop"
    using assms(2) by (simp add: batch_pop_def word_gt_0)
  show ?thesis
  proof (cases "unat n \<le> length q")
    case True
    with b1 show ?thesis
      unfolding bp by (subst batch_pop_loop.simps) (simp add: Let_def min_def)
  next
    case False
    then have e: "m_deque (m_queue b1) = []" using b1(2) by simp
    have t1: "m_read_timeout b1 = m_read_timeout b" using settings_fields(3) [OF b1(4)] .
    obtain b2 where b2: "batch_round (m_read_timeout b1) n (docs @ take (unat n) q, b1) =
        (Inr False, (docs @ take (unat n) q, b2))"
      "m_deque (m_queue b2) = []" "settings b2 = settings b1"
      using batch_round_quiet [OF b1(3) _ b1(5), of "m_read_timeout b1" n "docs @ take (unat n) q"]
        assms(2,4) e t1 by (auto simp: word_gt_0 unat_eq_0)
    have "batch_pop_loop 1 1 (m_read_timeout b1) n (docs @ take (unat n) q, b1) =
        (Inr ULONG_MAX, (docs @ take (unat n) q, b2))"
      using b2 by (subst batch_pop_loop.simps) (simp add: Let_def)
    with False b1 b2 assms(3) show ?thesis
      unfolding bp by (subst batch_pop_loop.simps) (simp add: Let_def)
  qed
qed

text \<open>
  \<open>batch_pop\<close> on a quiet queue. If the queue holds at least the wanted number of
  documents, exactly that many are appended to the caller's vector, the first of the queue in
  their order, and the size of the vector is returned; otherwise all documents of the queue
  are appended and \<open>ULONG_MAX\<close> is returned after the retries. Nothing is lost either way.
\<close>

theorem batch_pop_quiet:
  assumes "quiet b" "0 < n" "sint (m_read_retry b) = 1" "0 < int_to_size (m_read_timeout b)"
    "\<not> m_querying b"
  defines "q \<equiv> m_deque (m_queue b)"
  shows "\<exists>b'. batch_pop n (docs, b) =
      (Inr (if unat n \<le> length q then size_of_nat (length docs + unat n) else ULONG_MAX),
       (docs @ take (unat n) q, b')) \<and>
    m_deque (m_queue b') = drop (unat n) q \<and> settings b' = settings b"
  unfolding q_def by (rule batch_pop_from_quiet [OF assms(1-5)])

definition sample_open :: "string list \<Rightarrow> string interference list \<Rightarrow> bson broker" where
  "sample_open docs sched = (new_broker sample_driver)\<lparr>m_inited := True, m_connected := True,
     m_queue := \<lparr>m_limit_size = 10, m_deque = docs, m_signals = [], m_sched = sched\<rparr>\<rparr>"

lemma sample_open_fields [simp]:
  "m_inited (sample_open d s)" "m_connected (sample_open d s)" "\<not> m_querying (sample_open d s)"
  "m_read_retry (sample_open d s) = 1" "m_read_timeout (sample_open d s) = 1"
  "m_queue (sample_open d s) = \<lparr>m_limit_size = 10, m_deque = d, m_signals = [], m_sched = s\<rparr>"
  by (simp_all add: sample_open_def new_broker_def reset_def)

theorem batch_pop_quiet_witness:
  "\<exists>b'. batch_pop 2 ([], sample_open [''a'', ''b'', ''c''] []) = (Inr 2, ([''a'', ''b''], b')) \<and>
     m_deque (m_queue b') = [''c'']"
  using batch_pop_quiet [of "sample_open [''a'', ''b'', ''c''] []" 2 "[]"]
  by (simp add: quiet_def int_to_size_def size_of_nat_def) blast

text \<open>
  C32: The bound on a batch under any interference. With the retry count that \<open>reset\<close> sets, a
  call that returns a size has appended at least the wanted number \<open>n\<close> of documents, and a
  call that returns at all at most \<open>2 * n - 1\<close>, because the retry asks for \<open>n\<close> more without
  counting those it already has.
\<close>

theorem batch_pop_bounds:
  assumes "batch_pop n (docs, b) = (Inr r, (docs', b'))" "sint (m_read_retry b) = 1"
  shows "\<exists>ys. docs' = docs @ ys \<and> length ys \<le> 2 * unat n - 1 \<and>
    (r = size_of_nat (length docs') \<and> unat n \<le> length ys \<or> r = ULONG_MAX \<and> length ys \<le> 2 * unat n - 2)"
  using assms(2,1)
proof (cases rule: batch_pop_two_rounds)
  case first
  from batch_round_docs [OF first(1)] have n: "\<exists>ys. docs' = docs @ ys \<and> length ys = unat n" by simp
  have "0 < unat n" using assms(1) by (auto simp: batch_pop_def unat_gt_0 split: if_splits)
  with n first(2) show ?thesis by auto
next
  case (second f docs1 b1)
  from batch_round_docs [OF second(1)] obtain ys where
    ys: "docs1 = docs @ ys" "length ys < unat n" by auto
  from batch_round_docs [OF second(2)] obtain zs where
    zs: "docs' = docs1 @ zs" "if f then length zs = unat n else length zs < unat n" by auto
  show ?thesis
    using ys zs second(3) by (intro exI [of _ "ys @ zs"]) (auto split: if_splits)
qed

theorem batch_pop_bounds_witness:
  "\<exists>r docs b'. batch_pop 2 ([], sample_open [''a'']
      [\<lparr>woken = False, added = [], taken = 0\<rparr>, \<lparr>woken = False, added = [], taken = 0\<rparr>,
       \<lparr>woken = False, added = [], taken = 0\<rparr>, \<lparr>woken = False, added = [''b'', ''c''], taken = 0\<rparr>]) =
      (Inr r, (docs, b')) \<and> length docs = 3 \<and> length docs \<le> 2 * unat (2 :: size_t) - 1"
proof -
  let ?s = "[\<lparr>woken = False, added = [], taken = 0\<rparr>, \<lparr>woken = False, added = [], taken = 0\<rparr>,
       \<lparr>woken = False, added = [], taken = 0\<rparr>, \<lparr>woken = False, added = [''b'', ''c''], taken = 0\<rparr>]"
  have u: "pop_n 2 f s = pop_n (Suc (Suc 0)) f s" for f :: "bson broker \<Rightarrow> _" and s
    by (simp only: numeral_2_eq_2)
  have "\<exists>b'. batch_pop 2 ([], sample_open [''a''] ?s) = (Inr 3, ([''a'', ''b'', ''c''], b'))"
    by (simp add: batch_pop_def batch_pop_loop.simps batch_round_def u broker_pop_def on_queue_def
        pop_def lock_def interfere_def take_front_def wait_cond_def wait_query_done_def
        notify_one_def queue_size_def size_of_nat_def int_to_size_def Let_def)
  then obtain b' where e: "batch_pop 2 ([], sample_open [''a''] ?s) = (Inr 3, ([''a'', ''b'', ''c''], b'))"
    by blast
  from batch_pop_bounds [OF e] e show ?thesis by auto
qed

end
