(* ===== verification/Broker_Pages.thy ===== *)
theory Broker_Pages
  imports Broker_Batches
begin

text \<open>
  The documents a read broker returns: successive queries page through a collection that does
  not change, each remembering the id it got to.
\<close>

section \<open>The collection behind a read broker\<close>

text \<open>
  The driver's documented behaviour on a collection that does not change: \<open>M\<close> are the documents
  that match the broker's condition, in ascending order of their ids and with the requested
  fields. The query returns \<open>M\<close> without the first \<open>skip\<close> and cut to \<open>limit\<close>; with the
  condition that \<open>_id\<close> is greater than the id of a document of \<open>M\<close>, the same holds for the
  documents behind that one. Ids are not empty.
\<close>

definition selects :: "('o, 'db) driver \<Rightarrow> 'db \<Rightarrow> 'o broker \<Rightarrow> 'o \<Rightarrow> 'o list \<Rightarrow> bool" where
  "selects D db b c xs \<longleftrightarrow> (\<forall>l s. 0 \<le> sint l \<longrightarrow> 0 \<le> sint s \<longrightarrow>
     conn_query D db (m_docset b) c Asc l s (if m_has_fields b then Some (m_fields b) else None) =
       Inr (page l s xs))"

definition after_id :: "('o, 'db) driver \<Rightarrow> 'o broker \<Rightarrow> string \<Rightarrow> 'o" where
  "after_id D b i = append_object D ''_id'' (append_OID D ''$gt'' i (emptyObj D))
     (appendElements D (m_conditions b) (emptyObj D))"

definition collection_of :: "('o, 'db) driver \<Rightarrow> 'db \<Rightarrow> 'o broker \<Rightarrow> 'o list \<Rightarrow> bool" where
  "collection_of D db b M \<longleftrightarrow> selects D db b (m_conditions b) M \<and>
     (\<forall>k < length M. \<exists>i. i \<noteq> [] \<and> getObjectID D (M ! k) = Some i \<and>
        selects D db b (after_id D b i) (drop (Suc k) M))"

text \<open>The last id names the position up to which documents were returned.\<close>

definition at_position :: "('o, 'db) driver \<Rightarrow> 'o broker \<Rightarrow> 'o list \<Rightarrow> nat \<Rightarrow> bool" where
  "at_position D b M k \<longleftrightarrow>
     (if k = 0 then m_last_doc_id b = []
      else k \<le> length M \<and> getObjectID D (M ! (k - 1)) = Some (m_last_doc_id b))"

lemma page_eq: "0 < sint l \<Longrightarrow> page l s xs = take (nat (sint l)) (drop (nat (sint s)) xs)"
  by (auto simp: page_def Let_def)

text \<open>What the collection of a broker depends on.\<close>

lemma collection_of_cong:
  assumes "m_docset b' = m_docset b" "m_has_fields b' = m_has_fields b" "m_fields b' = m_fields b"
    "m_conditions b' = m_conditions b"
  shows "collection_of D db b' M = collection_of D db b M"
  using assms by (simp add: collection_of_def selects_def after_id_def)

lemma query_at_position:
  assumes "collection_of D db b M" "at_position D b M k" "0 < sint (m_limit b)" "0 \<le> sint (m_skip b)"
  defines "p \<equiv> take (nat (sint (m_limit b))) (drop (k + nat (sint (m_skip b))) M)"
  shows "\<exists>b'. query D db Asc b = (Inr (map (jsonString D) p), b') \<and>
    at_position D b' M (if p = [] then k else k + nat (sint (m_skip b)) + length p) \<and>
    collection_of D db b' M \<and> m_limit b' = m_limit b \<and> m_skip b' = m_skip b \<and>
    m_query_count b' = m_query_count b + 1 \<and> \<not> m_querying b'"
proof -
  have c: "selects D db b (prepare_condition D b) (drop k M)"
  proof (cases "k = 0")
    case True
    with assms(1,2) show ?thesis by (simp add: collection_of_def at_position_def prepare_condition_def)
  next
    case False
    with assms(2) have "k - 1 < length M" "getObjectID D (M ! (k - 1)) = Some (m_last_doc_id b)"
      by (auto simp: at_position_def)
    with assms(1) False show ?thesis
      by (auto simp: collection_of_def prepare_condition_def after_id_def dest!: spec [of _ "k - 1"])
  qed
  have "prepare_condition D (b\<lparr>m_querying := True\<rparr>) = prepare_condition D b"
    by (simp add: prepare_condition_def)
  moreover from c assms(3,4) have "conn_query D db (m_docset b) (prepare_condition D b) Asc (m_limit b)
      (m_skip b) (if m_has_fields b then Some (m_fields b) else None) = Inr p"
    by (simp add: selects_def page_eq p_def add.commute split del: if_split)
  ultimately have qb: "query_begin D db Asc b = (Inr p, b\<lparr>m_querying := True\<rparr>)"
    by (simp add: query_begin_def Let_def cong: if_cong split del: if_split)
  have same: "collection_of D db (b\<lparr>m_querying := x, m_json_doc_cache := c, m_last_doc_id := i,
      m_query_count := n\<rparr>) M" for x c i n
    using assms(1) by (subst collection_of_cong [of _ b]) simp_all
  show ?thesis
  proof (cases "p = []")
    case True
    let ?b = "b\<lparr>m_querying := False, m_json_doc_cache := [], m_last_doc_id := m_last_doc_id b,
      m_query_count := m_query_count b + 1\<rparr>"
    have "query D db Asc b = (Inr [], ?b)" using True qb by (simp add: query_def query_end_def Let_def)
    moreover have "at_position D ?b M k" using assms(2) by (auto simp: at_position_def split: if_splits)
    ultimately show ?thesis using True same [where i = "m_last_doc_id b"]
      by (intro exI [of _ ?b]) simp
  next
    case False
    let ?j = "k + nat (sint (m_skip b)) + length p"
    have j: "?j \<le> length M" "0 < ?j" "last p = M ! (?j - 1)"
      using False by (auto simp: p_def last_conv_nth min_def)
    then have "?j - 1 < length M" by linarith
    with assms(1) obtain i where i: "getObjectID D (M ! (?j - 1)) = Some i"
      unfolding collection_of_def by blast
    let ?b = "b\<lparr>m_querying := False, m_json_doc_cache := map (jsonString D) p, m_last_doc_id := i,
      m_query_count := m_query_count b + 1\<rparr>"
    have "query D db Asc b = (Inr (map (jsonString D) p), ?b)"
      using False qb j(3) i by (simp add: query_def query_end_def Let_def)
    moreover have "at_position D ?b M ?j" using j(1,2) i False by (simp add: at_position_def)
    ultimately show ?thesis using False same by (intro exI [of _ ?b]) simp
  qed
qed

section \<open>Successive pages\<close>

fun query_pages :: "nat \<Rightarrow> ('o, 'db) driver \<Rightarrow> 'db \<Rightarrow> 'o broker \<Rightarrow> ('o broker, string list list) outcome" where
  "query_pages 0 D db b = (Inr [], b)"
| "query_pages (Suc n) D db b =
     andthen (query D db Asc b) (\<lambda>p b. andthen (query_pages n D db b) (\<lambda>ps b. (Inr (p # ps), b)))"

lemma query_pages_from:
  assumes "collection_of D db b M" "at_position D b M k" "0 < sint (m_limit b)" "0 \<le> sint (m_skip b)"
  defines "l \<equiv> nat (sint (m_limit b))" and "s \<equiv> nat (sint (m_skip b))"
  shows "\<exists>b'. query_pages n D db b =
      (Inr (map (\<lambda>j. map (jsonString D) (take l (drop (k + j * (s + l) + s) M))) [0..<n]), b') \<and>
    m_query_count b' = m_query_count b + word_of_nat n"
  using assms(1-4) unfolding l_def s_def
proof (induction n arbitrary: b k)
  case (Suc n)
  let ?l = "nat (sint (m_limit b))" and ?s = "nat (sint (m_skip b))"
  let ?p = "take ?l (drop (k + ?s) M)"
  let ?k = "if ?p = [] then k else k + ?s + length ?p"
  obtain b1 where b1: "query D db Asc b = (Inr (map (jsonString D) ?p), b1)"
    "at_position D b1 M ?k" "collection_of D db b1 M" "m_limit b1 = m_limit b" "m_skip b1 = m_skip b"
    "m_query_count b1 = m_query_count b + 1"
    using query_at_position [OF Suc.prems] by blast
  obtain b2 where b2: "query_pages n D db b1 =
      (Inr (map (\<lambda>j. map (jsonString D) (take ?l (drop (?k + j * (?s + ?l) + ?s) M))) [0..<n]), b2)"
    "m_query_count b2 = m_query_count b1 + word_of_nat n"
    using Suc.IH [OF b1(3,2)] Suc.prems(3,4) b1(4,5) by auto
  have "take ?l (drop (?k + j * (?s + ?l) + ?s) M) = take ?l (drop (k + Suc j * (?s + ?l) + ?s) M)" for j
  proof (cases "k + ?s + ?l \<le> length M")
    case True
    then have "length ?p = ?l" by simp
    moreover have "0 < ?l" using Suc.prems(3) by simp
    ultimately have "?k = k + ?s + ?l" by auto
    then show ?thesis by (simp add: algebra_simps)
  next
    case False
    then have "length M \<le> ?k + ?s" by (cases "?p = []") (auto simp: min_def)
    then have "length M \<le> ?k + j * (?s + ?l) + ?s" by linarith
    moreover from False have "length M \<le> k + Suc j * (?s + ?l) + ?s" by (simp add: algebra_simps)
    ultimately show ?thesis by simp
  qed
  with b1 b2 show ?case
    by (simp add: upt_conv_Cons map_Suc_upt [symmetric] o_def del: upt_Suc)
qed simp

text \<open>A broker on a collection of four documents, for the witnesses.\<close>

definition sample_docs :: "bson list" where
  "sample_docs = [[(''_id'', VOid ''a'')], [(''_id'', VOid ''b'')], [(''_id'', VOid ''c'')], [(''_id'', VOid ''d'')]]"

definition sample_reader :: "c_int \<Rightarrow> c_int \<Rightarrow> string \<Rightarrow> bson broker" where
  "sample_reader l s i = (new_broker sample_driver)\<lparr>m_limit := l, m_skip := s, m_last_doc_id := i\<rparr>"

lemma sample_reader_fields [simp]:
  "m_limit (sample_reader l s i) = l" "m_skip (sample_reader l s i) = s"
  "m_last_doc_id (sample_reader l s i) = i" "m_conditions (sample_reader l s i) = []"
  by (simp_all add: sample_reader_def new_broker_def reset_def default_broker_def sample_driver_def)

lemma page_0 [simp]: "page l 0 [] = []" "page l s [] = []"
  by (simp_all add: page_def)

lemma sample_collection: "collection_of sample_driver sample_docs (sample_reader l s i) sample_docs"
proof -
  have "\<forall>k < 4. \<exists>i. i \<noteq> [] \<and> getObjectID sample_driver (sample_docs ! k) = Some i \<and>
      selects sample_driver sample_docs (sample_reader l s j) (after_id sample_driver (sample_reader l s j) i)
        (drop (Suc k) sample_docs)" for j
    by (simp add: eval_nat_numeral All_less_Suc selects_def after_id_def sample_docs_def sample_driver_def
        sample_oid_def sample_behind_def sample_obj_def Asc_def)
  moreover have "selects sample_driver sample_docs (sample_reader l s i)
      (m_conditions (sample_reader l s i)) sample_docs"
    by (simp add: selects_def sample_driver_def sample_behind_def sample_obj_def Asc_def)
  ultimately show ?thesis by (simp add: collection_of_def) (simp add: sample_docs_def)
qed

text \<open>
  Pages of a collection that does not change. With a limit \<open>l > 0\<close> and a skip \<open>s\<close>, the
  \<open>j\<close>-th of \<open>n\<close> successive queries on a broker that has not returned anything yet gives the
  documents from position \<open>j * (s + l) + s\<close> on, at most \<open>l\<close> of them: the skip is applied to
  every page again, not only to the first.
\<close>

theorem query_pages_content:
  assumes "collection_of D db b M" "m_last_doc_id b = []" "0 < sint (m_limit b)" "0 \<le> sint (m_skip b)"
  shows "let l = nat (sint (m_limit b)); s = nat (sint (m_skip b))
    in fst (query_pages n D db b) =
      Inr (map (\<lambda>j. map (jsonString D) (take l (drop (j * (s + l) + s) M))) [0..<n])"
  using query_pages_from [OF assms(1) _ assms(3,4), of 0 n] assms(2)
  by (auto simp: at_position_def Let_def)

theorem query_pages_content_witness:
  "fst (query_pages 2 sample_driver sample_docs (sample_reader 1 1 [])) = Inr [[''b''], [''d'']]"
  using query_pages_content [OF sample_collection [of 1 1 "[]"], of 2]
  by (simp add: numeral_2_eq_2) (simp add: sample_docs_def sample_driver_def sample_oid_def)

text \<open>
  C28: Without a skip the pages are complete, for a positive limit \<open>l\<close> and a collection that does not
  change: from the beginning on, \<open>n\<close> successive queries return the first \<open>n * l\<close>
  matching documents, each exactly once and in ascending order of their ids, so after enough
  queries the whole collection.
\<close>

theorem query_pages_complete:
  assumes "collection_of D db b M" "m_last_doc_id b = []" "0 < sint (m_limit b)" "m_skip b = 0"
  shows "\<exists>ps b'. query_pages n D db b = (Inr ps, b') \<and>
    concat ps = map (jsonString D) (take (n * nat (sint (m_limit b))) M)"
proof -
  let ?l = "nat (sint (m_limit b))"
  have "concat (map (\<lambda>j. map (jsonString D) (take ?l (drop (j * ?l) M))) [0..<n]) =
      map (jsonString D) (take (n * ?l) M)"
  proof (induction n)
    case (Suc n)
    have "Suc n * ?l = n * ?l + ?l" by simp
    then have "take (Suc n * ?l) M = take (n * ?l) M @ take ?l (drop (n * ?l) M)"
      by (simp only: take_add)
    then show ?case using Suc by (simp only: upt_Suc map_append concat_append) simp
  qed simp
  moreover have "at_position D b M 0" using assms(2) by (simp add: at_position_def)
  then obtain b' where "query_pages n D db b =
      (Inr (map (\<lambda>j. map (jsonString D) (take ?l (drop (j * ?l) M))) [0..<n]), b')"
    using query_pages_from [OF assms(1) _ assms(3), of 0 n] assms(4) by auto
  ultimately show ?thesis by blast
qed

theorem query_pages_complete_witness:
  "\<exists>ps b'. query_pages 2 sample_driver sample_docs (sample_reader 3 0 []) = (Inr ps, b') \<and>
     concat ps = [''a'', ''b'', ''c'', ''d'']"
  using query_pages_complete [OF sample_collection [of 3 0 "[]"], of 2]
  by simp (simp add: sample_docs_def sample_driver_def sample_oid_def)

text \<open>
  \<open>rewind\<close> starts over: after it the next query returns the same first page as on a broker
  that has not returned anything, whatever was read before.
\<close>

theorem rewind_restarts:
  assumes "collection_of D db b M" "0 < sint (m_limit b)" "0 \<le> sint (m_skip b)"
  shows "fst (query D db Asc (rewind b)) =
    Inr (map (jsonString D) (take (nat (sint (m_limit b))) (drop (nat (sint (m_skip b))) M)))"
proof -
  have "collection_of D db (rewind b) M"
    using assms(1) by (subst collection_of_cong [of _ b]) (simp_all add: rewind_def)
  moreover have "at_position D (rewind b) M 0" by (simp add: at_position_def rewind_def)
  ultimately show ?thesis
    using query_at_position [of D db "rewind b" M 0] assms(2,3) by (auto simp: rewind_def)
qed

theorem rewind_restarts_witness:
  "fst (query sample_driver sample_docs Asc (rewind (sample_reader 2 0 ''c''))) = Inr [''a'', ''b'']"
  using rewind_restarts [OF sample_collection [of 2 0 "''c''"]]
  by simp (simp add: sample_docs_def sample_driver_def sample_oid_def)

end
