(* ===== verification/Reader_System.thy ===== *)
theory Reader_System
  imports Step_System Broker_Facts
begin

text \<open>
  A read broker under concurrency: the thread that runs \<open>broker::read\<close> and the io thread that
  serves the clients (\<open>batch_pop\<close>, \<open>rewind\<close>, \<open>processor::term\<close>) as one transition system. A
  step is what a thread does while it holds the queue's lock, or between two accesses to a
  flag the threads share; waiting on a condition is a place of its own, left by a notification,
  by the deadline of a timed wait, or (with the parameter \<open>spur\<close>) by a spurious wake-up.
\<close>

section \<open>State\<close>

text \<open>
  Where the reading thread is: at the head of its loop, between the halves of \<open>query\<close>, with
  the documents of the page, at the head of the inner loop, inside \<open>push\<close>.
\<close>

datatype 'o reader_pc =
    R_head
  | R_querying "'o list"
  | R_queried "string list"
  | R_push "string list"
  | R_lock "string list"
  | R_wait "string list"
  | R_woken "string list"
  | R_done
  | R_crashed fault

text \<open>
  Where the io thread is: between requests; in \<open>batch_pop\<close> for batches of \<open>n\<close> with \<open>w\<close> pops to
  go in the round after \<open>k\<close> retries; in \<open>term\<close> before and after it asks for the queue's size,
  joining the reading thread, and behind that.
\<close>

datatype io_pc =
    C_idle
  | C_pop nat nat nat
  | C_wait nat nat nat
  | C_woken nat nat nat
  | C_timeout nat nat
  | C_query nat nat
  | C_query_wait nat nat
  | C_retry nat nat
  | C_term
  | C_term_end
  | C_join
  | C_closed
  | C_undefined

text \<open>
  The last fields record what was queried, what was popped, and what the finished batches of
  read requests returned. What \<open>term\<close> pops goes into a vector that it throws away.
\<close>

record 'o rsys =
  rb :: "'o broker"
  rpc :: "'o reader_pc"
  cpc :: io_pc
  pages :: "string list list"
  popped :: "string list"
  answered :: "string list"

definition deque_of :: "'o rsys \<Rightarrow> string list" where
  "deque_of s = m_deque (m_queue (rb s))"

definition limit_of :: "'o rsys \<Rightarrow> nat" where
  "limit_of s = unat (m_limit_size (m_queue (rb s)))"

definition set_deque :: "string list \<Rightarrow> 'o rsys \<Rightarrow> 'o rsys" where
  "set_deque xs s = s\<lparr>rb := (rb s)\<lparr>m_queue := (m_queue (rb s))\<lparr>m_deque := xs\<rparr>\<rparr>\<rparr>"

section \<open>Notifications\<close>

text \<open>Each condition has at most one waiting thread; a notification nobody waits for is lost.\<close>

definition wake_reader :: "'o rsys \<Rightarrow> 'o rsys" where
  "wake_reader s = (case rpc s of R_wait docs \<Rightarrow> s\<lparr>rpc := R_woken docs\<rparr> | _ \<Rightarrow> s)"

definition wake_consumer :: "'o rsys \<Rightarrow> 'o rsys" where
  "wake_consumer s = (case cpc s of C_wait n w k \<Rightarrow> s\<lparr>cpc := C_woken n w k\<rparr> | _ \<Rightarrow> s)"

definition wake_query :: "'o rsys \<Rightarrow> 'o rsys" where
  "wake_query s = (case cpc s of C_query_wait n k \<Rightarrow> s\<lparr>cpc := C_retry n k\<rparr> | _ \<Rightarrow> s)"

section \<open>The reading thread\<close>

text \<open>\<open>push\<close> from the moment it has the lock and does not wait (any more).\<close>

definition do_push :: "string list \<Rightarrow> 'o rsys \<Rightarrow> 'o rsys" where
  "do_push docs s =
     (let (xs, rest) = move_back (limit_of s) (deque_of s) docs
      in wake_consumer ((set_deque xs s)\<lparr>rpc := R_push rest\<rparr>))"

text \<open>The database may change between two queries, so each query has its own.\<close>

inductive reader_step :: "('o, 'db) driver \<Rightarrow> 'o rsys \<Rightarrow> 'o rsys \<Rightarrow> bool" for D :: "('o, 'db) driver" where
  r_exit: "rpc s = R_head \<Longrightarrow> m_do_exit (rb s) \<Longrightarrow> reader_step D s (s\<lparr>rpc := R_done\<rparr>)"
| r_query: "rpc s = R_head \<Longrightarrow> \<not> m_do_exit (rb s) \<Longrightarrow> query_begin D db Asc (rb s) = (Inr docs, b) \<Longrightarrow>
    reader_step D s (s\<lparr>rb := b, rpc := R_querying docs\<rparr>)"
| r_query_throws: "rpc s = R_head \<Longrightarrow> \<not> m_do_exit (rb s) \<Longrightarrow> query_begin D db Asc (rb s) = (Inl e, b) \<Longrightarrow>
    reader_step D s (s\<lparr>rb := b, rpc := R_crashed e\<rparr>)"
| r_query_end: "rpc s = R_querying docs \<Longrightarrow> query_end D docs (rb s) = (Inr cache, b) \<Longrightarrow>
    reader_step D s (wake_query (s\<lparr>rb := b, rpc := R_queried cache, pages := pages s @ [cache]\<rparr>))"
| r_query_end_throws: "rpc s = R_querying docs \<Longrightarrow> query_end D docs (rb s) = (Inl e, b) \<Longrightarrow>
    reader_step D s (s\<lparr>rb := b, rpc := R_crashed e\<rparr>)"
| r_nothing: "rpc s = R_queried [] \<Longrightarrow>
    reader_step D s (s\<lparr>rb := (rb s)\<lparr>m_reach_end := True\<rparr>, rpc := R_head\<rparr>)"
| r_documents: "rpc s = R_queried docs \<Longrightarrow> docs \<noteq> [] \<Longrightarrow>
    reader_step D s (s\<lparr>rb := (rb s)\<lparr>m_reach_end := False\<rparr>, rpc := R_push docs\<rparr>)"
| r_loop: "rpc s = R_push docs \<Longrightarrow> docs \<noteq> [] \<and> \<not> m_do_exit (rb s) \<Longrightarrow>
    reader_step D s (s\<lparr>rpc := R_lock docs\<rparr>)"
| r_loop_end: "rpc s = R_push docs \<Longrightarrow> docs = [] \<or> m_do_exit (rb s) \<Longrightarrow>
    reader_step D s (s\<lparr>rpc := R_head\<rparr>)"
| r_room: "rpc s = R_lock docs \<Longrightarrow> length (deque_of s) < limit_of s \<Longrightarrow> reader_step D s (do_push docs s)"
| r_full: "rpc s = R_lock docs \<Longrightarrow> limit_of s \<le> length (deque_of s) \<Longrightarrow>
    reader_step D s ((wake_consumer s)\<lparr>rpc := R_wait docs\<rparr>)"
| r_woken: "rpc s = R_woken docs \<Longrightarrow> reader_step D s (do_push docs s)"

section \<open>The io thread\<close>

text \<open>
  After a batch: back to the client with all that was popped, or on in \<open>term\<close>, which is what sets
  the exit flag.
\<close>

definition batch_done :: "'o rsys \<Rightarrow> 'o rsys" where
  "batch_done s = (if m_do_exit (rb s) then s\<lparr>cpc := C_join\<rparr> else s\<lparr>cpc := C_idle, answered := popped s\<rparr>)"

text \<open>\<open>pop\<close> from the moment it has the lock and does not wait (any more).\<close>

definition do_pop :: "nat \<Rightarrow> nat \<Rightarrow> nat \<Rightarrow> 'o rsys \<Rightarrow> 'o rsys" where
  "do_pop n w k s =
     (case take_front (m_queue (rb s)) of
        (Inl _, _) \<Rightarrow> s\<lparr>cpc := C_undefined\<rparr>
      | (Inr x, q) \<Rightarrow>
          (let s1 = wake_reader (s\<lparr>rb := (rb s)\<lparr>m_queue := q\<rparr>, popped := popped s @ [x]\<rparr>)
           in if w \<le> 1 then batch_done s1 else s1\<lparr>cpc := C_pop n (w - 1) k\<rparr>))"

inductive io_step :: "'o rsys \<Rightarrow> 'o rsys \<Rightarrow> bool" where
  c_read: "cpc s = C_idle \<Longrightarrow> 0 < n \<Longrightarrow> io_step s (s\<lparr>cpc := C_pop n n 0\<rparr>)"
| c_rewind: "cpc s = C_idle \<Longrightarrow> io_step s (s\<lparr>rb := rewind (rb s)\<rparr>)"
| c_exit: "cpc s = C_idle \<Longrightarrow> io_step s (s\<lparr>rb := set_exit (rb s), cpc := C_term\<rparr>)"
| c_term_pop: "cpc s = C_term \<Longrightarrow> deque_of s \<noteq> [] \<Longrightarrow> io_step s (s\<lparr>cpc := C_pop 1 1 0\<rparr>)"
| c_term_empty: "cpc s = C_term \<Longrightarrow> deque_of s = [] \<Longrightarrow> io_step s (s\<lparr>cpc := C_term_end\<rparr>)"
| c_term_end: "cpc s = C_term_end \<Longrightarrow> \<not> m_reach_end (rb s) \<Longrightarrow> io_step s (s\<lparr>cpc := C_pop 1 1 0\<rparr>)"
| c_term_join: "cpc s = C_term_end \<Longrightarrow> m_reach_end (rb s) \<Longrightarrow> io_step s (s\<lparr>cpc := C_join\<rparr>)"
| c_pop: "cpc s = C_pop n w k \<Longrightarrow> deque_of s \<noteq> [] \<Longrightarrow> io_step s (do_pop n w k s)"
| c_empty: "cpc s = C_pop n w k \<Longrightarrow> deque_of s = [] \<Longrightarrow>
    io_step s ((wake_reader s)\<lparr>cpc := C_wait n w k\<rparr>)"
| c_deadline: "cpc s = C_wait n w k \<Longrightarrow> m_read_timeout (rb s) \<noteq> 0 \<Longrightarrow> io_step s (s\<lparr>cpc := C_timeout n k\<rparr>)"
| c_woken: "cpc s = C_woken n w k \<Longrightarrow> io_step s (do_pop n w k s)"
| c_querying: "cpc s = C_timeout n k \<Longrightarrow> m_querying (rb s) \<Longrightarrow> io_step s (s\<lparr>cpc := C_query n k\<rparr>)"
| c_not_querying: "cpc s = C_timeout n k \<Longrightarrow> \<not> m_querying (rb s) \<Longrightarrow> io_step s (s\<lparr>cpc := C_retry n k\<rparr>)"
| c_query_wait: "cpc s = C_query n k \<Longrightarrow> io_step s (s\<lparr>cpc := C_query_wait n k\<rparr>)"
| c_retry: "cpc s = C_retry n k \<Longrightarrow> int k + 1 \<le> sint (m_read_retry (rb s)) \<Longrightarrow>
    io_step s (s\<lparr>cpc := C_pop n n (k + 1)\<rparr>)"
| c_give_up: "cpc s = C_retry n k \<Longrightarrow> \<not> int k + 1 \<le> sint (m_read_retry (rb s)) \<Longrightarrow>
    io_step s (batch_done s)"
| c_join: "cpc s = C_join \<Longrightarrow> rpc s = R_done \<Longrightarrow>
    io_step s (s\<lparr>rb := close_broker (rb s), cpc := C_closed\<rparr>)"

section \<open>The whole system\<close>

inductive system_step :: "('o, 'db) driver \<Rightarrow> bool \<Rightarrow> 'o rsys \<Rightarrow> 'o rsys \<Rightarrow> bool"
  for D :: "('o, 'db) driver" and spur :: bool where
  by_reader: "reader_step D s s' \<Longrightarrow> system_step D spur s s'"
| by_io: "io_step s s' \<Longrightarrow> system_step D spur s s'"
| spurious_reader: "spur \<Longrightarrow> rpc s = R_wait docs \<Longrightarrow> system_step D spur s (s\<lparr>rpc := R_woken docs\<rparr>)"
| spurious_io: "spur \<Longrightarrow> cpc s = C_wait n w k \<Longrightarrow> system_step D spur s (s\<lparr>cpc := C_woken n w k\<rparr>)"
| spurious_query: "spur \<Longrightarrow> cpc s = C_query_wait n k \<Longrightarrow> system_step D spur s (s\<lparr>cpc := C_retry n k\<rparr>)"

text \<open>The start: a broker that was just opened, with its thread.\<close>

definition opened :: "'o rsys \<Rightarrow> bool" where
  "opened s \<longleftrightarrow> m_inited (rb s) \<and> m_connected (rb s) \<and> \<not> m_do_exit (rb s) \<and> \<not> m_querying (rb s) \<and>
     deque_of s = [] \<and> rpc s = R_head \<and> cpc s = C_idle \<and> pages s = [] \<and> popped s = [] \<and> answered s = []"

abbreviation runs :: "('o, 'db) driver \<Rightarrow> bool \<Rightarrow> 'o rsys \<Rightarrow> bool" where
  "runs D spur \<equiv> reachable opened (system_step D spur)"

end
