(* ===== verification/Reader_Facts.thy ===== *)
theory Reader_Facts
  imports Reader_System Broker_Pages
begin

text \<open>
  What holds in every run of the reading thread and the io thread: the documents are conserved,
  the queue stays within its limit, \<open>pop\<close> is safe, the shutdown ends. The last sections run
  concrete schedules, which show where the code relies on more than it can.
\<close>

section \<open>Frames\<close>

lemma query_begin_frame [frame]:
  "query_begin D db dir b = (r, b') \<Longrightarrow>
    m_queue b' = m_queue b \<and> m_do_exit b' = m_do_exit b \<and> m_reach_end b' = m_reach_end b"
  by (auto simp: query_begin_def Let_def)

lemma query_end_frame [frame]:
  "query_end D docs b = (r, b') \<Longrightarrow>
    m_queue b' = m_queue b \<and> m_do_exit b' = m_do_exit b \<and> m_reach_end b' = m_reach_end b"
  by (auto simp: query_end_def andthen_def Let_def split: prod.splits sum.splits if_splits option.splits)

lemma set_deque_simps [simp]:
  "deque_of (set_deque xs s) = xs" "limit_of (set_deque xs s) = limit_of s"
  "rpc (set_deque xs s) = rpc s" "cpc (set_deque xs s) = cpc s" "pages (set_deque xs s) = pages s"
  "popped (set_deque xs s) = popped s" "answered (set_deque xs s) = answered s" "m_do_exit (rb (set_deque xs s)) = m_do_exit (rb s)"
  "m_reach_end (rb (set_deque xs s)) = m_reach_end (rb s)"
  by (simp_all add: set_deque_def deque_of_def limit_of_def)

lemma pc_update_simps [simp]:
  "deque_of (s\<lparr>rpc := p\<rparr>) = deque_of s" "limit_of (s\<lparr>rpc := p\<rparr>) = limit_of s"
  "deque_of (s\<lparr>cpc := c\<rparr>) = deque_of s" "limit_of (s\<lparr>cpc := c\<rparr>) = limit_of s"
  "deque_of (s\<lparr>pages := x\<rparr>) = deque_of s" "limit_of (s\<lparr>pages := x\<rparr>) = limit_of s"
  "deque_of (s\<lparr>popped := y\<rparr>) = deque_of s" "limit_of (s\<lparr>popped := y\<rparr>) = limit_of s"
  "deque_of (s\<lparr>answered := y\<rparr>) = deque_of s" "limit_of (s\<lparr>answered := y\<rparr>) = limit_of s"
  by (simp_all add: deque_of_def limit_of_def)

lemma rb_update_simps [simp]:
  "m_queue b = m_queue (rb s) \<Longrightarrow> deque_of (s\<lparr>rb := b\<rparr>) = deque_of s"
  "m_queue b = m_queue (rb s) \<Longrightarrow> limit_of (s\<lparr>rb := b\<rparr>) = limit_of s"
  by (simp_all add: deque_of_def limit_of_def)

lemma broker_ops_frame [simp]:
  "m_queue (rewind b) = m_queue b" "m_do_exit (rewind b) = m_do_exit b"
  "m_queue (set_exit b) = m_queue b" "m_do_exit (set_exit b)"
  "m_queue (close_broker b) = m_queue b" "\<not> m_do_exit (close_broker b)"
  by (simp_all add: rewind_def set_exit_def close_broker_def reset_def)

definition woken_reader :: "'o reader_pc \<Rightarrow> 'o reader_pc" where
  "woken_reader p = (case p of R_wait docs \<Rightarrow> R_woken docs | _ \<Rightarrow> p)"

definition woken_consumer :: "io_pc \<Rightarrow> io_pc" where
  "woken_consumer c = (case c of C_wait n w k \<Rightarrow> C_woken n w k | _ \<Rightarrow> c)"

definition woken_query :: "io_pc \<Rightarrow> io_pc" where
  "woken_query c = (case c of C_query_wait n k \<Rightarrow> C_retry n k | _ \<Rightarrow> c)"

lemma wake_eq:
  "wake_reader s = s\<lparr>rpc := woken_reader (rpc s)\<rparr>"
  "wake_consumer s = s\<lparr>cpc := woken_consumer (cpc s)\<rparr>"
  "wake_query s = s\<lparr>cpc := woken_query (cpc s)\<rparr>"
  by (simp_all add: wake_reader_def woken_reader_def wake_consumer_def woken_consumer_def
      wake_query_def woken_query_def split: reader_pc.splits io_pc.splits)

lemma do_push_fields:
  assumes "move_back (limit_of s) (deque_of s) docs = (xs, rest)"
  shows "deque_of (do_push docs s) = xs" "limit_of (do_push docs s) = limit_of s"
    "rpc (do_push docs s) = R_push rest" "cpc (do_push docs s) = woken_consumer (cpc s)"
    "pages (do_push docs s) = pages s" "popped (do_push docs s) = popped s"
    "answered (do_push docs s) = answered s"
    "m_do_exit (rb (do_push docs s)) = m_do_exit (rb s)"
  using assms by (simp_all add: do_push_def wake_eq)

lemma do_pop_empty [simp]: "deque_of s = [] \<Longrightarrow> do_pop n w k s = s\<lparr>cpc := C_undefined\<rparr>"
  by (simp add: do_pop_def take_front_def deque_of_def)

lemma do_pop_fields:
  assumes "deque_of s = x # xs"
  shows "deque_of (do_pop n w k s) = xs" "limit_of (do_pop n w k s) = limit_of s"
    "rpc (do_pop n w k s) = woken_reader (rpc s)"
    "cpc (do_pop n w k s) = (if w \<le> 1 then if m_do_exit (rb s) then C_join else C_idle else C_pop n (w - 1) k)"
    "pages (do_pop n w k s) = pages s" "popped (do_pop n w k s) = popped s @ [x]"
    "answered (do_pop n w k s) = (if w \<le> 1 \<and> \<not> m_do_exit (rb s) then popped s @ [x] else answered s)"
    "m_do_exit (rb (do_pop n w k s)) = m_do_exit (rb s)"
  using assms
  by (simp_all add: do_pop_def take_front_def deque_of_def limit_of_def wake_eq batch_done_def notify_one_def Let_def)

section \<open>The steps are the calls of the queue\<close>

text \<open>
  A push or a pop that does not have to wait is, as a step of the system, what the call of the
  queue does when no other thread comes between.
\<close>

lemma do_push_is_call:
  assumes "m_sched (m_queue (rb s)) = []" "length (deque_of s) < limit_of s"
    "push_all docs 0 (m_queue (rb s)) = (Inr (n, rest), q)"
  shows "rpc (do_push docs s) = R_push rest \<and> deque_of (do_push docs s) = m_deque q"
proof -
  obtain xs r where m: "move_back (limit_of s) (deque_of s) docs = (xs, r)" by fastforce
  with assms show ?thesis
    by (auto simp: do_push_fields push_all_def wait_for_room_def lock_def notify_one_def Let_def)
      (auto simp: deque_of_def limit_of_def do_push_def set_deque_def wake_eq)
qed

lemma do_pop_is_call:
  assumes "m_sched (m_queue (rb s)) = []" "deque_of s \<noteq> []" "pop t (m_queue (rb s)) = (r, q)"
  shows "r = Inr (hd (deque_of s)) \<and> popped (do_pop n w k s) = popped s @ [hd (deque_of s)] \<and>
    deque_of (do_pop n w k s) = m_deque q"
proof -
  obtain x xs where d: "deque_of s = x # xs" using assms(2) by (cases "deque_of s") auto
  with assms show ?thesis
    by (auto simp: do_pop_fields) (auto simp: pop_quiet deque_of_def)
qed

section \<open>Documents are conserved, the deque stays bounded\<close>

definition pending :: "'o reader_pc \<Rightarrow> string list" where
  "pending p = (case p of R_queried docs \<Rightarrow> docs | R_push docs \<Rightarrow> docs | R_lock docs \<Rightarrow> docs
     | R_wait docs \<Rightarrow> docs | R_woken docs \<Rightarrow> docs | _ \<Rightarrow> [])"

definition in_push :: "'o reader_pc \<Rightarrow> bool" where
  "in_push p \<longleftrightarrow> (\<exists>docs. p = R_lock docs \<or> p = R_wait docs \<or> p = R_woken docs)"

text \<open>
  The documents of the pages, each page in reverse order, are those popped, those in the deque
  and the pending ones; documents are dropped only by a thread that ends.
\<close>

definition conserved :: "'o rsys \<Rightarrow> bool" where
  "conserved s \<longleftrightarrow> (\<exists>dropped. concat (map rev (pages s)) =
       popped s @ deque_of s @ rev (pending (rpc s)) @ dropped \<and>
     (dropped \<noteq> [] \<longrightarrow> rpc s = R_done \<or> rpc s = R_head \<and> m_do_exit (rb s)))"

definition bounded :: "'o rsys \<Rightarrow> bool" where
  "bounded s \<longleftrightarrow> length (deque_of s) \<le> limit_of s \<and> (in_push (rpc s) \<longrightarrow> pending (rpc s) \<noteq> [])"

lemma woken_reader_simps [simp]:
  "pending (woken_reader p) = pending p" "in_push (woken_reader p) = in_push p"
  "(woken_reader p = R_done) = (p = R_done)" "(woken_reader p = R_head) = (p = R_head)"
  "woken_reader p \<noteq> R_wait docs" "(woken_reader p = R_lock docs) = (p = R_lock docs)"
  by (auto simp: woken_reader_def pending_def in_push_def split: reader_pc.splits)

lemma pending_simps [simp]:
  "pending R_head = []" "pending (R_querying x) = []" "pending (R_queried docs) = docs"
  "pending (R_push docs) = docs" "pending (R_lock docs) = docs" "pending (R_wait docs) = docs"
  "pending (R_woken docs) = docs" "pending R_done = []" "pending (R_crashed e) = []"
  by (simp_all add: pending_def)

lemma in_push_simps [simp]:
  "\<not> in_push R_head" "\<not> in_push (R_querying x)" "\<not> in_push (R_queried docs)"
  "\<not> in_push (R_push docs)" "in_push (R_lock docs)" "in_push (R_wait docs)"
  "in_push (R_woken docs)" "\<not> in_push R_done" "\<not> in_push (R_crashed e)"
  by (simp_all add: in_push_def)

lemma conserved_push:
  assumes "conserved s" "in_push (rpc s)" "pending (rpc s) = docs"
  shows "conserved (do_push docs s)"
proof -
  obtain xs rest where m: "move_back (limit_of s) (deque_of s) docs = (xs, rest)" by fastforce
  from assms(1,2,3) have "concat (map rev (pages s)) = popped s @ deque_of s @ rev docs"
    by (auto simp: conserved_def)
  with move_back_conserves [OF m] show ?thesis by (simp add: conserved_def do_push_fields [OF m])
qed

lemma bounded_push:
  assumes "bounded s"
  shows "bounded (do_push docs s)"
proof -
  obtain xs rest where m: "move_back (limit_of s) (deque_of s) docs = (xs, rest)" by fastforce
  from assms move_back_limit [OF m] show ?thesis by (simp add: bounded_def do_push_fields [OF m])
qed

lemma conserved_pop:
  assumes "conserved s"
  shows "conserved (do_pop n w k s)"
proof (cases "deque_of s")
  case (Cons x xs)
  with assms show ?thesis by (auto simp: conserved_def do_pop_fields)
qed (use assms in \<open>simp add: conserved_def\<close>)

lemma bounded_pop:
  assumes "bounded s"
  shows "bounded (do_pop n w k s)"
proof (cases "deque_of s")
  case (Cons x xs)
  with assms show ?thesis by (auto simp: bounded_def do_pop_fields)
qed (use assms in \<open>simp add: bounded_def\<close>)

lemma conserved_reader:
  assumes "reader_step D s s'" "conserved s"
  shows "conserved s'"
  using assms(1)
proof (cases rule: reader_step.cases)
  case r_query
  with assms(2) query_begin_frame [OF r_query(4)] show ?thesis by (auto simp: conserved_def)
next
  case r_query_throws
  with assms(2) query_begin_frame [OF r_query_throws(4)] show ?thesis by (auto simp: conserved_def)
next
  case r_query_end
  with assms(2) query_end_frame [OF r_query_end(3)] show ?thesis by (auto simp: conserved_def wake_eq)
next
  case r_query_end_throws
  with assms(2) query_end_frame [OF r_query_end_throws(3)] show ?thesis by (auto simp: conserved_def)
next
  case r_loop_end
  with assms(2) show ?thesis by (auto simp: conserved_def)
qed (use assms(2) in \<open>auto simp: conserved_push, auto simp: conserved_def wake_eq\<close>)

lemma bounded_reader:
  assumes "reader_step D s s'" "bounded s"
  shows "bounded s'"
  using assms(1)
proof (cases rule: reader_step.cases)
  case r_query
  with assms(2) query_begin_frame [OF r_query(4)] show ?thesis by (auto simp: bounded_def)
next
  case r_query_throws
  with assms(2) query_begin_frame [OF r_query_throws(4)] show ?thesis by (auto simp: bounded_def)
next
  case r_query_end
  with assms(2) query_end_frame [OF r_query_end(3)] show ?thesis by (auto simp: bounded_def wake_eq)
next
  case r_query_end_throws
  with assms(2) query_end_frame [OF r_query_end_throws(3)] show ?thesis by (auto simp: bounded_def)
qed (use assms(2) in \<open>auto simp: bounded_push, auto simp: bounded_def wake_eq\<close>)

lemma conserved_io: "io_step s s' \<Longrightarrow> conserved s \<Longrightarrow> conserved s'"
  by (erule io_step.cases) (auto simp: conserved_pop, auto simp: conserved_def wake_eq batch_done_def)

lemma bounded_io: "io_step s s' \<Longrightarrow> bounded s \<Longrightarrow> bounded s'"
  by (erule io_step.cases) (auto simp: bounded_pop, auto simp: bounded_def wake_eq batch_done_def)

interpretation documents: step_invariant opened "system_step D spur" "\<lambda>s. conserved s \<and> bounded s"
  for D :: "('o, 'db) driver" and spur
proof
  show "opened s \<Longrightarrow> conserved s \<and> bounded s" for s :: "'o rsys"
    by (simp add: opened_def conserved_def bounded_def)
  show "conserved s' \<and> bounded s'" if "conserved s \<and> bounded s" "system_step D spur s s'" for s s'
    using that(2,1)
    by cases (auto intro: conserved_reader bounded_reader conserved_io bounded_io,
        auto simp: conserved_def bounded_def)
qed

section \<open>What the clients got\<close>

text \<open>
  All that was popped was returned by a finished batch, but for the documents of the batch that is
  being served and at most one that \<open>term\<close> popped. \<open>term\<close> asks for batches of one document.
\<close>

definition in_term :: "io_pc \<Rightarrow> bool" where
  "in_term c \<longleftrightarrow> (case c of C_pop n w k \<Rightarrow> n = 1 \<and> w \<le> 1 | C_wait n w k \<Rightarrow> n = 1 \<and> w \<le> 1
     | C_woken n w k \<Rightarrow> n = 1 \<and> w \<le> 1 | C_timeout n k \<Rightarrow> n = 1 | C_query n k \<Rightarrow> n = 1
     | C_query_wait n k \<Rightarrow> n = 1 | C_retry n k \<Rightarrow> n = 1 | C_idle \<Rightarrow> False | _ \<Rightarrow> True)"

definition accounted :: "'o rsys \<Rightarrow> bool" where
  "accounted s \<longleftrightarrow> (\<exists>ds. popped s = answered s @ ds \<and> (cpc s = C_idle \<longrightarrow> ds = []) \<and>
       (m_do_exit (rb s) \<or> cpc s = C_closed \<longrightarrow> length ds \<le> 1) \<and>
       (m_do_exit (rb s) \<and> cpc s \<notin> {C_join, C_closed} \<longrightarrow> ds = [])) \<and>
     (m_do_exit (rb s) \<longrightarrow> in_term (cpc s)) \<and> (cpc s \<in> {C_term, C_term_end, C_join} \<longrightarrow> m_do_exit (rb s))"

lemma in_term_simps [simp]:
  "in_term (C_pop n w k) = (n = 1 \<and> w \<le> 1)" "in_term (C_wait n w k) = (n = 1 \<and> w \<le> 1)"
  "in_term (C_woken n w k) = (n = 1 \<and> w \<le> 1)" "in_term (C_timeout n k) = (n = 1)"
  "in_term (C_query n k) = (n = 1)" "in_term (C_query_wait n k) = (n = 1)" "in_term (C_retry n k) = (n = 1)"
  "\<not> in_term C_idle" "in_term C_term" "in_term C_term_end" "in_term C_join" "in_term C_closed" "in_term C_undefined"
  by (simp_all add: in_term_def)

lemma woken_term_simps [simp]:
  "in_term (woken_consumer c) = in_term c" "in_term (woken_query c) = in_term c"
  "(woken_consumer c = C_idle) = (c = C_idle)" "(woken_query c = C_idle) = (c = C_idle)"
  "(woken_consumer c = C_closed) = (c = C_closed)" "(woken_query c = C_closed) = (c = C_closed)"
  "(woken_consumer c = C_term) = (c = C_term)" "(woken_query c = C_term) = (c = C_term)"
  "(woken_consumer c = C_term_end) = (c = C_term_end)" "(woken_query c = C_term_end) = (c = C_term_end)"
  "(woken_consumer c = C_join) = (c = C_join)" "(woken_query c = C_join) = (c = C_join)"
  by (auto simp: woken_consumer_def woken_query_def in_term_def split: io_pc.splits)

lemma accounted_same:
  assumes "accounted s" "popped s' = popped s" "answered s' = answered s" "m_do_exit (rb s') = m_do_exit (rb s)"
    "cpc s' = cpc s \<or> cpc s' = woken_consumer (cpc s) \<or> cpc s' = woken_query (cpc s)"
  shows "accounted s'"
  using assms unfolding accounted_def by (elim disjE) simp_all

lemma accounted_pop:
  assumes "accounted s" "cpc s = C_pop n w k \<or> cpc s = C_woken n w k"
  shows "accounted (do_pop n w k s)"
proof (cases "deque_of s")
  case (Cons x xs)
  with assms show ?thesis by (auto simp: accounted_def do_pop_fields)
qed (use assms in \<open>auto simp: accounted_def\<close>)

lemma accounted_reader:
  assumes "reader_step D s s'" "accounted s"
  shows "accounted s'"
proof (rule accounted_same [OF assms(2)])
  have push: "popped (do_push docs s) = popped s \<and> answered (do_push docs s) = answered s \<and>
      m_do_exit (rb (do_push docs s)) = m_do_exit (rb s) \<and> cpc (do_push docs s) = woken_consumer (cpc s)" for docs
    by (cases "move_back (limit_of s) (deque_of s) docs") (simp add: do_push_fields)
  have "popped s' = popped s \<and> answered s' = answered s \<and> m_do_exit (rb s') = m_do_exit (rb s) \<and>
      (cpc s' = cpc s \<or> cpc s' = woken_consumer (cpc s) \<or> cpc s' = woken_query (cpc s))"
    using assms(1) by cases (auto simp: push wake_eq dest: frame)
  then show "popped s' = popped s" "answered s' = answered s" "m_do_exit (rb s') = m_do_exit (rb s)"
    "cpc s' = cpc s \<or> cpc s' = woken_consumer (cpc s) \<or> cpc s' = woken_query (cpc s)" by blast+
qed

lemma accounted_io: "io_step s s' \<Longrightarrow> accounted s \<Longrightarrow> accounted s'"
  by (erule io_step.cases) (auto simp: accounted_pop, auto simp: accounted_def wake_eq batch_done_def)

interpretation answers: step_invariant opened "system_step D spur" accounted for D :: "('o, 'db) driver" and spur
proof
  show "opened s \<Longrightarrow> accounted s" for s :: "'o rsys" by (simp add: opened_def accounted_def)
  show "accounted s'" if "accounted s" "system_step D spur s s'" for s s' :: "'o rsys"
    using that(2,1) by cases (auto intro: accounted_reader accounted_io, auto simp: accounted_def)
qed

section \<open>No undefined pop, and the shutdown\<close>

text \<open>
  After the exit flag is set, the io thread looks at the queue under its lock; from then on the
  reading thread cannot start to wait for room any more.
\<close>

definition observed :: "io_pc \<Rightarrow> bool" where
  "observed c \<longleftrightarrow> (case c of C_idle \<Rightarrow> False | C_term \<Rightarrow> False | C_closed \<Rightarrow> False | C_undefined \<Rightarrow> False
     | C_pop n w k \<Rightarrow> 0 < k | _ \<Rightarrow> True)"

definition room :: "'o rsys \<Rightarrow> bool" where
  "room s \<longleftrightarrow> (\<forall>docs. rpc s \<noteq> R_wait docs) \<and>
     ((\<exists>docs. rpc s = R_lock docs) \<longrightarrow> length (deque_of s) < limit_of s)"

definition orderly :: "'o rsys \<Rightarrow> bool" where
  "orderly s \<longleftrightarrow> bounded s \<and> 0 < limit_of s \<and> cpc s \<noteq> C_undefined \<and>
     ((\<exists>n w k. cpc s = C_woken n w k) \<longrightarrow> deque_of s \<noteq> []) \<and>
     (cpc s \<in> {C_term, C_term_end, C_join} \<longrightarrow> m_do_exit (rb s)) \<and>
     (m_do_exit (rb s) \<and> observed (cpc s) \<longrightarrow> room s) \<and>
     ((\<exists>docs. rpc s = R_wait docs) \<longrightarrow> limit_of s \<le> length (deque_of s))"

lemma observed_simps [simp]:
  "\<not> observed C_idle" "\<not> observed C_term" "\<not> observed C_closed" "\<not> observed C_undefined"
  "observed (C_pop n w k) = (0 < k)" "observed (C_wait n w k)" "observed (C_woken n w k)"
  "observed (C_timeout n k)" "observed (C_query n k)" "observed (C_query_wait n k)"
  "observed (C_retry n k)" "observed C_term_end" "observed C_join"
  by (simp_all add: observed_def)

lemma woken_io_simps [simp]:
  "observed (woken_consumer c) = observed c" "observed (woken_query c) = observed c"
  "(woken_consumer c = C_undefined) = (c = C_undefined)" "(woken_query c = C_undefined) = (c = C_undefined)"
  "(woken_query c = C_woken n w k) = (c = C_woken n w k)"
  by (auto simp: woken_consumer_def woken_query_def split: io_pc.splits)

lemma move_back_nonempty:
  "move_back limit xs items = (ys, rest) \<Longrightarrow> 0 < limit \<Longrightarrow> items \<noteq> [] \<Longrightarrow> ys \<noteq> []"
  by (auto simp: move_back_eq Let_def min_def split: if_splits)

lemma orderly_push:
  assumes "orderly s" "in_push (rpc s)" "pending (rpc s) = docs"
  shows "orderly (do_push docs s)"
proof -
  obtain xs rest where m: "move_back (limit_of s) (deque_of s) docs = (xs, rest)" by fastforce
  from assms have "bounded (do_push docs s)" "0 < limit_of s" "docs \<noteq> []"
    using bounded_push [of s docs] by (auto simp: orderly_def bounded_def)
  with assms(1) move_back_nonempty [OF m] show ?thesis
    by (auto simp: orderly_def do_push_fields [OF m] room_def)
qed

lemma orderly_pop:
  assumes "orderly s" "deque_of s \<noteq> []"
  shows "orderly (do_pop n w k s)"
proof -
  obtain x xs where d: "deque_of s = x # xs" using assms(2) by (cases "deque_of s") auto
  from assms(1) bounded_pop [of s n w k] d have "bounded (do_pop n w k s)" "length xs < limit_of s"
    by (auto simp: orderly_def bounded_def)
  with assms(1) show ?thesis by (auto simp: orderly_def do_pop_fields [OF d] room_def)
qed

lemma orderly_reader:
  assumes "reader_step D s s'" "orderly s"
  shows "orderly s'"
proof -
  have b: "bounded s'" using assms bounded_reader by (auto simp: orderly_def)
  from assms(1) show ?thesis
  proof (cases rule: reader_step.cases)
    case r_query
    with b assms(2) query_begin_frame [OF r_query(4)] show ?thesis by (auto simp: orderly_def room_def)
  next
    case r_query_throws
    with b assms(2) query_begin_frame [OF r_query_throws(4)] show ?thesis by (auto simp: orderly_def room_def)
  next
    case r_query_end
    with b assms(2) query_end_frame [OF r_query_end(3)] show ?thesis
      by (auto simp: orderly_def room_def wake_eq)
  next
    case r_query_end_throws
    with b assms(2) query_end_frame [OF r_query_end_throws(3)] show ?thesis by (auto simp: orderly_def room_def)
  next
    case (r_full docs)
    with b assms(2) show ?thesis by (auto simp: orderly_def room_def wake_eq bounded_def)
  qed (use b assms(2) in \<open>auto simp: orderly_push, auto simp: orderly_def room_def\<close>)
qed

lemma orderly_io:
  assumes "io_step s s'" "orderly s"
  shows "orderly s'"
proof -
  have b: "bounded s'" using assms bounded_io by (auto simp: orderly_def)
  from assms(1) show ?thesis
  proof (cases rule: io_step.cases)
    case (c_woken n w k)
    moreover from c_woken(2) assms(2) have "deque_of s \<noteq> []" by (simp add: orderly_def)
    ultimately show ?thesis using orderly_pop assms(2) by simp
  qed (use b assms(2) in \<open>auto simp: orderly_pop, auto simp: orderly_def room_def wake_eq batch_done_def\<close>)
qed

lemma limit_of_pop: "limit_of (do_pop n w k s) = limit_of s"
  by (cases "deque_of s") (simp_all add: do_pop_fields)

lemma limit_of_push: "limit_of (do_push docs s) = limit_of s"
  by (simp add: do_push_def wake_eq split: prod.split)

lemma limit_of_step:
  assumes "system_step D spur s s'"
  shows "limit_of s' = limit_of s"
  using assms
proof cases
  case by_reader
  then show ?thesis
    by cases (auto simp: wake_eq limit_of_push dest: frame)
next
  case by_io
  then show ?thesis by cases (auto simp: wake_eq limit_of_pop batch_done_def)
qed auto

lemma orderly_opened: "opened s \<Longrightarrow> 0 < limit_of s \<Longrightarrow> orderly s"
  by (auto simp: opened_def orderly_def bounded_def)

lemma orderly_step: "system_step D False s s' \<Longrightarrow> orderly s \<Longrightarrow> orderly s'"
  by (erule system_step.cases) (auto intro: orderly_reader orderly_io)

text \<open>What is left for the reading thread once it must end.\<close>

definition reader_rank :: "'o reader_pc \<Rightarrow> nat" where
  "reader_rank p = (case p of R_done \<Rightarrow> 0 | R_crashed e \<Rightarrow> 0 | R_head \<Rightarrow> 1 | R_push docs \<Rightarrow> 2
     | R_lock docs \<Rightarrow> 3 | R_woken docs \<Rightarrow> 3 | R_wait docs \<Rightarrow> 3 | R_queried docs \<Rightarrow> 3 | R_querying docs \<Rightarrow> 4)"

definition reader_over :: "'o rsys \<Rightarrow> bool" where
  "reader_over s \<longleftrightarrow> rpc s = R_done \<or> (\<exists>e. rpc s = R_crashed e)"

lemma reader_finishing:
  assumes "reader_step D s s'" "m_do_exit (rb s) \<and> room s"
  shows "(m_do_exit (rb s') \<and> room s') \<and> reader_rank (rpc s') < reader_rank (rpc s)"
proof -
  have p: "rpc (do_push docs s) = R_push (snd (move_back (limit_of s) (deque_of s) docs))"
    "m_do_exit (rb (do_push docs s)) = m_do_exit (rb s)" for docs
    by (simp_all add: do_push_fields [OF prod.collapse [symmetric]])
  from assms(1) show ?thesis
  proof (cases rule: reader_step.cases)
    case r_query_end
    with assms(2) query_end_frame [OF r_query_end(3)] show ?thesis by (auto simp: room_def reader_rank_def wake_eq)
  next
    case r_query_end_throws
    with assms(2) query_end_frame [OF r_query_end_throws(3)] show ?thesis by (auto simp: room_def reader_rank_def)
  qed (use assms(2) in \<open>auto simp: room_def reader_rank_def p\<close>)
qed

lemma reader_not_stuck:
  assumes "m_do_exit (rb s) \<and> room s" "\<not> reader_over s"
  shows "\<exists>s'. reader_step D s s'"
proof (cases "rpc s")
  case (R_querying docs)
  show ?thesis
  proof (cases "query_end D docs (rb s)")
    case (Pair r b)
    with R_querying show ?thesis by (cases r) (auto intro: r_query_end r_query_end_throws)
  qed
next
  case (R_queried docs)
  then show ?thesis by (cases "docs = []") (auto intro: r_nothing r_documents)
qed (use assms in \<open>auto simp: room_def reader_over_def intro: r_exit r_loop_end r_room r_woken\<close>)

interpretation shutdown: ranked_thread "\<lambda>s. opened s \<and> 0 < limit_of s" "system_step D False" orderly
    "reader_step D" "\<lambda>s. m_do_exit (rb s) \<and> room s" reader_over "\<lambda>s. reader_rank (rpc s)"
  for D :: "('o, 'db) driver"
proof
  show "opened s \<and> 0 < limit_of s \<Longrightarrow> orderly s" for s :: "'o rsys" by (simp add: orderly_opened)
  show "(m_do_exit (rb s') \<and> room s') \<and> reader_rank (rpc s') < reader_rank (rpc s)"
    if "m_do_exit (rb s) \<and> room s" "reader_step D s s'" for s s'
    using reader_finishing that by blast
qed (auto intro: orderly_step by_reader reader_not_stuck)

lemma runs_positive:
  assumes "runs D spur s" "0 < limit_of s"
  shows "reachable (\<lambda>s. opened s \<and> 0 < limit_of s) (system_step D spur) s"
  using assms
proof (induction rule: reachable.induct)
  case (start s)
  then show ?case by (auto intro: reachable.start)
next
  case (next_state s s')
  then show ?case using limit_of_step [OF next_state.hyps(2)] by (auto intro: reachable.next_state)
qed

section \<open>Executing a schedule\<close>

text \<open>
  The steps as functions, with what they leave open as an argument: what the database holds,
  the client's request, and whether a waiting io thread runs into its deadline.
\<close>

fun reader_next :: "('o, 'db) driver \<Rightarrow> 'db \<Rightarrow> 'o rsys \<Rightarrow> 'o rsys option" where
  "reader_next D db s =
     (case rpc s of
        R_head \<Rightarrow>
          if m_do_exit (rb s) then Some (s\<lparr>rpc := R_done\<rparr>)
          else (case query_begin D db Asc (rb s) of
                  (Inl e, b) \<Rightarrow> Some (s\<lparr>rb := b, rpc := R_crashed e\<rparr>)
                | (Inr docs, b) \<Rightarrow> Some (s\<lparr>rb := b, rpc := R_querying docs\<rparr>))
      | R_querying docs \<Rightarrow>
          (case query_end D docs (rb s) of
             (Inl e, b) \<Rightarrow> Some (s\<lparr>rb := b, rpc := R_crashed e\<rparr>)
           | (Inr cache, b) \<Rightarrow>
               Some (wake_query (s\<lparr>rb := b, rpc := R_queried cache, pages := pages s @ [cache]\<rparr>)))
      | R_queried docs \<Rightarrow>
          if docs = [] then Some (s\<lparr>rb := (rb s)\<lparr>m_reach_end := True\<rparr>, rpc := R_head\<rparr>)
          else Some (s\<lparr>rb := (rb s)\<lparr>m_reach_end := False\<rparr>, rpc := R_push docs\<rparr>)
      | R_push docs \<Rightarrow>
          if docs \<noteq> [] \<and> \<not> m_do_exit (rb s) then Some (s\<lparr>rpc := R_lock docs\<rparr>) else Some (s\<lparr>rpc := R_head\<rparr>)
      | R_lock docs \<Rightarrow>
          if length (deque_of s) < limit_of s then Some (do_push docs s)
          else Some ((wake_consumer s)\<lparr>rpc := R_wait docs\<rparr>)
      | R_woken docs \<Rightarrow> Some (do_push docs s)
      | _ \<Rightarrow> None)"

datatype io_choice = Serve_read nat | Serve_rewind | Terminate | Go_on | Deadline

fun io_next :: "io_choice \<Rightarrow> 'o rsys \<Rightarrow> 'o rsys option" where
  "io_next (Serve_read n) s = (if cpc s = C_idle \<and> 0 < n then Some (s\<lparr>cpc := C_pop n n 0\<rparr>) else None)"
| "io_next Serve_rewind s = (if cpc s = C_idle then Some (s\<lparr>rb := rewind (rb s)\<rparr>) else None)"
| "io_next Terminate s = (if cpc s = C_idle then Some (s\<lparr>rb := set_exit (rb s), cpc := C_term\<rparr>) else None)"
| "io_next Deadline s =
     (case cpc s of
        C_wait n w k \<Rightarrow> if m_read_timeout (rb s) \<noteq> 0 then Some (s\<lparr>cpc := C_timeout n k\<rparr>) else None
      | _ \<Rightarrow> None)"
| "io_next Go_on s =
     (case cpc s of
        C_term \<Rightarrow> if deque_of s \<noteq> [] then Some (s\<lparr>cpc := C_pop 1 1 0\<rparr>) else Some (s\<lparr>cpc := C_term_end\<rparr>)
      | C_term_end \<Rightarrow> if \<not> m_reach_end (rb s) then Some (s\<lparr>cpc := C_pop 1 1 0\<rparr>) else Some (s\<lparr>cpc := C_join\<rparr>)
      | C_pop n w k \<Rightarrow>
          if deque_of s \<noteq> [] then Some (do_pop n w k s) else Some ((wake_reader s)\<lparr>cpc := C_wait n w k\<rparr>)
      | C_woken n w k \<Rightarrow> Some (do_pop n w k s)
      | C_timeout n k \<Rightarrow>
          if m_querying (rb s) then Some (s\<lparr>cpc := C_query n k\<rparr>) else Some (s\<lparr>cpc := C_retry n k\<rparr>)
      | C_query n k \<Rightarrow> Some (s\<lparr>cpc := C_query_wait n k\<rparr>)
      | C_retry n k \<Rightarrow>
          if int k + 1 \<le> sint (m_read_retry (rb s)) then Some (s\<lparr>cpc := C_pop n n (k + 1)\<rparr>)
          else Some (batch_done s)
      | C_join \<Rightarrow> if rpc s = R_done then Some (s\<lparr>rb := close_broker (rb s), cpc := C_closed\<rparr>) else None
      | _ \<Rightarrow> None)"

datatype 'db move = Reader_moves 'db | Io_moves io_choice

fun schedule :: "('o, 'db) driver \<Rightarrow> 'db move list \<Rightarrow> 'o rsys \<Rightarrow> 'o rsys option" where
  "schedule D [] s = Some s"
| "schedule D (Reader_moves db # ms) s =
     (case reader_next D db s of Some s' \<Rightarrow> schedule D ms s' | None \<Rightarrow> None)"
| "schedule D (Io_moves c # ms) s = (case io_next c s of Some s' \<Rightarrow> schedule D ms s' | None \<Rightarrow> None)"

text \<open>The functions and the relations describe the same steps.\<close>

lemma reader_next_step: "reader_next D db s = Some s' \<Longrightarrow> reader_step D s s'"
  by (auto split: reader_pc.splits if_splits prod.splits sum.splits intro: reader_step.intros)

lemma reader_step_next: "reader_step D s s' \<Longrightarrow> \<exists>db. reader_next D db s = Some s'"
proof (erule reader_step.cases, goal_cases)
  case (2 s db docs b)
  then show ?case by (intro exI [of _ db]) simp
next
  case (3 s db e b)
  then show ?case by (intro exI [of _ db]) simp
qed auto

lemma io_next_step: "io_next c s = Some s' \<Longrightarrow> io_step s s'"
  by (cases c) (auto split: io_pc.splits if_splits intro: io_step.intros
      c_retry [simplified] c_term_pop [simplified] c_term_end [simplified])

lemma io_step_next: "io_step s s' \<Longrightarrow> \<exists>c. io_next c s = Some s'"
proof (erule io_step.cases, goal_cases)
  case (1 s n)
  then show ?case by (intro exI [of _ "Serve_read n"]) simp
next
  case (2 s)
  then show ?case by (intro exI [of _ Serve_rewind]) simp
next
  case (3 s)
  then show ?case by (intro exI [of _ Terminate]) simp
next
  case (10 s n w k)
  then show ?case by (intro exI [of _ Deadline]) simp
qed (intro exI [of _ Go_on], simp)+

lemma schedule_runs:
  "runs D spur s \<Longrightarrow> schedule D ms s = Some s' \<Longrightarrow> runs D spur s'"
proof (induction ms arbitrary: s)
  case (Cons m ms)
  show ?case
  proof (cases m)
    case (Reader_moves db)
    with Cons.prems obtain t where "reader_next D db s = Some t" "schedule D ms t = Some s'"
      by (auto simp del: reader_next.simps split: option.splits)
    with Cons.IH Cons.prems(1) show ?thesis
      by (meson by_reader reachable.next_state reader_next_step)
  next
    case (Io_moves c)
    with Cons.prems obtain t where "io_next c s = Some t" "schedule D ms t = Some s'"
      by (auto split: option.splits)
    with Cons.IH Cons.prems(1) show ?thesis
      by (meson by_io reachable.next_state io_next_step)
  qed
qed simp

text \<open>A broker on the documents \<open>a\<close> to \<open>d\<close> with pages of two.\<close>

definition sample_rsys :: "size_t \<Rightarrow> bson rsys" where
  "sample_rsys lim = \<lparr>rb = (new_broker sample_driver)\<lparr>m_inited := True, m_connected := True, m_limit := 2,
       m_queue := \<lparr>m_limit_size = lim, m_deque = [], m_signals = [], m_sched = []\<rparr>\<rparr>,
     rpc = R_head, cpc = C_idle, pages = [], popped = [], answered = []\<rparr>"

lemma sample_rsys_opened: "opened (sample_rsys lim)"
  by (simp add: opened_def sample_rsys_def deque_of_def new_broker_def reset_def)

lemma sample_runs: "schedule sample_driver ms (sample_rsys lim) = Some s \<Longrightarrow> runs sample_driver spur s"
  by (erule schedule_runs [rotated]) (rule reachable.start, rule sample_rsys_opened)

lemma sample_new: "new_broker sample_driver = \<lparr>
     m_queue = default_sized_queue, m_json_doc_cache = [], m_connection_string = [],
     m_docset = [], m_last_doc_id = [], m_options = [], m_host = [], m_port = 0,
     m_database = [], m_collection = [], m_limit = 0, m_skip = 0, m_queue_size = 0,
     m_read_timeout = 1, m_read_retry = 1, m_conditions = [], m_fields = [],
     m_do_exit = False, m_inited = False, m_connected = False, m_reach_end = False,
     m_has_fields = False, m_querying = False,
     m_query_doc_count = 0, m_query_count = 0, m_update_count = 0\<rparr>"
  by (simp add: new_broker_def reset_def default_broker_def sample_driver_def)
lemmas run_simps = sample_rsys_def sample_new deque_of_def limit_of_def
  set_deque_def wake_reader_def wake_consumer_def wake_query_def do_push_def do_pop_def batch_done_def
  query_begin_def query_end_def prepare_condition_def take_front_def notify_one_def move_back_eq
  sample_driver_simps sample_docs_def page_def sample_behind_def sample_obj_def sample_oid_def Asc_def Let_def set_exit_def

text \<open>Schedules on the sample broker.\<close>

abbreviation go_reader :: "bson list move" where "go_reader \<equiv> Reader_moves sample_docs"
abbreviation go_io :: "bson list move" where "go_io \<equiv> Io_moves Go_on"

lemma sample_run_pushed:
  "\<exists>s. schedule sample_driver [go_reader, go_reader, go_reader, go_reader, go_reader] (sample_rsys 1) = Some s \<and> limit_of s = 1 \<and>
     rpc s = R_push [''a''] \<and> deque_of s = [''b''] \<and> pages s = [[''a'', ''b'']] \<and> popped s = [] \<and>
     \<not> m_do_exit (rb s)"
  by (simp add: run_simps del: pc_update_simps rb_update_simps)

lemma sample_run_joining:
  "\<exists>s. schedule sample_driver [go_reader, go_reader, go_reader, go_reader, go_reader, Io_moves Terminate, go_io, go_io] (sample_rsys 1) = Some s \<and>
     limit_of s = 1 \<and> cpc s = C_join \<and> rpc s = R_push [''a''] \<and> popped s = [''b'']"
  by (simp add: run_simps del: pc_update_simps rb_update_simps)

lemma sample_run_deadlock:
  "\<exists>s. schedule sample_driver [Io_moves (Serve_read 1), go_io, go_reader, Io_moves Deadline, go_io, go_reader, go_reader, go_reader, go_reader, go_reader, go_reader, go_io]
       (sample_rsys 1) = Some s \<and> rpc s = R_wait [''a''] \<and> cpc s = C_query_wait 1 0 \<and> deque_of s = [''b'']"
  by (simp add: run_simps del: pc_update_simps rb_update_simps)

lemma sample_run_limit_0:
  "\<exists>s. schedule sample_driver [Io_moves (Serve_read 1), go_io, go_reader, go_reader, go_reader, go_reader, go_reader, go_io] (sample_rsys 0) = Some s \<and>
     cpc s = C_undefined"
  by (simp add: run_simps del: pc_update_simps rb_update_simps)

lemma sample_run_zero_join:
  "\<exists>s. schedule sample_driver [go_reader, go_reader, go_reader, go_reader, Io_moves Terminate, go_io, go_io, go_io, Io_moves Deadline,
       go_io, go_io, go_io, Io_moves Deadline, go_io, go_io, go_reader] (sample_rsys 0) = Some s \<and>
     cpc s = C_join \<and> rpc s = R_wait [''a'', ''b''] \<and> limit_of s = 0"
  by (simp add: run_simps del: pc_update_simps rb_update_simps)

lemma sample_run_waiting:
  "\<exists>s. schedule sample_driver [Io_moves (Serve_read 1), go_io] (sample_rsys 1) = Some s \<and>
     cpc s = C_wait 1 1 0 \<and> deque_of s = [] \<and> limit_of s = 1"
  by (simp add: run_simps del: pc_update_simps rb_update_simps)

section \<open>Properties\<close>

text \<open>
  C1: Until the shutdown nothing is lost, duplicated or reordered between the database and the
  clients, in any run of the reading thread and the io thread, spurious wake-ups included. What was
  popped, followed by what the queue holds, is a beginning of the documents of all pages queried so
  far, where the documents of each page come in reverse order; as long as the exit flag is not
  set and the thread runs, the rest are exactly the documents the reading thread still has to push.
  What was popped are the documents that finished read requests returned and those of a request
  that is still being served. After the exit flag is set documents may get lost: those in the hand of
  the reading thread, those left in the queue and at most one that \<open>term\<close> pops for nobody.
\<close>

theorem documents_conserved:
  assumes "runs D spur s"
  shows "(\<exists>rest. concat (map rev (pages s)) = popped s @ deque_of s @ rest \<and>
      (\<not> m_do_exit (rb s) \<and> rpc s \<noteq> R_done \<longrightarrow> rest = rev (pending (rpc s)))) \<and>
    (\<exists>others. popped s = answered s @ others \<and> (cpc s = C_idle \<longrightarrow> others = []) \<and>
      (m_do_exit (rb s) \<or> cpc s = C_closed \<longrightarrow> length others \<le> 1))"
proof -
  have "conserved s" "accounted s"
    using documents.reachable_holds [OF assms] answers.reachable_holds [OF assms] by blast+
  then show ?thesis by (fastforce simp: conserved_def accounted_def)
qed

theorem documents_conserved_witness:
  "\<exists>s. pages s = [[''a'', ''b'']] \<and> popped s = [] \<and> deque_of s = [''b''] \<and>
     concat (map rev (pages s)) = popped s @ deque_of s @ rev (pending (rpc s)) \<and> answered s = [] \<and>
     runs sample_driver False s"
proof -
  obtain s where s: "runs sample_driver False s" "rpc s = R_push [''a'']" "deque_of s = [''b'']"
      "pages s = [[''a'', ''b'']]" "popped s = []" "\<not> m_do_exit (rb s)"
    using sample_run_pushed sample_runs by blast
  from documents_conserved [OF s(1)] s show ?thesis by (intro exI [of _ s]) auto
qed

text \<open>
  A positive limit is needed for the shutdown to end: with a limit of 0, which \<open>init\<close> accepts, there is
  a run without spurious wake-ups in which \<open>term\<close> joins a reading thread that waits for room for ever.
\<close>

theorem zero_limit_join_hangs:
  "\<exists>s. runs sample_driver False s \<and> limit_of s = 0 \<and> cpc s = C_join \<and> rpc s = R_wait [''a'', ''b''] \<and>
     (\<nexists>s'. system_step sample_driver False s s')"
proof -
  obtain s where s: "runs sample_driver False s" "cpc s = C_join" "rpc s = R_wait [''a'', ''b'']" "limit_of s = 0"
    using sample_run_zero_join sample_runs by blast
  moreover have "\<not> system_step sample_driver False s s'" for s'
    using s(2,3) by (auto elim!: system_step.cases reader_step.cases io_step.cases)
  ultimately show ?thesis by blast
qed

text \<open>
  The queue never holds more than its limit, whatever the threads do, spurious wake-ups and a
  limit of 0 included.
\<close>

theorem queue_bounded:
  assumes "runs D spur s"
  shows "length (deque_of s) \<le> limit_of s"
  using documents.reachable_holds [OF assms] by (simp add: bounded_def)

theorem queue_bounded_witness:
  "\<exists>s. runs sample_driver True s \<and> deque_of s = [''b''] \<and> limit_of s = 1 \<and> length (deque_of s) \<le> limit_of s"
proof -
  obtain s where s: "runs sample_driver True s" "deque_of s = [''b'']" "limit_of s = 1"
    using sample_run_pushed sample_runs by blast
  from queue_bounded [OF s(1)] s show ?thesis by blast
qed

text \<open>
  C2: With a positive limit, one io thread and no spurious wake-ups, \<open>pop\<close> never takes the front
  of an empty deque: although it does not test the deque again after it was woken, a
  notification that reaches it always comes with a document in the deque.
\<close>

theorem pop_never_undefined:
  assumes "runs D False s" "0 < limit_of s"
  shows "cpc s \<noteq> C_undefined \<and> (\<forall>n w k. cpc s = C_woken n w k \<longrightarrow> deque_of s \<noteq> [])"
  using shutdown.reachable_holds [OF runs_positive [OF assms]] by (auto simp: orderly_def)

theorem pop_never_undefined_witness:
  "\<exists>s. runs sample_driver False s \<and> cpc s = C_wait 1 1 0 \<and> deque_of s = [] \<and> cpc s \<noteq> C_undefined"
proof -
  obtain s where s: "runs sample_driver False s" "cpc s = C_wait 1 1 0" "deque_of s = []" "limit_of s = 1"
    using sample_run_waiting sample_runs by blast
  from pop_never_undefined [OF s(1)] s show ?thesis by (intro exI [of _ s]) simp
qed

text \<open>
  C3: \<open>term\<close> never hangs in \<open>pthread_join\<close> on the reading thread. With a positive limit and no
  spurious wake-ups, when the io thread joins, the reading thread can take a step as long as
  it has not ended, and ends after at most 4 steps of its own: it is never left waiting for
  room in the queue.
\<close>

theorem join_terminates:
  assumes "runs D False s" "0 < limit_of s" "cpc s = C_join"
  shows "(\<exists>n s'. n \<le> 4 \<and> (reader_step D ^^ n) s s' \<and> reader_over s') \<and>
    (\<forall>n s'. (reader_step D ^^ n) s s' \<longrightarrow> n \<le> 4)"
proof -
  have o: "orderly s" using shutdown.reachable_holds [OF runs_positive [OF assms(1,2)]] .
  with assms(3) have f: "m_do_exit (rb s) \<and> room s" by (auto simp: orderly_def)
  have "reader_rank (rpc s) \<le> 4" by (simp add: reader_rank_def split: reader_pc.splits)
  with shutdown.run_to_finish [where D = D, OF o f] shutdown.bounded_run [where D = D, OF o f] show ?thesis
    by (meson add_leD1 le_trans)
qed

theorem join_terminates_witness:
  "\<exists>s. runs sample_driver False s \<and> cpc s = C_join \<and> rpc s = R_push [''a''] \<and>
     (\<exists>n s'. n \<le> 4 \<and> (reader_step sample_driver ^^ n) s s' \<and> reader_over s')"
proof -
  obtain s where s: "runs sample_driver False s" "limit_of s = 1" "cpc s = C_join" "rpc s = R_push [''a'']"
    using sample_run_joining sample_runs by blast
  from join_terminates [OF s(1) _ s(3)] s show ?thesis by (intro exI [of _ s]) simp
qed

text \<open>
  The three conditions of the safety of \<open>pop\<close> are needed: with a limit of 0, and with a
  spurious wake-up even for a positive limit, runs reach \<open>front()\<close> of an empty deque, because
  \<open>pop\<close> waits in an \<open>if\<close> and not in a loop.
\<close>

theorem pop_undefined_runs:
  "(\<exists>s. runs sample_driver False s \<and> cpc s = C_undefined) \<and>
   (\<exists>s. runs sample_driver True s \<and> 0 < limit_of s \<and> cpc s = C_undefined)"
proof (rule conjI)
  show "\<exists>s. runs sample_driver False s \<and> cpc s = C_undefined"
    using sample_run_limit_0 sample_runs by blast
  obtain s where s: "runs sample_driver True s" "cpc s = C_wait 1 1 0" "deque_of s = []" "limit_of s = 1"
    using sample_run_waiting sample_runs by blast
  let ?s = "s\<lparr>cpc := C_woken 1 1 0\<rparr>"
  have "runs sample_driver True ?s"
    using s(1) spurious_io [OF _ s(2), of True sample_driver] by (blast intro: reachable.next_state)
  moreover have "io_step ?s (do_pop 1 1 0 ?s)" by (rule c_woken) simp
  ultimately have "runs sample_driver True (do_pop 1 1 0 ?s)"
    by (blast intro: reachable.next_state by_io)
  with s(3,4) show "\<exists>s. runs sample_driver True s \<and> 0 < limit_of s \<and> cpc s = C_undefined"
    by (intro exI [of _ "do_pop 1 1 0 ?s"]) simp
qed

text \<open>
  The io thread can wait for ever. A run reaches a state in which no thread can take a step
  any more although documents are in the queue: \<open>batch_pop\<close> saw a query running, the query
  ended before \<open>batch_pop\<close> began to wait for that, and the reading thread now waits for room
  that only the io thread could make.
\<close>

theorem query_wait_deadlock:
  "\<exists>s. runs sample_driver False s \<and> deque_of s \<noteq> [] \<and> rpc s = R_wait [''a''] \<and> cpc s = C_query_wait 1 0 \<and>
     (\<forall>s'. \<not> system_step sample_driver False s s')"
proof -
  obtain s where s: "runs sample_driver False s" "rpc s = R_wait [''a'']" "cpc s = C_query_wait 1 0"
      "deque_of s = [''b'']"
    using sample_run_deadlock sample_runs by blast
  have "\<not> reader_step sample_driver s s'" for s'
    using s(2) by (auto dest: reader_step_next)
  moreover have "\<not> io_step s s'" for s'
  proof
    assume "io_step s s'"
    then obtain c where "io_next c s = Some s'" using io_step_next by blast
    with s(3) show False by (cases c) auto
  qed
  ultimately have "\<forall>s'. \<not> system_step sample_driver False s s'" by (auto elim: system_step.cases)
  with s show ?thesis by (intro exI [of _ s]) simp
qed

text \<open>
  A rewind during a query is lost. When \<open>rewind\<close> falls between the two halves of a query that
  returned documents, the broker afterwards is the one without the rewind, up to the flag that
  the reading thread clears in its next step anyway.
\<close>

theorem rewind_during_query_lost:
  assumes "docs \<noteq> []" "getObjectID D (last docs) = Some i"
  shows "fst (query_end D docs (rewind b)) = fst (query_end D docs b) \<and>
    m_last_doc_id (snd (query_end D docs (rewind b))) = i \<and>
    (snd (query_end D docs (rewind b)))\<lparr>m_reach_end := False\<rparr> = (snd (query_end D docs b))\<lparr>m_reach_end := False\<rparr>"
  using assms by (simp add: query_end_def rewind_def Let_def)

theorem rewind_during_query_lost_witness:
  "m_last_doc_id (snd (query_end sample_driver sample_docs (rewind (sample_reader 2 0 ''b'')))) = ''d''"
  using rewind_during_query_lost [of sample_docs sample_driver "''d''" "sample_reader 2 0 ''b''"]
  by (simp add: sample_docs_def sample_driver_simps sample_oid_def)

end
