(* ===== verification/Reader_Liveness.thy ===== *)
theory Reader_Liveness
  imports Reader_Facts
begin

text \<open>
  Where the reading thread and the io thread can get stuck: apart from the end, only in a lost
  notification of \<open>batch_pop\<close> about the end of a query, and at the shutdown of a broker with a
  timeout of 0.
\<close>

section \<open>Who can take a step\<close>

lemma reader_can_step:
  assumes "\<And>docs. rpc s \<noteq> R_wait docs" "\<not> reader_over s"
  shows "\<exists>s'. reader_step D s s'"
proof (cases "rpc s")
  case R_head
  show ?thesis
  proof (cases "m_do_exit (rb s)")
    case False
    obtain r b where "query_begin D undefined Asc (rb s) = (r, b)" by fastforce
    with R_head False show ?thesis by (cases r) (auto intro: r_query r_query_throws)
  qed (use R_head in \<open>auto intro: r_exit\<close>)
next
  case (R_querying docs)
  obtain r b where "query_end D docs (rb s) = (r, b)" by fastforce
  with R_querying show ?thesis by (cases r) (auto intro: r_query_end r_query_end_throws)
next
  case (R_queried docs)
  then show ?thesis by (cases "docs = []") (auto intro: r_nothing r_documents)
next
  case (R_push docs)
  then show ?thesis by (cases "docs = [] \<or> m_do_exit (rb s)") (auto intro: r_loop r_loop_end)
next
  case (R_lock docs)
  then show ?thesis by (cases "length (deque_of s) < limit_of s") (auto simp: not_less intro: r_room r_full)
qed (use assms in \<open>auto simp: reader_over_def intro: r_woken\<close>)

lemma io_can_step:
  assumes "cpc s \<noteq> C_closed" "cpc s \<noteq> C_undefined" "cpc s = C_join \<Longrightarrow> rpc s = R_done"
    "\<And>n k. cpc s \<noteq> C_query_wait n k" "\<And>n w k. cpc s = C_wait n w k \<Longrightarrow> m_read_timeout (rb s) \<noteq> 0"
  shows "\<exists>s'. io_step s s'"
proof (cases "cpc s")
  case C_idle
  then show ?thesis by (intro exI) (rule c_rewind)
next
  case (C_pop n w k)
  then show ?thesis by (cases "deque_of s = []") (auto intro: c_pop c_empty)
next
  case (C_timeout n k)
  then show ?thesis by (cases "m_querying (rb s)") (auto intro: c_querying c_not_querying)
next
  case (C_retry n k)
  then show ?thesis
    by (cases "int k + 1 \<le> sint (m_read_retry (rb s))") (blast intro: c_retry c_give_up)+
next
  case C_term
  then show ?thesis by (cases "deque_of s = []") (auto intro: c_term_pop c_term_empty)
next
  case C_term_end
  then show ?thesis by (cases "m_reach_end (rb s)") (auto intro: c_term_end c_term_join)
qed (use assms in \<open>auto intro: c_deadline c_woken c_query_wait c_join\<close>)

section \<open>The io thread waits on an empty deque only\<close>

definition patient :: "'o rsys \<Rightarrow> bool" where
  "patient s \<longleftrightarrow> orderly s \<and> (\<forall>n w k. cpc s = C_wait n w k \<longrightarrow> deque_of s = [])"

lemma woken_consumer_not_waiting [simp]: "woken_consumer c \<noteq> C_wait n w k" "(woken_query c = C_wait n w k) = (c = C_wait n w k)"
  by (auto simp: woken_consumer_def woken_query_def split: io_pc.splits)

lemma patient_push: "orderly (do_push docs s) \<Longrightarrow> patient (do_push docs s)"
  by (cases "move_back (limit_of s) (deque_of s) docs") (simp add: patient_def do_push_fields)

lemma patient_pop: "orderly (do_pop n w k s) \<Longrightarrow> patient (do_pop n w k s)"
  by (cases "deque_of s") (simp_all add: patient_def do_pop_fields)

lemma patient_step:
  assumes "system_step D False s s'" "patient s"
  shows "patient s'"
proof -
  have o: "orderly s'" using assms by (auto simp: patient_def intro: orderly_step)
  from assms(1) show ?thesis
  proof cases
    case by_reader
    then show ?thesis
    proof cases
      case r_query
      with o assms(2) query_begin_frame [OF r_query(4)] show ?thesis by (auto simp: patient_def)
    next
      case r_query_throws
      with o assms(2) query_begin_frame [OF r_query_throws(4)] show ?thesis by (auto simp: patient_def)
    next
      case r_query_end
      with o assms(2) query_end_frame [OF r_query_end(3)] show ?thesis by (auto simp: patient_def wake_eq)
    next
      case r_query_end_throws
      with o assms(2) query_end_frame [OF r_query_end_throws(3)] show ?thesis by (auto simp: patient_def)
    next
      case r_full
      with o show ?thesis by (auto simp: patient_def wake_eq)
    qed (use o assms(2) in \<open>auto simp: patient_push, auto simp: patient_def\<close>)
  next
    case by_io
    then show ?thesis
      using o assms(2)
      by cases (auto simp: patient_pop, auto simp: patient_def wake_eq batch_done_def)
  qed simp_all
qed

lemma patient_start: "opened s \<Longrightarrow> 0 < limit_of s \<Longrightarrow> patient s"
  by (simp add: patient_def orderly_opened) (simp add: opened_def)

interpretation patience: step_invariant "\<lambda>s. opened s \<and> 0 < limit_of s" "system_step D False" patient
  for D :: "('o, 'db) driver"
  by unfold_locales (auto intro: patient_start patient_step)

section \<open>A shutdown that hangs\<close>

definition sample_rsys_0 :: "bson rsys" where
  "sample_rsys_0 = (sample_rsys 1)\<lparr>rb := (rb (sample_rsys 1))\<lparr>m_read_timeout := 0\<rparr>\<rparr>"

lemma sample_runs_0:
  assumes "schedule sample_driver ms sample_rsys_0 = Some s" shows "runs sample_driver spur s"
proof -
  have "opened sample_rsys_0"
    by (simp add: sample_rsys_0_def opened_def sample_rsys_def deque_of_def new_broker_def reset_def)
  then show ?thesis using assms by (blast intro: schedule_runs reachable.start)
qed

lemma sample_run_hanging:
  "\<exists>s. schedule sample_driver [Io_moves Terminate, go_io, go_io, go_io, go_reader] sample_rsys_0 = Some s \<and>
     limit_of s = 1 \<and> rpc s = R_done \<and> cpc s = C_wait 1 1 0 \<and> m_read_timeout (rb s) = 0 \<and> m_do_exit (rb s)"
  by (simp add: sample_rsys_0_def run_simps del: pc_update_simps rb_update_simps)

lemma no_step:
  assumes "\<exists>docs. rpc s = R_wait docs \<or> rpc s = R_done"
    "(\<exists>n k. cpc s = C_query_wait n k) \<or> (\<exists>n w k. cpc s = C_wait n w k) \<and> m_read_timeout (rb s) = 0"
  shows "\<nexists>s'. system_step D False s s'"
proof
  assume "\<exists>s'. system_step D False s s'"
  then obtain s' where "reader_step D s s' \<or> io_step s s'" by (auto elim: system_step.cases)
  then show False
  proof
    assume "reader_step D s s'"
    then obtain db where "reader_next D db s = Some s'" using reader_step_next by blast
    with assms(1) show False by auto
  next
    assume "io_step s s'"
    then obtain c where "io_next c s = Some s'" using io_step_next by blast
    with assms(2) show False by (cases c) (auto split: if_splits)
  qed
qed

section \<open>Properties\<close>

text \<open>
  C40: Where the threads of a read broker can be stuck. With a positive limit and no spurious
  wake-ups, in a reachable state from which no step is possible the processor is closed, or the
  reading thread failed with an exception, or the io thread waits in \<open>batch_pop\<close> for the end of
  a query while the reading thread waits for room or has ended, or it waits without a deadline
  (\<open>read_timeout\<close> 0) for a document of a reading thread that has ended. There is no other deadlock.
\<close>

theorem stuck_states:
  assumes "runs D False s" "0 < limit_of s" "\<nexists>s'. system_step D False s s'"
  shows "cpc s = C_closed \<or> (\<exists>e. rpc s = R_crashed e) \<or>
    ((\<exists>n k. cpc s = C_query_wait n k) \<and> ((\<exists>docs. rpc s = R_wait docs) \<or> rpc s = R_done)) \<or>
    ((\<exists>n w k. cpc s = C_wait n w k) \<and> m_read_timeout (rb s) = 0 \<and> rpc s = R_done)"
proof -
  have p: "patient s" by (rule patience.reachable_holds [where D = D]) (rule runs_positive [OF assms(1,2)])
  then have o: "orderly s" by (simp add: patient_def)
  have r: "(\<exists>docs. rpc s = R_wait docs) \<or> rpc s = R_done \<or> (\<exists>e. rpc s = R_crashed e)"
    using assms(3) reader_can_step [of s D] by (auto simp: reader_over_def intro: by_reader)
  have i: "cpc s = C_closed \<or> (cpc s = C_join \<and> rpc s \<noteq> R_done) \<or> (\<exists>n k. cpc s = C_query_wait n k) \<or>
      ((\<exists>n w k. cpc s = C_wait n w k) \<and> m_read_timeout (rb s) = 0)"
    using assms(3) io_can_step [of s] o by (fastforce simp: orderly_def intro: by_io)
  have "\<not> (cpc s = C_join \<and> (\<exists>docs. rpc s = R_wait docs))"
    using o by (auto simp: orderly_def room_def)
  moreover have "\<not> ((\<exists>n w k. cpc s = C_wait n w k) \<and> (\<exists>docs. rpc s = R_wait docs))"
    using p o by (auto simp: patient_def orderly_def)
  ultimately show ?thesis using r i by blast
qed

theorem stuck_states_witness:
  "\<exists>s. runs sample_driver False s \<and> (\<nexists>s'. system_step sample_driver False s s') \<and> cpc s \<noteq> C_closed \<and>
     (\<exists>n w k. cpc s = C_wait n w k) \<and> m_read_timeout (rb s) = 0 \<and> rpc s = R_done"
proof -
  obtain s where s: "runs sample_driver False s" "limit_of s = 1" "rpc s = R_done" "cpc s = C_wait 1 1 0"
      "m_read_timeout (rb s) = 0"
    using sample_run_hanging sample_runs_0 by blast
  have n: "\<nexists>s'. system_step sample_driver False s s'" using s by (intro no_step) auto
  from stuck_states [OF s(1) _ n] s n show ?thesis by (intro exI [of _ s]) auto
qed

text \<open>
  A \<open>read_timeout\<close> of 0, which \<open>init\<close> accepts, lets the shutdown hang: there is a run in which
  \<open>term\<close> waits for a document without a deadline, the reading thread sees the exit flag and
  ends, and no thread can go on.
\<close>

theorem zero_timeout_hangs:
  "\<exists>s. runs sample_driver False s \<and> 0 < limit_of s \<and> m_read_timeout (rb s) = 0 \<and> m_do_exit (rb s) \<and>
     rpc s = R_done \<and> cpc s = C_wait 1 1 0 \<and> (\<nexists>s'. system_step sample_driver False s s')"
proof -
  obtain s where s: "runs sample_driver False s" "limit_of s = 1" "rpc s = R_done" "cpc s = C_wait 1 1 0"
      "m_read_timeout (rb s) = 0" "m_do_exit (rb s)"
    using sample_run_hanging sample_runs_0 by blast
  have n: "\<nexists>s'. system_step sample_driver False s s'" using s by (intro no_step) auto
  with s show ?thesis by (intro exI [of _ s]) auto
qed

end
