(* ===== verification/Reader_Batches.thy ===== *)
theory Reader_Batches
  imports Reader_Liveness
begin

text \<open>
  \<open>batch_pop\<close> ends: in every interleaving with the reading thread a batch takes a bounded number of
  moves of the io thread, and the io thread finishes it alone unless a query is in progress.
\<close>

section \<open>The rank of a batch\<close>

text \<open>
  A round of a batch of \<open>n\<close> takes at most three moves per document and seven around them;
  \<open>r\<close> is \<open>m_read_retry\<close>, which bounds the rounds.
\<close>

definition rounds :: "int \<Rightarrow> nat \<Rightarrow> nat \<Rightarrow> nat" where
  "rounds r n k = nat (r - int k) * (3 * n + 7)"

fun batch_rank :: "int \<Rightarrow> io_pc \<Rightarrow> nat" where
  "batch_rank r (C_pop n w k) = rounds r n k + 3 * w + 5"
| "batch_rank r (C_wait n w k) = rounds r n k + 3 * w + 4"
| "batch_rank r (C_woken n w k) = rounds r n k + 3 * w + 3"
| "batch_rank r (C_timeout n k) = rounds r n k + 4"
| "batch_rank r (C_query n k) = rounds r n k + 3"
| "batch_rank r (C_query_wait n k) = rounds r n k + 2"
| "batch_rank r (C_retry n k) = rounds r n k + 1"
| "batch_rank r _ = 0"

text \<open>In a batch; and in a batch with at least one pop to go.\<close>

definition in_batch :: "'o rsys \<Rightarrow> bool" where
  "in_batch s \<longleftrightarrow> 0 < batch_rank 0 (cpc s)"

fun well_counted :: "io_pc \<Rightarrow> bool" where
  "well_counted (C_pop n w k) \<longleftrightarrow> 0 < n \<and> 0 < w"
| "well_counted (C_wait n w k) \<longleftrightarrow> 0 < n \<and> 0 < w"
| "well_counted (C_woken n w k) \<longleftrightarrow> 0 < n \<and> 0 < w"
| "well_counted (C_timeout n k) \<longleftrightarrow> 0 < n"
| "well_counted (C_query n k) \<longleftrightarrow> 0 < n"
| "well_counted (C_query_wait n k) \<longleftrightarrow> 0 < n"
| "well_counted (C_retry n k) \<longleftrightarrow> 0 < n"
| "well_counted _ \<longleftrightarrow> True"

abbreviation rank_of :: "'o rsys \<Rightarrow> nat" where
  "rank_of s \<equiv> batch_rank (sint (m_read_retry (rb s))) (cpc s)"

lemma rounds_next: "int k + 1 \<le> r \<Longrightarrow> rounds r n k = rounds r n (k + 1) + (3 * n + 7)"
proof -
  assume "int k + 1 \<le> r"
  then have "nat (r - int k) = Suc (nat (r - int (k + 1)))" by simp
  then show ?thesis by (simp add: rounds_def)
qed

section \<open>Steps\<close>

lemma retry_kept [frame]:
  "query_begin D db dir b = (r, b') \<Longrightarrow> m_read_retry b' = m_read_retry b"
  "query_end D docs b = (r', b') \<Longrightarrow> m_read_retry b' = m_read_retry b"
  by (auto simp: query_begin_def query_end_def andthen_def Let_def split: prod.splits sum.splits if_splits option.splits)

lemma do_push_retry: "m_read_retry (rb (do_push docs s)) = m_read_retry (rb s)"
  by (simp add: do_push_def wake_eq set_deque_def split: prod.split)

lemma do_pop_retry: "m_read_retry (rb (do_pop n w k s)) = m_read_retry (rb s)"
  by (simp add: do_pop_def wake_eq batch_done_def Let_def split: prod.split sum.split)

lemma do_push_pc: "cpc (do_push docs s) = woken_consumer (cpc s)"
  by (cases "move_back (limit_of s) (deque_of s) docs") (simp add: do_push_fields)

text \<open>Being woken lowers the rank of a waiting io thread and nothing else.\<close>

lemma woken_rank:
  "woken_consumer c = c \<or> batch_rank r (woken_consumer c) < batch_rank r c"
  "woken_query c = c \<or> batch_rank r (woken_query c) < batch_rank r c"
  by (cases c; simp add: woken_consumer_def woken_query_def)+

lemma woken_counted:
  "well_counted (woken_consumer c) = well_counted c" "well_counted (woken_query c) = well_counted c"
  by (cases c; simp add: woken_consumer_def woken_query_def)+

lemma reader_step_batch:
  assumes "reader_step D s s'"
  shows "m_read_retry (rb s') = m_read_retry (rb s) \<and> (cpc s' = cpc s \<or> rank_of s' < rank_of s) \<and>
    well_counted (cpc s') = well_counted (cpc s)"
proof -
  have "m_read_retry (rb s') = m_read_retry (rb s) \<and>
      (cpc s' = cpc s \<or> cpc s' = woken_consumer (cpc s) \<or> cpc s' = woken_query (cpc s))"
    using assms
    by cases (auto simp: do_push_retry do_push_pc wake_eq dest: retry_kept)
  then show ?thesis using woken_rank [of "cpc s" "sint (m_read_retry (rb s))"] woken_counted [of "cpc s"] by auto
qed

lemma do_pop_pc: "cpc (do_pop n w k s) = C_undefined \<or>
    cpc (do_pop n w k s) = (if w \<le> 1 then if m_do_exit (rb s) then C_join else C_idle else C_pop n (w - 1) k)"
  by (cases "deque_of s") (simp_all add: do_pop_fields)

lemma io_step_batch:
  assumes "io_step s s'" "well_counted (cpc s)"
  shows "well_counted (cpc s') \<and> (in_batch s \<longrightarrow> rank_of s' < rank_of s \<and> m_read_retry (rb s') = m_read_retry (rb s))"
  using assms(1)
proof cases
  case (c_pop n w k)
  with assms(2) do_pop_pc [of n w k s] show ?thesis by (auto simp: do_pop_retry)
next
  case (c_woken n w k)
  with assms(2) do_pop_pc [of n w k s] show ?thesis by (auto simp: do_pop_retry)
next
  case (c_retry n k)
  then show ?thesis using rounds_next [of k "sint (m_read_retry (rb s))" n] assms(2) by simp
qed (use assms(2) in \<open>auto simp: in_batch_def wake_eq batch_done_def\<close>)

lemma system_step_batch:
  assumes "system_step D spur s s'" "well_counted (cpc s)"
  shows "well_counted (cpc s') \<and> (in_batch s \<longrightarrow> cpc s' = cpc s \<and> rank_of s' = rank_of s \<or> rank_of s' < rank_of s)"
  using assms(1)
proof cases
  case by_reader
  from reader_step_batch [OF this] assms(2) show ?thesis by auto
next
  case by_io
  from io_step_batch [OF this assms(2)] show ?thesis by auto
qed (use assms(2) in auto)

interpretation counts: step_invariant opened "system_step D spur" "\<lambda>s. well_counted (cpc s)" for D :: "('o, 'db) driver" and spur
  by unfold_locales (auto simp: opened_def dest: system_step_batch)

section \<open>Batches in all interleavings\<close>

text \<open>The moves of the io thread on a path: the places it changes to.\<close>

fun io_moves :: "'o rsys list \<Rightarrow> nat" where
  "io_moves (s # s' # ss) = (if cpc s' = cpc s then 0 else 1) + io_moves (s' # ss)"
| "io_moves _ = 0"

lemma io_moves_rank:
  "successively (system_step D spur) (s # ss) \<Longrightarrow> well_counted (cpc s) \<Longrightarrow> list_all in_batch (butlast (s # ss)) \<Longrightarrow>
    io_moves (s # ss) \<le> rank_of s"
proof (induction ss arbitrary: s)
  case (Cons s' ss)
  have "system_step D spur s s'" "in_batch s" using Cons.prems by auto
  with system_step_batch [OF _ Cons.prems(2)] have st: "well_counted (cpc s')"
      "cpc s' = cpc s \<and> rank_of s' = rank_of s \<or> rank_of s' < rank_of s" by blast+
  moreover have "io_moves (s' # ss) \<le> rank_of s'" using Cons st(1) by simp
  ultimately show ?case by auto
qed simp

section \<open>A batch alone\<close>

definition serving :: "'o rsys \<Rightarrow> bool" where
  "serving s \<longleftrightarrow> m_read_timeout (rb s) \<noteq> 0 \<and> \<not> m_querying (rb s) \<and>
     (cpc s \<in> {C_idle, C_join} \<or> in_batch s \<and> (\<forall>n k. cpc s \<noteq> C_query n k \<and> cpc s \<noteq> C_query_wait n k))"

definition batch_step :: "'o rsys \<Rightarrow> 'o rsys \<Rightarrow> bool" where
  "batch_step s s' \<longleftrightarrow> in_batch s \<and> io_step s s'"

lemma do_pop_broker: "m_read_timeout (rb (do_pop n w k s)) = m_read_timeout (rb s) \<and>
    m_querying (rb (do_pop n w k s)) = m_querying (rb s)"
  by (simp add: do_pop_def wake_eq batch_done_def Let_def split: prod.split sum.split)

lemma in_batch_simps [simp]:
  "cpc s = C_pop n w k \<Longrightarrow> in_batch s" "cpc s = C_wait n w k \<Longrightarrow> in_batch s" "cpc s = C_woken n w k \<Longrightarrow> in_batch s"
  "cpc s = C_timeout n k \<Longrightarrow> in_batch s" "cpc s = C_retry n k \<Longrightarrow> in_batch s"
  "cpc s = C_idle \<Longrightarrow> \<not> in_batch s" "cpc s = C_join \<Longrightarrow> \<not> in_batch s"
  by (simp_all add: in_batch_def)

lemma batch_serving_step:
  assumes "orderly s" "serving s" "batch_step s s'"
  shows "serving s'"
proof -
  have s: "in_batch s" "io_step s s'" "m_read_timeout (rb s) \<noteq> 0" "\<not> m_querying (rb s)"
    using assms(2,3) by (auto simp: serving_def batch_step_def)
  have pop: "serving (do_pop n w k s)" if "deque_of s \<noteq> []" for n w k
    using that s(3,4) do_pop_broker [of n w k s] by (cases "deque_of s") (auto simp: serving_def do_pop_fields)
  from s(2) show ?thesis
  proof cases
    case (c_woken n w k)
    with assms(1) have "deque_of s \<noteq> []" by (auto simp: orderly_def)
    with c_woken pop show ?thesis by simp
  qed (use s assms(2) pop in \<open>auto simp: serving_def wake_eq batch_done_def in_batch_def\<close>)
qed

interpretation batches: ranked_thread "\<lambda>s. opened s \<and> 0 < limit_of s" "system_step D False"
    "\<lambda>s. orderly s \<and> well_counted (cpc s)" batch_step serving "\<lambda>s. cpc s \<in> {C_idle, C_join}" rank_of
  for D :: "('o, 'db) driver"
proof
  show "opened s \<and> 0 < limit_of s \<Longrightarrow> orderly s \<and> well_counted (cpc s)" for s :: "'o rsys"
    by (simp add: orderly_opened opened_def)
  show "orderly s' \<and> well_counted (cpc s')" if "orderly s \<and> well_counted (cpc s)" "system_step D False s s'" for s s' :: "'o rsys"
    using that orderly_step system_step_batch by blast
  show "system_step D False s s'" if "batch_step s s'" for s s' :: "'o rsys"
    using that by (auto simp: batch_step_def intro: by_io)
  show "serving s' \<and> rank_of s' < rank_of s"
    if "orderly s \<and> well_counted (cpc s)" "serving s" "batch_step s s'" for s s' :: "'o rsys"
    using that batch_serving_step io_step_batch by (auto simp: batch_step_def)
  show "\<exists>s'. batch_step s s'" if "orderly s \<and> well_counted (cpc s)" "serving s" "cpc s \<notin> {C_idle, C_join}" for s :: "'o rsys"
  proof -
    from that have "in_batch s" "\<exists>s'. io_step s s'"
      by (auto simp: serving_def orderly_def in_batch_def intro!: io_can_step)
    then show ?thesis by (auto simp: batch_step_def)
  qed
qed

section \<open>Properties\<close>

text \<open>
  C4: Every batch is bounded. In every run of the reading thread and the io thread, with or without
  spurious wake-ups, from the start of a batch of \<open>n\<close> on and as long as it lasts, the io thread
  moves at most \<open>(retry + 1) * (3 * n + 7)\<close> times, whatever the reading thread does in between.
\<close>

theorem batch_bounded:
  assumes "runs D spur s" "cpc s = C_pop n n 0"
    "successively (system_step D spur) (s # ss)" "list_all in_batch (butlast (s # ss))"
  shows "io_moves (s # ss) \<le> (nat (sint (m_read_retry (rb s))) + 1) * (3 * n + 7)"
proof -
  have "io_moves (s # ss) \<le> rank_of s"
    by (rule io_moves_rank [OF assms(3) counts.reachable_holds [OF assms(1)] assms(4)])
  with assms(2) show ?thesis by (simp add: rounds_def add_mult_distrib)
qed

text \<open>
  C5: Every batch is served. With a positive limit, a \<open>read_timeout\<close> other than 0 and no spurious
  wake-ups, an io thread that starts a batch while no query is in progress can finish it alone:
  within \<open>(retry + 1) * (3 * n + 7)\<close> moves of its own it is back at its clients (or, in \<open>term\<close>, at
  the join), even if the reading thread never moves again.
\<close>

theorem batch_served:
  assumes "runs D False s" "0 < limit_of s" "cpc s = C_pop n n 0" "m_read_timeout (rb s) \<noteq> 0" "\<not> m_querying (rb s)"
  shows "\<exists>m s'. m \<le> (nat (sint (m_read_retry (rb s))) + 1) * (3 * n + 7) \<and> (batch_step ^^ m) s s' \<and>
    cpc s' \<in> {C_idle, C_join}"
proof -
  have r: "orderly s \<and> well_counted (cpc s)"
    by (rule batches.reachable_holds [OF runs_positive [OF assms(1,2)]])
  have "serving s" using assms(3-5) by (simp add: serving_def)
  from batches.run_to_finish [OF r this] obtain m s' where
    "m \<le> rank_of s" "(batch_step ^^ m) s s'" "cpc s' \<in> {C_idle, C_join}" by blast
  moreover have "rank_of s \<le> (nat (sint (m_read_retry (rb s))) + 1) * (3 * n + 7)"
    using assms(3) by (simp add: rounds_def add_mult_distrib)
  ultimately show ?thesis using le_trans by blast
qed

lemma sample_run_serving:
  "\<exists>s. schedule sample_driver [Io_moves (Serve_read 1)] (sample_rsys 1) = Some s \<and> cpc s = C_pop 1 1 0 \<and>
     deque_of s = [] \<and> limit_of s = 1 \<and> m_read_timeout (rb s) = 1 \<and> \<not> m_querying (rb s) \<and> m_read_retry (rb s) = 1"
  by (simp add: run_simps del: pc_update_simps rb_update_simps)

theorem batch_bounded_witness:
  "\<exists>s s'. runs sample_driver False s \<and> cpc s = C_pop 1 1 0 \<and> system_step sample_driver False s s' \<and>
     io_moves [s, s'] = 1 \<and> io_moves [s, s'] \<le> 20"
proof -
  obtain s where s: "runs sample_driver False s" "cpc s = C_pop 1 1 0" "deque_of s = []" "m_read_retry (rb s) = 1"
    using sample_run_serving sample_runs by blast
  let ?s' = "(wake_reader s)\<lparr>cpc := C_wait 1 1 0\<rparr>"
  have st: "system_step sample_driver False s ?s'" using c_empty [OF s(2,3)] by (rule by_io)
  have "io_moves [s, ?s'] \<le> (nat (sint (m_read_retry (rb s))) + 1) * (3 * 1 + 7)"
    by (rule batch_bounded [OF s(1,2)]) (use st s(2) in simp_all)
  with s st show ?thesis by (intro exI [of _ s] exI [of _ ?s']) simp
qed

theorem batch_served_witness:
  "\<exists>s m s'. runs sample_driver False s \<and> cpc s = C_pop 1 1 0 \<and> m \<le> 20 \<and> (batch_step ^^ m) s s' \<and>
     cpc s' \<in> {C_idle, C_join}"
proof -
  obtain s where s: "runs sample_driver False s" "cpc s = C_pop 1 1 0" "limit_of s = 1" "m_read_timeout (rb s) = 1"
      "\<not> m_querying (rb s)" "m_read_retry (rb s) = 1"
    using sample_run_serving sample_runs by blast
  from batch_served [OF s(1) _ s(2) _ s(5)] s show ?thesis by (intro exI [of _ s]) simp
qed

end
