(* ===== verification/Packet.thy ===== *)
theory Packet
  imports C_Library
begin

text \<open>
  Packets (\<^verbatim>\<open>src/src/request_packet.hpp\<close>, \<^verbatim>\<open>src/src/request_packet.cc\<close>): a 16 byte decimal
  header with the length of what follows, then a 32 byte packet id, then a JSON body.
  \<open>out_packet\<close> writes them, \<open>packet_header\<close> and \<open>in_packet\<close> read them.
\<close>

definition packet_id_length :: nat where "packet_id_length = 32"
definition header_length :: nat where "header_length = 16"
definition max_body_length :: nat where "max_body_length = 1024 * 1024 * 10"

lemmas packet_consts = packet_id_length_def header_length_def max_body_length_def

section \<open>The header\<close>

text \<open>\<open>m_header\<close> is the whole array of \<open>header_length + 1\<close> characters.\<close>

record packet_header =
  m_header :: string
  m_body_length :: size_t

text \<open>The constructor sets the last character only; the others keep what memory held.\<close>

definition new_packet_header :: "(nat \<Rightarrow> char) \<Rightarrow> packet_header" where
  "new_packet_header junk =
     \<lparr>m_header = (map junk [0..<header_length + 1])[header_length := NUL], m_body_length = 0\<rparr>"

text \<open>A write of some bytes at the start of \<open>buffer()\<close>.\<close>

definition fill_buffer :: "string \<Rightarrow> packet_header \<Rightarrow> packet_header" where
  "fill_buffer bytes h = h\<lparr>m_header := bytes @ drop (length bytes) (m_header h)\<rparr>"

definition decode :: "packet_header \<Rightarrow> packet_header" where
  "decode h = h\<lparr>m_body_length := int_to_size (atoi (c_str (m_header h)))\<rparr>"

section \<open>Incoming packets\<close>

text \<open>
  The allocator is the environment's: what a fresh array holds and which requests it can
  satisfy.
\<close>

record memory =
  junk :: "nat \<Rightarrow> char"
  can_alloc :: "size_t \<Rightarrow> bool"

text \<open>
  Documented behaviour of the allocator: an empty array can be had, and no array is larger
  than half the address space.
\<close>

definition memory_ok :: "memory \<Rightarrow> bool" where
  "memory_ok mem \<longleftrightarrow> can_alloc mem 0 \<and> (\<forall>n. 2 ^ 63 \<le> unat n \<longrightarrow> \<not> can_alloc mem n)"

record in_packet =
  in_header :: packet_header
  in_packet_id :: string
  m_raw :: "string option"

definition new_in_packet :: "(nat \<Rightarrow> char) \<Rightarrow> in_packet" where
  "new_in_packet j = \<lparr>in_header = new_packet_header j, in_packet_id = '''', m_raw = None\<rparr>"

text \<open>
  \<open>reserve\<close> frees the old array, allocates \<open>size + 1\<close> characters (a sum of \<open>size_t\<close>)
  and writes a NUL at index \<open>size\<close>. With \<open>size = ULONG_MAX\<close> the array is empty.
\<close>

definition reserve :: "memory \<Rightarrow> size_t \<Rightarrow> in_packet \<Rightarrow> (in_packet, unit) outcome" where
  "reserve mem sz p =
     (let p0 = p\<lparr>m_raw := None\<rparr>; n = sz + 1
      in if \<not> can_alloc mem n then (Inl (Std_exception ''std::bad_alloc''), p0)
         else if unat sz < unat n
         then (Inr (), p0\<lparr>m_raw := Some (map (junk mem) [0..<unat sz] @ [NUL])\<rparr>)
         else (Inl Undefined, p0))"

text \<open>A write of some bytes at the start of the reserved array.\<close>

definition fill_raw :: "string \<Rightarrow> in_packet \<Rightarrow> in_packet" where
  "fill_raw bytes p = p\<lparr>m_raw := map_option (\<lambda>raw. bytes @ drop (length bytes) raw) (m_raw p)\<rparr>"

text \<open>\<open>body()\<close> as its callers use it: the C string that starts after the packet id.\<close>

definition body :: "in_packet \<Rightarrow> fault + string" where
  "body p = (case m_raw p of None \<Rightarrow> Inl Undefined | Some raw \<Rightarrow> c_str_at raw packet_id_length)"

definition packet_length :: "in_packet \<Rightarrow> size_t" where
  "packet_length p = m_body_length (in_header p) + size_of_nat header_length"

text \<open>\<open>unpack()\<close> without arguments reads the packet id from the reserved array.\<close>

definition unpack_id :: "in_packet \<Rightarrow> (in_packet, unit) outcome" where
  "unpack_id p =
     (case m_raw p of
        None \<Rightarrow> (Inl Undefined, p)
      | Some raw \<Rightarrow>
          if packet_id_length \<le> length raw
          then (Inr (), p\<lparr>in_packet_id := take packet_id_length raw\<rparr>)
          else (Inl Undefined, p))"

text \<open>
  \<open>unpack(raw, unpack_only)\<close> copies from an array of the caller; each copy must stay inside
  the array.
\<close>

definition unpack :: "memory \<Rightarrow> string \<Rightarrow> bool \<Rightarrow> in_packet \<Rightarrow> (in_packet, unit) outcome" where
  "unpack mem raw unpack_only p =
     (if length raw < header_length then (Inl Undefined, p)
      else
        let p1 = p\<lparr>in_header := decode (fill_buffer (take header_length raw) (in_header p))\<rparr>;
            body_len = m_body_length (in_header p1);
            rest = drop header_length raw
        in if length rest < packet_id_length then (Inl Undefined, p1)
           else
             let p2 = p1\<lparr>in_packet_id := take packet_id_length rest\<rparr>
             in if unpack_only then (Inr (), p2)
                else andthen (reserve mem body_len p2) (\<lambda>_ p3.
                       if length rest < unat body_len then (Inl Undefined, p3)
                       else (Inr (), fill_raw (take (unat body_len) rest) p3)))"

text \<open>The constructor from an array ignores the size it is given.\<close>

definition in_packet_of :: "memory \<Rightarrow> string \<Rightarrow> size_t \<Rightarrow> (in_packet, unit) outcome" where
  "in_packet_of mem raw sz = unpack mem raw False (new_in_packet (junk mem))"

section \<open>Outgoing packets\<close>

record out_packet =
  out_packet_id :: string
  m_body :: string
  m_data :: string
  m_packed :: bool

definition new_out_packet :: out_packet where
  "new_out_packet = \<lparr>out_packet_id = '''', m_body = '''', m_data = '''', m_packed = False\<rparr>"

definition set_packet_id :: "string \<Rightarrow> out_packet \<Rightarrow> out_packet" where
  "set_packet_id i p = p\<lparr>out_packet_id := i\<rparr>"

definition set_body :: "string \<Rightarrow> out_packet \<Rightarrow> out_packet" where
  "set_body b p = p\<lparr>m_body := b\<rparr>"

definition out_length :: "out_packet \<Rightarrow> size_t" where
  "out_length p = size_of_nat (length (m_data p))"

text \<open>
  \<open>pack\<close> prints through an array of 256 characters: first the length of body and id with
  \<open>"%16ld"\<close>, then the id with \<open>"%32s"\<close>.
\<close>

definition pack :: "out_packet \<Rightarrow> (out_packet, string) outcome" where
  "pack p =
     (let total_size = size_of_nat (length (m_body p)) + size_of_nat packet_id_length
      in case sprintf_into 256 (pad_left 16 (show_int (sint total_size))) of
           Inl e \<Rightarrow> (Inl e, p)
         | Inr tmp \<Rightarrow>
             (case sprintf_into 256 (pad_left 32 (c_str (out_packet_id p))) of
                Inl e \<Rightarrow> (Inl e, p)
              | Inr i \<Rightarrow>
                  (let p' = p\<lparr>out_packet_id := i, m_data := tmp @ i @ m_body p\<rparr>
                   in (Inr (m_data p'), p'))))"

section \<open>What \<open>pack\<close> writes\<close>

text \<open>The bytes of a packet with this id and body.\<close>

definition frame_of :: "string \<Rightarrow> string \<Rightarrow> string" where
  "frame_of i b = pad_left 16 (show_nat (length b + packet_id_length)) @ pad_left 32 i @ b"

lemma show_total_size:
  assumes "n + 32 < 2 ^ 63"
  shows "show_int (sint (size_of_nat n + size_of_nat packet_id_length)) = show_nat (n + 32)"
proof -
  have "size_of_nat n + size_of_nat packet_id_length = word_of_int (int (n + 32))"
    by (simp add: size_of_nat_def packet_id_length_def)
  moreover have "sint (word_of_int (int (n + 32)) :: size_t) = int (n + 32)"
    using assms by (intro sint_size_of_int) auto
  ultimately show ?thesis
    by (simp only: show_int_int)
qed

lemma length_show_size: "n < 2 ^ 63 \<Longrightarrow> length (show_nat n) \<le> 19"
  by (rule length_show_nat) auto

lemma pack_frame:
  assumes "NUL \<notin> set (out_packet_id p)" "length (out_packet_id p) < 256"
    "length (m_body p) + 32 < 2 ^ 63"
  shows "pack p = (Inr (frame_of (out_packet_id p) (m_body p)),
           p\<lparr>out_packet_id := pad_left 32 (out_packet_id p),
             m_data := frame_of (out_packet_id p) (m_body p)\<rparr>)"
proof -
  have "length (show_nat (length (m_body p) + 32)) \<le> 19"
    using assms(3) by (rule length_show_size)
  then show ?thesis
    using assms(1,2)
    by (simp add: pack_def sprintf_into_def frame_of_def c_str_id show_total_size [OF assms(3), unfolded packet_id_length_def]
          Let_def packet_id_length_def)
qed

section \<open>Reading a header\<close>

definition header_ok :: "packet_header \<Rightarrow> bool" where
  "header_ok h \<longleftrightarrow> length (m_header h) = header_length + 1 \<and> m_header h ! header_length = NUL"

lemma header_ok_new [simp]: "header_ok (new_packet_header j)"
  by (simp add: header_ok_def new_packet_header_def header_length_def del: upt_Suc)

lemma fill_buffer_whole:
  assumes "header_ok h" "length bytes = header_length"
  shows "m_header (fill_buffer bytes h) = bytes @ [NUL]"
proof -
  have "drop header_length (m_header h) = [NUL]"
    using assms(1) by (simp add: header_ok_def header_length_def Cons_nth_drop_Suc [symmetric])
  with assms(2) show ?thesis by (simp add: fill_buffer_def)
qed

text \<open>The length that 16 bytes of header announce.\<close>

definition announced :: "string \<Rightarrow> size_t" where
  "announced bytes = int_to_size (atoi (c_str bytes))"

lemma decode_filled:
  assumes "header_ok h" "length bytes = header_length"
  shows "decode (fill_buffer bytes h) = \<lparr>m_header = bytes @ [NUL], m_body_length = announced bytes\<rparr>"
  using fill_buffer_whole [OF assms]
  by (simp add: decode_def announced_def packet_header.defs)

lemma header_ok_decode [simp]: "header_ok (decode h) = header_ok h"
  by (simp add: decode_def header_ok_def)

lemma announced_padded:
  assumes "n < 2 ^ 31" shows "announced (pad_left w (show_nat n)) = size_of_nat n"
proof -
  have "atoi (pad_left w (show_nat n) @ []) = word_of_nat n"
    using assms by (intro atoi_padded) auto
  then show ?thesis
    using assms by (simp add: announced_def c_str_id show_nat_no_NUL int_to_size_of_nat)
qed

lemma announced_negative:
  assumes "n \<le> 2 ^ 31" shows "announced (pad_left w (CHR ''-'' # show_nat n)) = - word_of_nat n"
proof -
  have "NUL \<notin> set (pad_left w (CHR ''-'' # show_nat n))"
    using show_nat_no_NUL [of w n] by (auto simp: pad_left_def)
  moreover have "atoi (pad_left w (CHR ''-'' # show_nat n) @ []) = word_of_int (- int n)"
    using assms by (intro atoi_padded_minus) auto
  moreover have "int_to_size (word_of_int (- int n)) = word_of_int (- int n)"
    using assms by (intro int_to_size_of_int) auto
  ultimately show ?thesis
    by (simp add: announced_def c_str_id)
qed

section \<open>Reserving and filling the body\<close>

lemma reserve_ok:
  assumes "can_alloc mem (sz + 1)" "sz \<noteq> ULONG_MAX"
  shows "reserve mem sz p = (Inr (), p\<lparr>m_raw := Some (map (junk mem) [0..<unat sz] @ [NUL])\<rparr>)"
proof -
  have "unat (sz + 1) = unat sz + 1"
    using assms(2) by (metis add.inverse_inverse add_eq_0_iff unatSuc Suc_eq_plus1 add.commute)
  with assms(1) show ?thesis by (simp add: reserve_def)
qed

lemma fill_raw_reserved:
  "length bytes = n \<Longrightarrow>
    m_raw (fill_raw bytes (p\<lparr>m_raw := Some (map f [0..<n] @ [NUL])\<rparr>)) = Some (bytes @ [NUL])"
  by (simp add: fill_raw_def)

lemma body_terminated:
  "m_raw p = Some (bytes @ [NUL]) \<Longrightarrow>
    body p = (if packet_id_length \<le> length bytes then Inr (c_str (drop packet_id_length bytes))
              else Inl Undefined)"
  by (simp add: body_def c_str_at_terminated) (simp add: c_str_at_def packet_id_length_def)

lemma in_packet_of_frame:
  assumes "length i = packet_id_length" "length b + packet_id_length < 2 ^ 31"
    "can_alloc mem (size_of_nat (length b + packet_id_length) + 1)"
    "d = pad_left 16 (show_nat (length b + packet_id_length)) @ i @ b"
  shows "in_packet_of mem d sz =
    (Inr (), \<lparr>in_header = \<lparr>m_header = take header_length d @ [NUL],
                          m_body_length = size_of_nat (length b + packet_id_length)\<rparr>,
              in_packet_id = i, m_raw = Some (i @ b @ [NUL])\<rparr>)"
proof -
  let ?n = "length b + packet_id_length"
  let ?h = "pad_left 16 (show_nat ?n)"
  have "length (show_nat ?n) \<le> 10"
    using assms(2) by (intro length_show_nat) auto
  then have h: "length ?h = header_length"
    by (simp add: header_length_def)
  have sz: "unat (size_of_nat ?n) = ?n"
    using assms(2) by (intro unat_size_of_nat) simp
  have nm: "size_of_nat ?n \<noteq> ULONG_MAX"
    using assms(2) by (intro size_of_nat_not_max) simp
  have r: "reserve mem (size_of_nat ?n) p =
      (Inr (), p\<lparr>m_raw := Some (map (junk mem) [0..<?n] @ [NUL])\<rparr>)" for p
    using reserve_ok [OF assms(3) nm] sz by simp
  show ?thesis
    using assms(1,4) h sz r
    by (simp add: in_packet_of_def unpack_def new_in_packet_def decode_filled
          announced_padded [OF assms(2)] Let_def fill_raw_def)
qed

section \<open>Framing a byte stream\<close>

text \<open>
  A receiver reads a header of fixed length, learns from it how many bytes follow, and
  reads those. The contract of a length-prefixed format is that the header of every valid
  message announces the rest of that message; then a receiver cuts any concatenation of
  messages back into the messages.
\<close>

function split_stream :: "nat \<Rightarrow> (string \<Rightarrow> nat) \<Rightarrow> string \<Rightarrow> string list" where
  "split_stream hlen rest s =
     (if hlen = 0 \<or> length s < hlen then []
      else let n = hlen + rest (take hlen s)
           in if length s < n then [] else take n s # split_stream hlen rest (drop n s))"
  by pat_completeness auto
termination
  by (relation "measure (\<lambda>(_, _, s). length s)") auto

declare split_stream.simps [simp del]

locale length_prefixed =
  fixes hlen :: nat
    and rest_len :: "string \<Rightarrow> nat"
    and ok :: "'m \<Rightarrow> bool"
    and enc :: "'m \<Rightarrow> string"
  assumes hlen_pos: "0 < hlen"
    and length_enc: "ok m \<Longrightarrow> length (enc m) = hlen + rest_len (take hlen (enc m))"
begin

lemma header_of_append: "ok m \<Longrightarrow> take hlen (enc m @ s) = take hlen (enc m)"
  using length_enc [of m] by simp

lemma split_stream_step:
  "ok m \<Longrightarrow> split_stream hlen rest_len (enc m @ s) = enc m # split_stream hlen rest_len s"
  using hlen_pos length_enc [of m]
  by (subst split_stream.simps) (simp add: header_of_append Let_def)

lemma split_stream_concat:
  "list_all ok ms \<Longrightarrow>
    split_stream hlen rest_len (concat (map enc ms) @ s) = map enc ms @ split_stream hlen rest_len s"
  by (induction ms) (simp_all add: split_stream_step)

text \<open>A stream that ends inside a message yields the messages before it and nothing else.\<close>

lemma split_stream_cut:
  assumes "ok m" "n < length (enc m)"
  shows "split_stream hlen rest_len (take n (enc m)) = []"
proof (cases "n < hlen")
  case True
  then show ?thesis by (subst split_stream.simps) (simp add: min_less_iff_disj)
next
  case False
  then have "take hlen (take n (enc m)) = take hlen (enc m)" by (simp add: min_def)
  with assms length_enc [of m] show ?thesis
    by (subst split_stream.simps) (simp add: Let_def)
qed

end

text \<open>
  Packets as \<open>pack\<close> writes them meet the contract, with the length that \<open>decode\<close> reads from
  the header.
\<close>

definition sendable :: "out_packet \<Rightarrow> bool" where
  "sendable p \<longleftrightarrow> NUL \<notin> set (out_packet_id p) \<and> length (out_packet_id p) \<le> packet_id_length \<and>
     length (m_body p) + packet_id_length < 2 ^ 31"

definition wire :: "out_packet \<Rightarrow> string" where
  "wire p = m_data (snd (pack p))"

definition received_length :: "(nat \<Rightarrow> char) \<Rightarrow> string \<Rightarrow> nat" where
  "received_length j bytes = unat (m_body_length (decode (fill_buffer bytes (new_packet_header j))))"

lemma wire_frame: "sendable p \<Longrightarrow> wire p = frame_of (out_packet_id p) (m_body p)"
  by (simp add: wire_def sendable_def packet_id_length_def pack_frame)

lemma received_length_padded:
  assumes "n < 2 ^ 31" shows "received_length j (pad_left 16 (show_nat n)) = n"
proof -
  have "length (pad_left 16 (show_nat n)) = header_length"
    using assms length_show_nat [of n 10] by (simp add: header_length_def)
  then show ?thesis
    using assms
    by (simp add: received_length_def decode_filled announced_padded unat_size_of_nat)
qed

interpretation frames: length_prefixed header_length "received_length j" sendable wire for j
proof unfold_locales
  show "0 < header_length" by (simp add: header_length_def)
next
  fix p :: out_packet
  assume ok: "sendable p"
  let ?n = "length (m_body p) + packet_id_length"
  have n: "?n < 2 ^ 31" using ok by (simp add: sendable_def)
  then have "length (pad_left 16 (show_nat ?n)) = header_length"
    using length_show_nat [of ?n 10] by (simp add: header_length_def)
  with ok received_length_padded [OF n]
  show "length (wire p) = header_length + received_length j (take header_length (wire p))"
    by (simp add: wire_frame frame_of_def sendable_def packet_id_length_def)
qed

section \<open>Properties\<close>

text \<open>
  C27: A packed packet survives the wire. When the id is at most 32 characters, neither id nor
  body holds a NUL, the packet is below 2 GB and the receiver can allocate it, then \<open>pack\<close>
  succeeds and an \<open>in_packet\<close> built from its bytes has the announced length, the padded id
  and exactly the body that was set.
\<close>

theorem pack_unpack_roundtrip:
  assumes "NUL \<notin> set (out_packet_id p)" "length (out_packet_id p) \<le> packet_id_length"
    and "NUL \<notin> set (m_body p)" "length (m_body p) + packet_id_length < 2 ^ 31"
    and "can_alloc mem (size_of_nat (length (m_body p) + packet_id_length) + 1)"
  shows "\<exists>d p' q. pack p = (Inr d, p') \<and> in_packet_of mem d (out_length p') = (Inr (), q) \<and>
    m_body_length (in_header q) = size_of_nat (length (m_body p) + packet_id_length) \<and>
    in_packet_id q = pad_left 32 (out_packet_id p) \<and> body q = Inr (m_body p)"
proof -
  let ?i = "pad_left 32 (out_packet_id p)"
  have i: "length ?i = packet_id_length"
    using assms(2) by (simp add: packet_id_length_def)
  have "length (out_packet_id p) < 256" "length (m_body p) + 32 < 2 ^ 63"
    using assms(2,4) by (auto simp: packet_id_length_def)
  note pack = pack_frame [OF assms(1) this]
  note recv = in_packet_of_frame [OF i assms(4,5) refl]
  have "body (\<lparr>in_header = h, in_packet_id = j, m_raw = Some (?i @ m_body p @ [NUL])\<rparr>) =
      Inr (m_body p)" for h j
    using body_terminated [of _ "?i @ m_body p"] i assms(3) by (simp add: c_str_id)
  then show ?thesis
    using pack recv by (auto simp: frame_of_def)
qed

theorem pack_unpack_roundtrip_witness:
  "\<exists>d p' q. pack \<lparr>out_packet_id = ''id'', m_body = ''{}'', m_data = [], m_packed = False\<rparr> = (Inr d, p') \<and>
    in_packet_of \<lparr>junk = (\<lambda>_. NUL), can_alloc = (\<lambda>n. unat n < 1000)\<rparr> d (out_length p') = (Inr (), q) \<and>
    m_body_length (in_header q) = 34 \<and>
    in_packet_id q = pad_left 32 ''id'' \<and> body q = Inr ''{}''"
  using pack_unpack_roundtrip
    [of "\<lparr>out_packet_id = ''id'', m_body = ''{}'', m_data = [], m_packed = False\<rparr>"
        "\<lparr>junk = (\<lambda>_. NUL), can_alloc = (\<lambda>n. unat n < 1000)\<rparr>"]
  by (simp add: packet_id_length_def size_of_nat_def)

text \<open>
  Framing. The receiving loop cuts a stream of packed packets, followed by a truncated
  one, into exactly the packets that were sent, in order.
\<close>

theorem packets_split_stream:
  assumes "list_all sendable ps" "sendable p" "n < length (wire p)"
  shows "split_stream header_length (received_length j) (concat (map wire ps) @ take n (wire p)) =
    map wire ps"
  using frames.split_stream_concat [OF assms(1)] frames.split_stream_cut [OF assms(2,3)] by simp

theorem packets_split_stream_witness:
  "split_stream header_length (received_length (\<lambda>_. CHR ''7''))
      (concat (map wire [set_body ''{}'' new_out_packet, set_body ''[1]'' new_out_packet]) @
        take 20 (wire (set_body ''{}'' new_out_packet))) =
    map wire [set_body ''{}'' new_out_packet, set_body ''[1]'' new_out_packet]"
  using packets_split_stream [of "[set_body ''{}'' new_out_packet, set_body ''[1]'' new_out_packet]"
      "set_body ''{}'' new_out_packet" 20 "\<lambda>_. CHR ''7''"]
  by (simp add: sendable_def wire_frame packet_id_length_def frame_of_def set_body_def
      new_out_packet_def)

text \<open>
  Packing twice is packing once: the padded id that the first call stores prints as
  itself, so a second call returns the same bytes and leaves the packet as it is.
\<close>

theorem pack_idempotent:
  assumes "pack p = (Inr d, p')" "NUL \<notin> set (out_packet_id p)"
    and "length (m_body p) + packet_id_length < 2 ^ 63"
  shows "pack p' = (Inr d, p')"
proof -
  have "length (out_packet_id p) < 256"
    using assms(1,2)
    by (auto simp: pack_def Let_def c_str_id sprintf_into_def split: if_splits sum.splits)
  moreover have "length (m_body p) + 32 < 2 ^ 63"
    using assms(3) by (simp add: packet_id_length_def)
  ultimately have p': "d = frame_of (out_packet_id p) (m_body p)"
      "p' = p\<lparr>out_packet_id := pad_left 32 (out_packet_id p), m_data := d\<rparr>"
    using pack_frame [of p] assms(1,2) by auto
  have "pack p' = (Inr (frame_of (out_packet_id p') (m_body p')),
      p'\<lparr>out_packet_id := pad_left 32 (out_packet_id p'),
        m_data := frame_of (out_packet_id p') (m_body p')\<rparr>)"
    using p' assms(2) \<open>length (out_packet_id p) < 256\<close> \<open>length (m_body p) + 32 < 2 ^ 63\<close>
    by (intro pack_frame) (auto simp: pad_left_def)
  with p' show ?thesis by (simp add: frame_of_def)
qed

theorem pack_idempotent_witness:
  "let p = set_packet_id ''x'' (set_body ''{}'' new_out_packet)
   in pack (snd (pack p)) = pack p"
proof -
  let ?p = "set_packet_id ''x'' (set_body ''{}'' new_out_packet)"
  have p: "NUL \<notin> set (out_packet_id ?p)" "length (out_packet_id ?p) < 256"
    "length (m_body ?p) + 32 < 2 ^ 63"
    by (simp_all add: set_packet_id_def set_body_def new_out_packet_def)
  show ?thesis
    using pack_idempotent [OF pack_frame [OF p] p(1)] p pack_frame [OF p]
    by (simp add: packet_id_length_def)
qed

text \<open>
  Overlong ids. A packet whose id prints to 256 characters or more makes \<open>pack\<close> write
  outside its buffer; with a shorter id \<open>pack\<close> always returns.
\<close>

theorem pack_id_bound:
  assumes "length (m_body p) + packet_id_length < 2 ^ 63"
  shows "if length (c_str (out_packet_id p)) < 256 then \<exists>d. fst (pack p) = Inr d
    else fst (pack p) = Inl Undefined"
proof -
  have b: "length (m_body p) + 32 < 2 ^ 63"
    using assms by (simp add: packet_id_length_def)
  then have "length (show_nat (length (m_body p) + 32)) \<le> 19"
    by (rule length_show_size)
  then have "sprintf_into 256 (pad_left 16 (show_int (sint (size_of_nat (length (m_body p)) +
      size_of_nat packet_id_length)))) = Inr (pad_left 16 (show_nat (length (m_body p) + 32)))"
    by (simp only: show_total_size [OF b]) (simp add: sprintf_into_def)
  then show ?thesis
    by (simp add: pack_def Let_def) (simp add: sprintf_into_def)
qed

theorem pack_id_bound_witness:
  "fst (pack (set_packet_id (replicate 256 CHR ''f'') new_out_packet)) = Inl Undefined"
  using pack_id_bound [of "set_packet_id (replicate 256 CHR ''f'') new_out_packet"]
  by (simp add: set_packet_id_def new_out_packet_def c_str_id packet_id_length_def)

text \<open>
  \<open>decode\<close> accepts every length that fits an \<open>int\<close>: for each number below \<open>2 ^ 31\<close> there
  is a 16 byte header that announces it, also above \<open>max_body_length\<close>, and no exception is
  raised.
\<close>

theorem decode_no_limit:
  assumes "header_ok h" "n < 2 ^ 31"
  shows "m_body_length (decode (fill_buffer (pad_left 16 (show_nat n)) h)) = size_of_nat n"
proof -
  have "length (pad_left 16 (show_nat n)) = header_length"
    using assms length_show_nat [of n 10] by (simp add: header_length_def)
  then show ?thesis
    using assms by (simp add: decode_filled announced_padded)
qed

theorem decode_no_limit_witness:
  "m_body_length (decode (fill_buffer (pad_left 16 (show_nat (max_body_length + 1)))
      (new_packet_header (\<lambda>_. NUL)))) = size_of_nat (max_body_length + 1)"
  using decode_no_limit [of "new_packet_header (\<lambda>_. NUL)" "max_body_length + 1"]
  by (simp add: max_body_length_def)

text \<open>
  A header that announces a negative number \<open>-n\<close> is read as the length \<open>2 ^ 64 - n\<close>.
  For \<open>n = 1\<close> the array that \<open>reserve\<close> asks for is empty and the terminator is written
  outside of it; for every other \<open>n\<close> the allocation fails.
\<close>

theorem negative_length_header:
  assumes "memory_ok mem" "header_ok h" "1 \<le> n" "n \<le> 2 ^ 31"
  shows "let sz = m_body_length (decode (fill_buffer (pad_left 16 (CHR ''-'' # show_nat n)) h))
    in unat sz = 2 ^ 64 - n \<and>
       fst (reserve mem sz p) =
         Inl (if n = 1 then Undefined else Std_exception ''std::bad_alloc'')"
proof -
  have "length (pad_left 16 (CHR ''-'' # show_nat n)) = header_length"
    using assms length_show_nat [of n 10] by (simp add: header_length_def)
  then have sz: "m_body_length (decode (fill_buffer (pad_left 16 (CHR ''-'' # show_nat n)) h)) =
      - word_of_nat n"
    using assms by (simp add: decode_filled announced_negative)
  have u: "unat (- word_of_nat n :: size_t) = 2 ^ 64 - n"
    using assms(3,4) by (subst unat_minus_of_nat) auto
  have "unat (- word_of_nat n + 1 :: size_t) = (if n = 1 then 0 else 2 ^ 64 - (n - 1))"
  proof (cases "n = 1")
    case False
    have "- word_of_nat n + 1 = (- word_of_nat (n - 1) :: size_t)"
      using assms(3) by (simp add: of_nat_diff)
    with False assms(3,4) show ?thesis
      by (simp only:) (subst unat_minus_of_nat, auto)
  qed simp
  with assms u sz show ?thesis
    by (auto simp: reserve_def memory_ok_def Let_def unat_eq_zero)
qed

theorem negative_length_header_witness:
  "let mem = \<lparr>junk = (\<lambda>_. NUL), can_alloc = (\<lambda>n. unat n < 1000)\<rparr>;
       sz = m_body_length (decode (fill_buffer ''              -1'' (new_packet_header (\<lambda>_. NUL))))
   in unat sz = 2 ^ 64 - 1 \<and> fst (reserve mem sz (new_in_packet (\<lambda>_. NUL))) = Inl Undefined"
proof -
  have "pad_left 16 (CHR ''-'' # show_nat 1) = ''              -1''"
    by code_simp
  then show ?thesis
    using negative_length_header [of "\<lparr>junk = (\<lambda>_. NUL), can_alloc = (\<lambda>n. unat n < 1000)\<rparr>"
        "new_packet_header (\<lambda>_. NUL)" 1 "new_in_packet (\<lambda>_. NUL)"]
    by (simp add: memory_ok_def Let_def)
qed

text \<open>
  A packet shorter than its id. After a body of \<open>sz\<close> bytes was reserved and filled, the
  body pointer is inside the array exactly when \<open>sz\<close> is at least the id's 32 bytes; the
  handler reads it without a test.
\<close>

theorem body_needs_packet_id:
  assumes "reserve mem sz p = (Inr (), q)" "length bytes = unat sz"
  shows "body (fill_raw bytes q) =
    (if packet_id_length \<le> unat sz then Inr (c_str (drop packet_id_length bytes))
     else Inl Undefined)"
proof -
  have "q = p\<lparr>m_raw := Some (map (junk mem) [0..<unat sz] @ [NUL])\<rparr>"
    using assms(1) by (auto simp: reserve_def Let_def split: if_splits)
  then show ?thesis
    using fill_raw_reserved [OF assms(2), of "junk mem" p] body_terminated assms(2) by simp
qed

theorem body_needs_packet_id_witness:
  "body (fill_raw ''{}'' (snd (reserve \<lparr>junk = (\<lambda>_. NUL), can_alloc = (\<lambda>n. unat n < 1000)\<rparr> 2
      (new_in_packet (\<lambda>_. NUL))))) = Inl Undefined"
  using body_needs_packet_id [of "\<lparr>junk = (\<lambda>_. NUL), can_alloc = (\<lambda>n. unat n < 1000)\<rparr>" 2
      "new_in_packet (\<lambda>_. NUL)" _ "''{}''"]
  by (simp add: reserve_ok packet_id_length_def)

end
