(* ===== verification/Protocol.thy ===== *)
theory Protocol
  imports C_Library
begin

text \<open>
  The wire protocol's constants (\<^verbatim>\<open>src/src/protocol.h\<close>): commands, purposes,
  responses and the table of error messages. A command or a purpose arrives as an \<open>int\<close>
  and is cast to its enumeration, which keeps values that name no enumerator.
\<close>

section \<open>Commands\<close>

datatype command = OPEN | CLOSE | READ | WRITE | REWIND | Other_command c_int

fun command_code :: "command \<Rightarrow> c_int" where
  "command_code OPEN = 100"
| "command_code CLOSE = 101"
| "command_code READ = 102"
| "command_code WRITE = 103"
| "command_code REWIND = 106"
| "command_code (Other_command i) = i"

definition MinCmd :: c_int where "MinCmd = 100"
definition MaxCmd :: c_int where "MaxCmd = command_code REWIND"
definition ErrorCmd :: command where "ErrorCmd = Other_command (- 1)"

text \<open>The cast \<open>(Command) i\<close>.\<close>

definition command_of_int :: "c_int \<Rightarrow> command" where
  "command_of_int i =
     (if i = 100 then OPEN else if i = 101 then CLOSE else if i = 102 then READ
      else if i = 103 then WRITE else if i = 106 then REWIND else Other_command i)"

lemma command_code_of_int [simp]: "command_code (command_of_int i) = i"
  by (simp add: command_of_int_def)

section \<open>Purposes\<close>

datatype purpose = Read | Write | Other_purpose c_int

definition purpose_of_int :: "c_int \<Rightarrow> purpose" where
  "purpose_of_int i = (if i = 1 then Read else if i = 2 then Write else Other_purpose i)"

section \<open>Responses\<close>

datatype response =
    UnknownCommand | Unimplemented | RequestTooLong | NoMoreItem
  | ResponseTooLong | AlreadyOpen | ErrorMax | OK

fun response_code :: "response \<Rightarrow> int" where
  "response_code UnknownCommand = 500"
| "response_code Unimplemented = 501"
| "response_code RequestTooLong = 502"
| "response_code NoMoreItem = 503"
| "response_code ResponseTooLong = 504"
| "response_code AlreadyOpen = 505"
| "response_code ErrorMax = 506"
| "response_code OK = 200"

text \<open>\<open>MinError\<close> is a second name of \<open>UnknownCommand\<close>.\<close>

abbreviation MinError :: response where
  "MinError \<equiv> UnknownCommand"

lemma response_code_inj [simp]: "response_code a = response_code b \<longleftrightarrow> a = b"
  by (cases a; cases b) auto

text \<open>C++ compares enumerators by their values.\<close>

instantiation response :: linorder
begin

definition less_eq_response :: "response \<Rightarrow> response \<Rightarrow> bool" where
  "less_eq_response a b \<longleftrightarrow> response_code a \<le> response_code b"

definition less_response :: "response \<Rightarrow> response \<Rightarrow> bool" where
  "less_response a b \<longleftrightarrow> response_code a < response_code b"

instance
  by standard (auto simp: less_eq_response_def less_response_def)

end

section \<open>Error messages\<close>

record error_message =
  msg :: string
  msg_size :: nat

text \<open>\<open>ERROR_MESSAGE(x)\<close>: the literal and its length without the terminator.\<close>

definition ERROR_MESSAGE :: "string \<Rightarrow> error_message" where
  "ERROR_MESSAGE x = \<lparr>msg = x, msg_size = length (x @ [NUL]) - 1\<rparr>"

definition error_messages :: "error_message list" where
  "error_messages =
     [ERROR_MESSAGE ''Command not found'',
      ERROR_MESSAGE ''Command unimplemented yet!'',
      ERROR_MESSAGE ''Request body exceed limit(1MB)!'',
      ERROR_MESSAGE ''No more items!'',
      ERROR_MESSAGE ''Internal Error(invalid error code)'']"

end
