(* ===== verification/Processor.thy ===== *)
theory Processor
  imports Broker_Batches Packet Protocol
begin

text \<open>
  The processor (\<^verbatim>\<open>src/src/asio_processor.hpp\<close>, \<^verbatim>\<open>src/src/asio_processor.cc\<close>) serves the
  requests of all connections that opened the same options: it owns a read and a write broker
  with their threads, counts its users and packs the responses. The operations are calls of
  the io thread; what the brokers' threads do to the queues meanwhile is the queues' schedule.
\<close>

section \<open>State\<close>

text \<open>A thread handle is \<open>NULL\<close> (\<open>False\<close>) or the handle of a thread that was created.\<close>

record 'o processor =
  m_read_broker :: "'o broker"
  m_write_broker :: "'o broker"
  m_response_buf_size :: size_t
  m_read_thread :: bool
  m_write_thread :: bool
  m_processor_id :: string
  m_refcount :: size_t
  m_purpose_name :: string

definition reset_processor :: "string \<Rightarrow> 'o processor \<Rightarrow> ('o processor, unit) outcome" where
  "reset_processor processor_id p0 =
     (let p = p0\<lparr>m_response_buf_size := 0, m_read_thread := False, m_write_thread := False\<rparr>
      in if length processor_id = 0 then (Inl Assertion_failed, p)
         else (Inr (), p\<lparr>m_processor_id := processor_id, m_refcount := 0\<rparr>))"

definition new_processor :: "('o, 'db) driver \<Rightarrow> string \<Rightarrow> fault + 'o processor" where
  "new_processor D processor_id =
     (case reset_processor processor_id
        \<lparr>m_read_broker = new_broker D, m_write_broker = new_broker D, m_response_buf_size = 0,
         m_read_thread = False, m_write_thread = False, m_processor_id = [], m_refcount = 0,
         m_purpose_name = []\<rparr> of
        (Inl e, _) \<Rightarrow> Inl e
      | (Inr _, p) \<Rightarrow> Inr p)"

text \<open>A call on one of the brokers.\<close>

definition on_read ::
  "('o broker \<Rightarrow> ('o broker, 'a) outcome) \<Rightarrow> 'o processor \<Rightarrow> ('o processor, 'a) outcome" where
  "on_read f p = (let (r, b) = f (m_read_broker p) in (r, p\<lparr>m_read_broker := b\<rparr>))"

definition on_write ::
  "('o broker \<Rightarrow> ('o broker, 'a) outcome) \<Rightarrow> 'o processor \<Rightarrow> ('o processor, 'a) outcome" where
  "on_write f p = (let (r, b) = f (m_write_broker p) in (r, p\<lparr>m_write_broker := b\<rparr>))"

section \<open>Names for the log\<close>

definition set_purpose_name :: "purpose \<Rightarrow> 'o processor \<Rightarrow> 'o processor" where
  "set_purpose_name pu p =
     (if m_purpose_name p = []
      then p\<lparr>m_purpose_name :=
             case pu of Read \<Rightarrow> ''Read'' | Write \<Rightarrow> ''Write'' | Other_purpose i \<Rightarrow> ''Unkown''\<rparr>
      else p)"

fun get_command_name :: "command \<Rightarrow> string" where
  "get_command_name OPEN = ''Open''"
| "get_command_name CLOSE = ''Close''"
| "get_command_name READ = ''Read''"
| "get_command_name WRITE = ''Write''"
| "get_command_name REWIND = ''Rewind''"
| "get_command_name (Other_command i) = ''Unkown''"

section \<open>Opening and closing\<close>

text \<open>Creating a thread is taken to succeed.\<close>

definition open_processor ::
  "('o, 'db) driver \<Rightarrow> 'db \<Rightarrow> purpose \<Rightarrow> 'o \<Rightarrow> 'o processor \<Rightarrow> ('o processor, unit) outcome" where
  "open_processor D db pu obj p0 =
     andthen
       (case pu of
          Read \<Rightarrow>
            if \<not> m_connected (m_read_broker p0)
            then andthen (on_read (open_broker D db (Some obj)) p0) (\<lambda>_ p. (Inr (), p\<lparr>m_read_thread := True\<rparr>))
            else (Inr (), p0)
        | Write \<Rightarrow>
            if \<not> m_connected (m_write_broker p0)
            then andthen (on_write (open_broker D db (Some obj)) p0) (\<lambda>_ p. (Inr (), p\<lparr>m_write_thread := True\<rparr>))
            else (Inr (), p0)
        | Other_purpose i \<Rightarrow> (Inl (Thrown_cstr ''invalid Purpose''), p0))
       (\<lambda>_ p. (Inr (), set_purpose_name pu (p\<lparr>m_refcount := m_refcount p + 1\<rparr>)))"

text \<open>
  Waiting for the end of a broker's thread (\<open>pthread_join\<close>; for the write broker, whose thread
  holds a mutex while \<open>update\<close> runs, already \<open>wait_update_done\<close>): what the thread still did to
  the queue is the next entry of the schedule.
\<close>

definition join_thread :: "'o broker \<Rightarrow> 'o broker" where
  "join_thread b = b\<lparr>m_queue := lock (m_queue b)\<rparr>"

definition wait_update_done :: "'o broker \<Rightarrow> 'o broker" where
  "wait_update_done b = join_thread b"

definition stop_reading :: "'o broker \<Rightarrow> ('o broker, unit) outcome" where
  "stop_reading b0 =
     andthen (broker_size (set_exit b0)) (\<lambda>n b.
     andthen
       (if n > 0 \<or> \<not> m_reach_end b
        then let (r, s) = batch_pop 1 ([], b) in (map_sum id (\<lambda>_. ()) r, snd s)
        else (Inr (), b))
       (\<lambda>_ b. (Inr (), join_thread b)))"

definition stop_writing :: "'o broker \<Rightarrow> ('o broker, unit) outcome" where
  "stop_writing b0 = (Inr (), wait_update_done (set_exit b0))"

definition term_processor :: "'o processor \<Rightarrow> ('o processor, unit) outcome" where
  "term_processor p0 =
     andthen
       (if m_read_thread p0 \<and> m_connected (m_read_broker p0)
        then andthen (on_read stop_reading p0)
               (\<lambda>_ p. (Inr (), p\<lparr>m_read_thread := False, m_read_broker := close_broker (m_read_broker p)\<rparr>))
        else (Inr (), p0))
       (\<lambda>_ p.
          if m_write_thread p \<and> m_connected (m_write_broker p)
          then andthen (on_write stop_writing p)
                 (\<lambda>_ p. (Inr (), p\<lparr>m_write_thread := False, m_write_broker := close_broker (m_write_broker p)\<rparr>))
          else (Inr (), p))"

definition close_processor :: "'o processor \<Rightarrow> ('o processor, unit) outcome" where
  "close_processor p =
     (if m_refcount p > 1 then (Inr (), p\<lparr>m_refcount := m_refcount p - 1\<rparr>)
      else term_processor (p\<lparr>m_refcount := 0\<rparr>))"

section \<open>Requests\<close>

text \<open>
  \<open>parse_request\<close>; for an unknown command the body stays the empty object of the caller. The
  enumerators are compared by their values.
\<close>

definition parse_request :: "('o, 'db) driver \<Rightarrow> string \<Rightarrow> fault + response \<times> command \<times> 'o" where
  "parse_request D json =
     (case fromjson D (c_str json) of
        Inl e \<Rightarrow> Inl e
      | Inr cmdObj \<Rightarrow>
          (let cmd = command_of_int (getIntField D cmdObj ''cmd'')
           in if sint (command_code cmd) \<le> sint MaxCmd \<and> sint (command_code cmd) \<ge> sint MinCmd
              then Inr (OK, cmd, getObjectField D cmdObj ''body'')
              else Inr (UnknownCommand, cmd, emptyObj D)))"

section \<open>Responses\<close>

text \<open>
  \<open>send_error\<close> looks the message up and drops it. The range of the codes is one longer than the
  table: the index of \<open>AlreadyOpen\<close> is behind its end.
\<close>

definition send_error :: "response \<Rightarrow> fault + error_message option" where
  "send_error err =
     (if err < ErrorMax \<and> err > MinError
      then let err_no = nat (response_code err - response_code MinError)
           in if err_no < length error_messages then Inr (Some (error_messages ! err_no)) else Inl Undefined
      else Inr None)"

definition init_response_builder ::
  "('o, 'db) driver \<Rightarrow> response \<Rightarrow> 'o option \<Rightarrow> string \<Rightarrow> 'o \<Rightarrow> 'o" where
  "init_response_builder D res dataToReturn extra builder =
     (let b1 = append_int D ''response'' (word_of_int (response_code res)) builder;
          b2 = (if c_str extra \<noteq> [] then append_string D ''extra'' (c_str extra) b1 else b1)
      in case dataToReturn of
           None \<Rightarrow> b2
         | Some d \<Rightarrow> if \<not> isEmpty D d then appendElements D d b2 else b2)"

definition too_long :: "('o, 'db) driver \<Rightarrow> string" where
  "too_long D = jsonString D (append_int D ''response'' (word_of_int (response_code ResponseTooLong)) (emptyObj D))"

definition get_response_string :: "('o, 'db) driver \<Rightarrow> out_packet \<Rightarrow> 'o \<Rightarrow> fault + string" where
  "get_response_string D packet builder =
     (let json0 = jsonString D builder;
          json = (if length json0 < max_body_length then json0 else too_long D)
      in fst (pack (set_body json packet)))"

definition pack_response ::
  "('o, 'db) driver \<Rightarrow> out_packet \<Rightarrow> response \<Rightarrow> string \<Rightarrow> 'o option \<Rightarrow> fault + string" where
  "pack_response D packet res extra dataToReturn =
     get_response_string D packet (init_response_builder D res dataToReturn extra (emptyObj D))"

text \<open>
  \<open>toBSONObj\<close> prints the documents as the elements of one object, through a buffer that grows
  for every document but the last. An empty vector would make \<open>len - 1\<close> wrap around.
\<close>

definition element_text :: "nat \<Rightarrow> string \<Rightarrow> string \<Rightarrow> string" where
  "element_text i s close = CHR 0x22 # show_nat i @ CHR 0x22 # '' : '' @ c_str s @ close"

fun bson_text :: "nat \<Rightarrow> nat \<Rightarrow> string \<Rightarrow> string list \<Rightarrow> fault + string" where
  "bson_text i buffer_len tmp [] = Inl Undefined"
| "bson_text i buffer_len tmp [s] =
     (case sprintf_into buffer_len (element_text i s '' }'') of
        Inl e \<Rightarrow> Inl e
      | Inr t \<Rightarrow> Inr (tmp @ t))"
| "bson_text i buffer_len tmp (s # s' # ss) =
     (let buffer_len' = (if buffer_len < length s + 36 then length s + 36 else buffer_len)
      in case sprintf_into buffer_len' (element_text i s '','') of
           Inl e \<Rightarrow> Inl e
         | Inr t \<Rightarrow> bson_text (i + 1) buffer_len' (tmp @ t) (s' # ss))"

definition toBSONObj :: "('o, 'db) driver \<Rightarrow> string list \<Rightarrow> fault + 'o" where
  "toBSONObj D strs =
     (case bson_text 0 2048 ''{ '' strs of Inl e \<Rightarrow> Inl e | Inr text \<Rightarrow> fromjson D text)"

definition pack_response_docs ::
  "('o, 'db) driver \<Rightarrow> out_packet \<Rightarrow> response \<Rightarrow> string list \<Rightarrow> string \<Rightarrow> fault + string" where
  "pack_response_docs D packet res docs extra =
     (let builder = init_response_builder D res None extra (emptyObj D)
      in if length docs > 0 \<and> res = OK
         then case toBSONObj D docs of
                Inl e \<Rightarrow> Inl e
              | Inr obj \<Rightarrow> get_response_string D packet (append_object D ''docs'' obj builder)
         else get_response_string D packet builder)"

section \<open>Serving a request\<close>

text \<open>\<open>get_limit()\<close> is an \<open>int\<close> that becomes the \<open>size_t\<close> size of the batch.\<close>

definition do_read :: "('o, 'db) driver \<Rightarrow> out_packet \<Rightarrow> 'o processor \<Rightarrow> ('o processor, string) outcome" where
  "do_read D packet p0 =
     (let (r, docs, b) = batch_pop (int_to_size (m_limit (m_read_broker p0))) ([], m_read_broker p0);
          p = p0\<lparr>m_read_broker := b\<rparr>
      in case r of
           Inl e \<Rightarrow> (Inl e, p)
         | Inr n \<Rightarrow>
             if ULONG_MAX \<noteq> n \<or> length docs > 0
             then (pack_response_docs D packet OK docs ''do_read'', p)
             else (pack_response_docs D packet NoMoreItem docs ''do_read no more items'', p))"

definition do_rewind :: "'o processor \<Rightarrow> bool \<times> 'o processor" where
  "do_rewind p =
     (if m_connected (m_read_broker p) then (True, p\<lparr>m_read_broker := rewind (m_read_broker p)\<rparr>)
      else (False, p))"

text \<open>
  The loop of \<open>do_write\<close>. A \<open>push\<close> that returns either moved a document or was woken, which
  uses up an entry of the schedule.
\<close>

lemma push_all_measure:
  assumes "push_all items s q = (Inr (n, rest), q')" "items \<noteq> []"
  shows "length rest + length (m_sched q') < length items + length (m_sched q)"
proof -
  have sched: "length (m_sched (lock q)) \<le> length (m_sched q)" for q :: "'a sized_queue"
    by (simp add: lock_def split: list.splits)
  obtain q1 where w: "wait_for_room s (lock q) = (Inr (), q1)"
    using assms(1) by (auto simp: push_all_def andthen_def split: prod.splits sum.splits)
  obtain xs where m: "move_back (unat (m_limit_size q1)) (m_deque q1) items = (xs, rest)"
    and q': "m_sched q' = m_sched q1"
    using assms(1) w by (auto simp: push_all_def Let_def split: prod.splits)
  have r: "length rest \<le> length items" using m by (auto simp: move_back_eq Let_def)
  show ?thesis
  proof (cases "length (m_deque (lock q)) < unat (m_limit_size q)")
    case True
    then have "q1 = lock q" using w by (simp add: wait_for_room_def)
    then have "length rest < length items"
      using move_back_progress [OF m assms(2)] True by simp
    with q' sched [of q] \<open>q1 = lock q\<close> show ?thesis by simp
  next
    case False
    then have "length (m_sched q1) < length (m_sched (lock q))"
      using w by (auto simp: wait_for_room_def wait_cond_def Let_def split: list.splits if_splits)
    with q' sched [of q] r show ?thesis by simp
  qed
qed

lemma broker_push_measure:
  assumes "broker_push docs b = (Inr (n, rest), b')" "docs \<noteq> []"
  shows "length rest + length (m_sched (m_queue b')) < length docs + length (m_sched (m_queue b))"
proof -
  have "\<exists>k q. push_all docs 0 (m_queue b) = (Inr (k, rest), q) \<and> b' = b\<lparr>m_queue := q\<rparr>"
    using assms(1)
    by (auto simp: broker_push_def check_status_def andthen_def on_queue_def split: if_splits prod.splits sum.splits)
  then show ?thesis using push_all_measure [OF _ assms(2)] by fastforce
qed

function write_loop :: "string list \<Rightarrow> 'o broker \<Rightarrow> ('o broker, unit) outcome" where
  "write_loop tmp b =
     (if length tmp > 0
      then case broker_push tmp b of
             (Inl e, b') \<Rightarrow> (Inl e, b')
           | (Inr (n, rest), b') \<Rightarrow> write_loop rest b'
      else (Inr (), b))"
  by pat_completeness auto
termination
  by (relation "measure (\<lambda>(tmp, b). length tmp + length (m_sched (m_queue b)))")
    (auto dest!: sym [of "(Inr _, _)"] intro: broker_push_measure)

declare write_loop.simps [simp del]

definition do_write ::
  "('o, 'db) driver \<Rightarrow> out_packet \<Rightarrow> 'o \<Rightarrow> 'o processor \<Rightarrow> ('o processor, string) outcome" where
  "do_write D packet upd p0 =
     (let docs = objVals D (getObjectField D upd ''docs'');
          tmp = map (jsonString D) docs
      in andthen (on_write (write_loop tmp) p0) (\<lambda>_ p. (pack_response D packet OK ''do_write'' None, p)))"

definition process ::
  "('o, 'db) driver \<Rightarrow> 'db \<Rightarrow> response \<Rightarrow> command \<Rightarrow> 'o \<Rightarrow> 'o processor \<Rightarrow> ('o processor, string) outcome" where
  "process D db res cmd obj p =
     (let packet = set_packet_id (m_processor_id p) new_out_packet
      in if res = OK
         then case cmd of
                OPEN \<Rightarrow> andthen (open_processor D db (purpose_of_int (getIntField D obj ''purpose'')) obj p)
                  (\<lambda>_ p. (pack_response D packet OK ''Open Action'' None, p))
              | CLOSE \<Rightarrow> andthen (close_processor p)
                  (\<lambda>_ p. (pack_response D packet OK ''Close Action'' None, p))
              | READ \<Rightarrow> if m_connected (m_read_broker p) then do_read D packet p else (Inl Assertion_failed, p)
              | WRITE \<Rightarrow> if m_connected (m_write_broker p) then do_write D packet obj p else (Inl Assertion_failed, p)
              | REWIND \<Rightarrow> (pack_response D packet OK ''Rewind Action'' None, snd (do_rewind p))
              | Other_command i \<Rightarrow> (Inl (Thrown_cstr ''UnknownCommand''), p)
         else (Inl (Thrown_cstr ''process error''), p))"

definition process_json ::
  "('o, 'db) driver \<Rightarrow> 'db \<Rightarrow> string \<Rightarrow> 'o processor \<Rightarrow> ('o processor, string) outcome" where
  "process_json D db json p =
     (case parse_request D json of
        Inl e \<Rightarrow> (Inl e, p)
      | Inr (res, cmd, obj) \<Rightarrow> process D db res cmd obj p)"

end
