(* ===== verification/Processor_Facts.thy ===== *)
theory Processor_Facts
  imports Processor
begin

text \<open>
  Correctness of the processor: what its responses look like, how users are counted, which
  requests it serves and with what, and what stays true of its brokers and threads.
\<close>

section \<open>Printing the documents of a response\<close>

text \<open>The text without the buffers, and the buffer the last document is printed into.\<close>

fun elements_text :: "nat \<Rightarrow> string list \<Rightarrow> string" where
  "elements_text i [] = []"
| "elements_text i [s] = element_text i s '' }''"
| "elements_text i (s # s' # ss) = element_text i s '','' @ elements_text (i + 1) (s' # ss)"

definition last_buffer :: "nat \<Rightarrow> string list \<Rightarrow> nat" where
  "last_buffer n strs = foldl max n (map (\<lambda>s. length s + 36) (butlast strs))"

lemma length_element_text:
  "length (element_text i s close) = length (show_nat i) + length (c_str s) + length close + 5"
  by (simp add: element_text_def)

lemma length_c_str: "length (c_str s) \<le> length s"
  unfolding c_str_def by (rule length_takeWhile_le)

lemma bson_text_eq:
  assumes "strs \<noteq> []" "i + length strs \<le> 10 ^ 28"
  shows "bson_text i n tmp strs =
    (if length (element_text (i + length strs - 1) (last strs) '' }'') < last_buffer n strs
     then Inr (tmp @ elements_text i strs) else Inl Undefined)"
  using assms
proof (induction i n tmp strs rule: bson_text.induct)
  case (3 i n tmp s s' ss)
  let ?n = "max n (length s + 36)"
  have n: "(if n < length s + 36 then length s + 36 else n) = ?n" by simp
  have "length (show_nat i) \<le> 28" using "3.prems"(2) by (intro length_show_nat) auto
  then have fits: "length (element_text i s '','') < ?n"
    using length_c_str [of s] by (simp add: length_element_text)
  have "bson_text (i + 1) ?n (tmp @ element_text i s '','') (s' # ss) =
      (if length (element_text (i + 1 + length (s' # ss) - 1) (last (s' # ss)) '' }'') < last_buffer ?n (s' # ss)
       then Inr ((tmp @ element_text i s '','') @ elements_text (i + 1) (s' # ss)) else Inl Undefined)"
    using "3.IH" [of ?n] "3.prems" fits n by (simp add: sprintf_into_def)
  with fits n show ?case by (simp add: sprintf_into_def Let_def last_buffer_def)
qed (simp_all add: sprintf_into_def last_buffer_def)

lemma last_buffer_single [simp]: "last_buffer n [s] = n"
  by (simp add: last_buffer_def)

text \<open>
  C33: When \<open>toBSONObj\<close> stays within its buffer. For at most \<open>10 ^ 28\<close> documents it parses the
  text of all of them exactly if the last one, with its key and the closing brace, is shorter
  than the buffer that 2048 characters or the longest earlier document asked for; otherwise it
  writes past the end. No earlier document can do that.
\<close>

theorem toBSONObj_buffer:
  assumes "strs \<noteq> []" "length strs \<le> 10 ^ 28"
  shows "toBSONObj D strs =
    (if length (element_text (length strs - 1) (last strs) '' }'') < last_buffer 2048 strs
     then fromjson D (''{ '' @ elements_text 0 strs) else Inl Undefined)"
  using bson_text_eq [of strs 0 2048 "''{ ''"] assms by (simp add: toBSONObj_def)

theorem toBSONObj_buffer_witness:
  "toBSONObj sample_driver [replicate 2040 CHR ''x''] = Inl Undefined \<and>
   toBSONObj sample_driver [replicate 3000 CHR ''x'', ''y''] =
     fromjson sample_driver (''{ '' @ elements_text 0 [replicate 3000 CHR ''x'', ''y''])"
proof (rule conjI)
  have c: "c_str (replicate n CHR ''x'') = replicate n CHR ''x''" for n
    by (simp add: c_str_def)
  show "toBSONObj sample_driver [replicate 2040 CHR ''x''] = Inl Undefined"
    using toBSONObj_buffer [of "[replicate 2040 CHR ''x'']" sample_driver]
    by (simp add: length_element_text c show_nat.simps [of 0])
  show "toBSONObj sample_driver [replicate 3000 CHR ''x'', ''y''] =
     fromjson sample_driver (''{ '' @ elements_text 0 [replicate 3000 CHR ''x'', ''y''])"
    using toBSONObj_buffer [of "[replicate 3000 CHR ''x'', ''y'']" sample_driver]
    by (simp add: length_element_text last_buffer_def show_nat.simps [of "Suc 0"] c_str_def)
qed

section \<open>Error messages\<close>

text \<open>
  What \<open>send_error\<close> finds: nothing for an unknown command, which the strict comparison leaves out;
  the message of another error for a response that is too long; and an entry behind the table for a
  processor that is open already.
\<close>

theorem send_error_table:
  "send_error UnknownCommand = Inr None" "send_error OK = Inr None"
  "send_error ResponseTooLong = Inr (Some (ERROR_MESSAGE ''Internal Error(invalid error code)''))"
  "send_error AlreadyOpen = Inl Undefined"
  by (simp_all add: send_error_def error_messages_def less_response_def Let_def)

section \<open>Responses\<close>

lemma new_packet_fields [simp]:
  "out_packet_id (set_packet_id i p) = i" "m_body (set_body b p) = b"
  "out_packet_id (set_body b p) = out_packet_id p"
  by (simp_all add: set_packet_id_def set_body_def)

lemma response_text_frame:
  assumes "NUL \<notin> set i" "length i \<le> packet_id_length" "length (jsonString D b) < max_body_length"
  shows "get_response_string D (set_packet_id i new_out_packet) b = Inr (frame_of i (jsonString D b))"
proof -
  have "length (jsonString D b) + 32 < 2 ^ 63" using assms(3) by (simp add: max_body_length_def)
  with assms show ?thesis
    unfolding get_response_string_def Let_def by (subst pack_frame) (simp_all add: packet_id_length_def)
qed

text \<open>The text of a response with documents, when their object is \<open>obj\<close>.\<close>

definition page_response :: "('o, 'db) driver \<Rightarrow> 'o \<Rightarrow> string" where
  "page_response D obj = jsonString D (append_object D ''docs'' obj (init_response_builder D OK None ''do_read'' (emptyObj D)))"

lemma pack_response_docs_fits:
  assumes "docs \<noteq> []" "length docs \<le> 10 ^ 28"
    "length (element_text (length docs - 1) (last docs) '' }'') < last_buffer 2048 docs"
    "fromjson D (''{ '' @ elements_text 0 docs) = Inr obj"
    "NUL \<notin> set i" "length i \<le> packet_id_length" "length (page_response D obj) < max_body_length"
  shows "pack_response_docs D (set_packet_id i new_out_packet) OK docs ''do_read'' = Inr (frame_of i (page_response D obj))"
proof -
  have "toBSONObj D docs = Inr obj"
    using bson_text_eq [of docs 0 2048 "''{ ''"] assms(1-4) by (simp add: toBSONObj_def)
  with assms(1) response_text_frame [OF assms(5,6) assms(7) [unfolded page_response_def]] show ?thesis
    by (simp add: pack_response_docs_def page_response_def Let_def)
qed

text \<open>
  Every response fits. Whatever the response object prints as, \<open>get_response_string\<close> sends
  one frame with the processor's id and a body below the 10 MB limit of a packet: the text
  itself if it is below the limit, and the short "response too long" text otherwise.
\<close>

theorem response_frame:
  assumes "NUL \<notin> set i" "length i \<le> packet_id_length" "length (too_long D) < max_body_length"
  shows "\<exists>json. get_response_string D (set_packet_id i new_out_packet) b = Inr (frame_of i json) \<and>
    length json < max_body_length \<and>
    json = (if length (jsonString D b) < max_body_length then jsonString D b else too_long D)"
proof -
  let ?json = "if length (jsonString D b) < max_body_length then jsonString D b else too_long D"
  have l: "length ?json < max_body_length" using assms(3) by simp
  then have "length ?json + 32 < 2 ^ 63" by (simp add: max_body_length_def)
  with assms have "fst (pack (set_body ?json (set_packet_id i new_out_packet))) = Inr (frame_of i ?json)"
    by (subst pack_frame) (simp_all add: packet_id_length_def)
  with l show ?thesis unfolding get_response_string_def Let_def by (intro exI [of _ ?json]) blast
qed

theorem response_frame_witness:
  "get_response_string sample_driver (set_packet_id ''id'' new_out_packet) [(''_id'', VOid ''x'')] =
     Inr (frame_of ''id'' ''x'')"
  using response_frame [of "''id''" sample_driver "[(''_id'', VOid ''x'')]"]
  by (simp add: packet_id_length_def max_body_length_def too_long_def sample_driver_def sample_oid_def)

section \<open>Opening and closing\<close>

lemma on_read_eq: "on_read f p = (r, p') \<longleftrightarrow> (\<exists>b. f (m_read_broker p) = (r, b) \<and> p' = p\<lparr>m_read_broker := b\<rparr>)"
  by (auto simp: on_read_def split: prod.splits)

lemma on_write_eq: "on_write f p = (r, p') \<longleftrightarrow> (\<exists>b. f (m_write_broker p) = (r, b) \<and> p' = p\<lparr>m_write_broker := b\<rparr>)"
  by (auto simp: on_write_def split: prod.splits)

text \<open>
  A processor with several users stays open: while more than one user is counted, \<open>close\<close>
  takes one off the count and leaves both brokers and their threads alone.
\<close>

theorem close_keeps_other_users:
  assumes "1 < unat (m_refcount p)"
  shows "close_processor p = (Inr (), p\<lparr>m_refcount := m_refcount p - 1\<rparr>) \<and>
    unat (m_refcount p - 1) = unat (m_refcount p) - 1"
proof -
  have "m_refcount p > 1" "m_refcount p \<noteq> 0" using assms by (auto simp: word_less_nat_alt)
  then show ?thesis
    by (simp add: close_processor_def unat_minus_one)
qed

definition sample_processor :: "size_t \<Rightarrow> bson broker \<Rightarrow> bson broker \<Rightarrow> bson processor" where
  "sample_processor n r w = \<lparr>m_read_broker = r, m_write_broker = w, m_response_buf_size = 0,
     m_read_thread = m_connected r, m_write_thread = m_connected w, m_processor_id = ''id'',
     m_refcount = n, m_purpose_name = []\<rparr>"

theorem close_keeps_other_users_witness:
  "close_processor (sample_processor 2 (sample_open [] []) (sample_open [] [])) =
     (Inr (), sample_processor 1 (sample_open [] []) (sample_open [] []))"
  using close_keeps_other_users [of "sample_processor 2 (sample_open [] []) (sample_open [] [])"]
  by (simp add: sample_processor_def)

lemma term_processor_closed:
  assumes "term_processor p = (Inr (), p')" "m_read_thread p = m_connected (m_read_broker p)"
    "m_write_thread p = m_connected (m_write_broker p)"
  shows "\<not> m_read_thread p' \<and> \<not> m_write_thread p' \<and> \<not> m_connected (m_read_broker p') \<and>
    \<not> m_connected (m_write_broker p') \<and> m_refcount p' = m_refcount p"
  using assms
  by (auto simp: term_processor_def andthen_def on_read_eq on_write_eq close_broker_def reset_def
      split: prod.splits sum.splits if_splits)

text \<open>
  The last user's \<open>close\<close> shuts the processor down: if it returns, no user is counted, both
  brokers are disconnected and no thread is left, so that a later \<open>open\<close> starts afresh.
\<close>

theorem last_close_terminates:
  assumes "close_processor p = (Inr (), p')" "unat (m_refcount p) \<le> 1"
    "m_read_thread p = m_connected (m_read_broker p)" "m_write_thread p = m_connected (m_write_broker p)"
  shows "m_refcount p' = 0 \<and> \<not> m_read_thread p' \<and> \<not> m_write_thread p' \<and>
    \<not> m_connected (m_read_broker p') \<and> \<not> m_connected (m_write_broker p')"
proof -
  have "\<not> m_refcount p > 1" using assms(2) by (simp add: word_less_nat_alt)
  with assms(1) have "term_processor (p\<lparr>m_refcount := 0\<rparr>) = (Inr (), p')"
    by (simp add: close_processor_def)
  from term_processor_closed [OF this] assms(3,4) show ?thesis by simp
qed

lemma stop_reading_sample: "\<exists>b. stop_reading (sample_open [''a''] []) = (Inr (), b)"
  by (simp add: stop_reading_def set_exit_def broker_size_def on_queue_def queue_size_def size_of_nat_def
      batch_pop_def batch_pop_loop.simps batch_round_def broker_pop_def pop_def take_front_def int_to_size_def Let_def)

theorem last_close_terminates_witness:
  "\<exists>p'. close_processor (sample_processor 1 (sample_open [''a''] []) (sample_open [] [])) = (Inr (), p') \<and>
     m_refcount p' = 0 \<and> \<not> m_connected (m_read_broker p')"
proof -
  let ?p = "sample_processor 1 (sample_open [''a''] []) (sample_open [] [])"
  obtain b where b: "stop_reading (sample_open [''a''] []) = (Inr (), b)"
    using stop_reading_sample by blast
  have "\<exists>p'. close_processor ?p = (Inr (), p')"
    by (simp add: close_processor_def term_processor_def sample_processor_def on_read_def on_write_def b
        stop_writing_def)
  then obtain p' where p': "close_processor ?p = (Inr (), p')" by blast
  with last_close_terminates [OF p'] show ?thesis by (simp add: sample_processor_def)
qed

section \<open>Which requests are served\<close>

text \<open>
  A request with any command number other than the five served ones, between the first and
  the last of them or outside, ends in a thrown string, which is not a \<open>std::exception\<close>; the
  processor is unchanged and no response is packed, in particular not the one for an unknown
  command.
\<close>

theorem unknown_command_throws:
  assumes "fromjson D (c_str json) = Inr obj" "getIntField D obj ''cmd'' \<notin> {100, 101, 102, 103, 106}"
  shows "\<exists>m. process_json D db json p = (Inl (Thrown_cstr m), p) \<and> \<not> is_std_exception (Thrown_cstr m)"
  using assms
  by (auto simp: process_json_def parse_request_def process_def command_of_int_def Let_def)

theorem unknown_command_throws_witness:
  "\<exists>m. process_json (sample_driver\<lparr>fromjson := \<lambda>_. Inr [(''cmd'', VInt 104)]\<rparr>) [] ''{cmd:104}''
     (sample_processor 0 (new_broker sample_driver) (new_broker sample_driver)) =
     (Inl (Thrown_cstr m), sample_processor 0 (new_broker sample_driver) (new_broker sample_driver))"
  using unknown_command_throws [of "sample_driver\<lparr>fromjson := \<lambda>_. Inr [(''cmd'', VInt 104)]\<rparr>"
      "''{cmd:104}''" "[(''cmd'', VInt 104)]" "[]"
      "sample_processor 0 (new_broker sample_driver) (new_broker sample_driver)"]
  by (simp add: sample_driver_def sample_int_def)

text \<open>
  A read or write request for a processor whose broker is not open (before the first \<open>OPEN\<close>
  or after the last \<open>CLOSE\<close>) fails an assertion, which ends the server for all clients;
  only a rewind is answered without an open broker.
\<close>

theorem request_needs_open_broker:
  assumes "\<not> m_connected (m_read_broker p)" "\<not> m_connected (m_write_broker p)"
  shows "process D db OK READ obj p = (Inl Assertion_failed, p) \<and>
    process D db OK WRITE obj p = (Inl Assertion_failed, p) \<and>
    process D db OK REWIND obj p =
      (pack_response D (set_packet_id (m_processor_id p) new_out_packet) OK ''Rewind Action'' None, p)"
  using assms by (simp add: process_def do_rewind_def Let_def)

theorem request_needs_open_broker_witness:
  "fst (process sample_driver [] OK READ [] (sample_processor 0 (new_broker sample_driver) (new_broker sample_driver))) =
     Inl Assertion_failed"
  using request_needs_open_broker [of "sample_processor 0 (new_broker sample_driver) (new_broker sample_driver)" sample_driver]
  by (simp add: sample_processor_def new_broker_def reset_def)

section \<open>Reading and writing\<close>

lemma do_read_quiet:
  assumes "quiet (m_read_broker p)" "\<not> m_querying (m_read_broker p)"
    "sint (m_read_retry (m_read_broker p)) = 1" "0 < sint (m_read_timeout (m_read_broker p))"
    "0 < sint (m_limit (m_read_broker p))"
  defines "q \<equiv> m_deque (m_queue (m_read_broker p))" and "l \<equiv> nat (sint (m_limit (m_read_broker p)))"
  shows "\<exists>p'. do_read D packet p =
      (if q = [] then pack_response_docs D packet NoMoreItem [] ''do_read no more items''
       else pack_response_docs D packet OK (take l q) ''do_read'', p') \<and>
    m_deque (m_queue (m_read_broker p')) = drop l q \<and>
    settings (m_read_broker p') = settings (m_read_broker p)"
proof -
  let ?n = "int_to_size (m_limit (m_read_broker p))"
  have n: "unat ?n = l" using assms(5) by (simp add: unat_int_to_size l_def)
  have l: "0 < l" "l < 2 ^ 31" using assms(5) sint_lt [of "m_limit (m_read_broker p)"] by (auto simp: l_def)
  have "0 < ?n" using n l by (simp add: word_gt_0_no unat_gt_0 [symmetric] word_gt_0)
  moreover have "0 < int_to_size (m_read_timeout (m_read_broker p))"
    using assms(4) unat_int_to_size [of "m_read_timeout (m_read_broker p)"]
    by (simp add: word_gt_0 unat_gt_0 [symmetric])
  ultimately obtain b where b: "batch_pop ?n ([], m_read_broker p) =
      (Inr (if l \<le> length q then size_of_nat l else ULONG_MAX), (take l q, b))"
    "m_deque (m_queue b) = drop l q" "settings b = settings (m_read_broker p)"
    using batch_pop_from_quiet [OF assms(1) _ assms(3) _ assms(2), of ?n "[]"] n q_def by auto
  have "size_of_nat l \<noteq> ULONG_MAX" using l(2) by (intro size_of_nat_not_max) simp
  with b l show ?thesis by (auto simp: do_read_def Let_def)
qed

text \<open>
  C31: A read request on a connected broker with a positive limit and timeout, one retry and no query
  running, whose queue nobody else uses: with \<open>l\<close>
  documents or more in the queue the response holds the first \<open>l\<close>, with fewer all of them,
  and the response "no more items" is given exactly if the queue is empty. What was sent is
  gone from the queue, the rest stays.
\<close>

theorem do_read_response:
  assumes "quiet (m_read_broker p)" "\<not> m_querying (m_read_broker p)"
    "sint (m_read_retry (m_read_broker p)) = 1" "0 < sint (m_read_timeout (m_read_broker p))"
    "0 < sint (m_limit (m_read_broker p))"
  defines "q \<equiv> m_deque (m_queue (m_read_broker p))" and "l \<equiv> nat (sint (m_limit (m_read_broker p)))"
  shows "\<exists>p'. do_read D packet p =
      (if q = [] then pack_response_docs D packet NoMoreItem [] ''do_read no more items''
       else pack_response_docs D packet OK (take l q) ''do_read'', p') \<and>
    m_deque (m_queue (m_read_broker p')) = drop l q \<and>
    settings (m_read_broker p') = settings (m_read_broker p)"
  unfolding q_def l_def by (rule do_read_quiet [OF assms(1-5)])

definition sample_store :: "c_int \<Rightarrow> string list \<Rightarrow> bson broker" where
  "sample_store l docs = (sample_open docs [])\<lparr>m_limit := l\<rparr>"

lemma sample_store_fields [simp]:
  "m_inited (sample_store l d)" "m_connected (sample_store l d)" "\<not> m_querying (sample_store l d)"
  "m_read_retry (sample_store l d) = 1" "m_read_timeout (sample_store l d) = 1"
  "m_limit (sample_store l d) = l"
  "m_queue (sample_store l d) = \<lparr>m_limit_size = 10, m_deque = d, m_signals = [], m_sched = []\<rparr>"
  by (simp_all add: sample_store_def)

lemma quiet_sample_store [simp]: "quiet (sample_store l d)"
  by (simp add: quiet_def)

lemma sample_processor_fields [simp]:
  "m_read_broker (sample_processor n r w) = r" "m_write_broker (sample_processor n r w) = w"
  "m_processor_id (sample_processor n r w) = ''id''"
  by (simp_all add: sample_processor_def)

theorem do_read_response_witness:
  "\<exists>p'. do_read sample_driver new_out_packet (sample_processor 1 (sample_store 2 [''a'', ''b'', ''c'']) (sample_open [] [])) =
      (pack_response_docs sample_driver new_out_packet OK [''a'', ''b''] ''do_read'', p') \<and>
    m_deque (m_queue (m_read_broker p')) = [''c'']"
  using do_read_response [of "sample_processor 1 (sample_store 2 [''a'', ''b'', ''c'']) (sample_open [] [])"
      sample_driver new_out_packet]
  by auto

lemma write_loop_full:
  assumes "quiet c" "unat (m_limit_size (m_queue c)) \<le> length (m_deque (m_queue c))" "xs \<noteq> []"
  shows "\<exists>b'. write_loop xs c = (Inl Blocked, b') \<and> m_deque (m_queue b') = m_deque (m_queue c) \<and>
    settings b' = settings c \<and> quiet b'"
proof -
  have "broker_push xs c = (Inl Blocked, c\<lparr>m_queue := snd (push_all xs 0 (m_queue c))\<rparr>)"
    "m_deque (snd (push_all xs 0 (m_queue c))) = m_deque (m_queue c)"
    "m_sched (snd (push_all xs 0 (m_queue c))) = []"
    using assms(1,2) by (simp_all add: broker_push_def on_queue_def push_all_full_quiet quiet_def)
  with assms(1,3) show ?thesis by (simp add: write_loop.simps quiet_def)
qed

text \<open>The writing loop on a quiet queue: what fits is queued, then it blocks.\<close>

lemma write_loop_quiet:
  assumes "quiet b"
  defines "room \<equiv> unat (m_limit_size (m_queue b)) - length (m_deque (m_queue b))"
  shows "\<exists>b'. write_loop tmp b = (if length tmp \<le> room then Inr () else Inl Blocked, b') \<and>
    m_deque (m_queue b') = m_deque (m_queue b) @ take room (rev tmp) \<and> settings b' = settings b \<and> quiet b'"
proof (cases "tmp = []")
  case True
  with assms(1) show ?thesis by (simp add: write_loop.simps)
next
  case tmp: False
  have q: "m_sched (m_queue b) = []" "m_inited b" "m_connected b" using assms(1) by (simp_all add: quiet_def)
  show ?thesis
  proof (cases "length (m_deque (m_queue b)) < unat (m_limit_size (m_queue b))")
    case False
    then have "room = 0" by (simp add: room_def)
    with write_loop_full [OF assms(1) _ tmp] False tmp show ?thesis by auto
  next
    case True
    let ?k = "min (length tmp) room"
    let ?b = "b\<lparr>m_queue := (m_queue b)\<lparr>m_deque := m_deque (m_queue b) @ take ?k (rev tmp),
        m_signals := m_signals (m_queue b) @ [Notified Can_pop]\<rparr>\<rparr>"
    have "broker_push tmp b = (Inr (int_to_size (word_of_nat (length (m_deque (m_queue b)) + ?k)),
        take (length tmp - ?k) tmp), ?b)"
      using q push_all_quiet [OF q(1) True, of ?k tmp 0]
      by (simp add: broker_push_def on_queue_def room_def del: of_nat_add)
    then have w: "write_loop tmp b = write_loop (take (length tmp - ?k) tmp) ?b"
      using tmp by (subst write_loop.simps) simp
    have k: "take ?k (rev tmp) = take room (rev tmp)" by (simp add: min_def)
    show ?thesis
    proof (cases "length tmp \<le> room")
      case True
      with w k q show ?thesis by (simp add: write_loop.simps quiet_def)
    next
      case over: False
      have "quiet ?b" using q by (simp add: quiet_def)
      moreover have "unat (m_limit_size (m_queue ?b)) \<le> length (m_deque (m_queue ?b))"
        "take (length tmp - ?k) tmp \<noteq> []"
        using over True by (auto simp: room_def)
      ultimately obtain b' where "write_loop (take (length tmp - ?k) tmp) ?b = (Inl Blocked, b')"
        "m_deque (m_queue b') = m_deque (m_queue ?b)" "settings b' = settings ?b" "quiet b'"
        using write_loop_full by blast
      with over w k show ?thesis by simp
    qed
  qed
qed

text \<open>
  A write request on a broker whose queue nobody empties meanwhile: if all documents fit, they
  are queued behind those that are there, the last one first, and the client gets its
  response; if not, as many as fit are queued, from the end, and the call (with it the
  server's only io thread) waits for the writing thread.
\<close>

theorem do_write_queues:
  assumes "quiet (m_write_broker p)"
  defines "q \<equiv> m_queue (m_write_broker p)"
  shows "let docs = map (jsonString D) (objVals D (getObjectField D upd ''docs'')) in
   \<exists>p'. do_write D packet upd p =
      (if length docs \<le> unat (m_limit_size q) - length (m_deque q)
       then pack_response D packet OK ''do_write'' None else Inl Blocked, p') \<and>
    m_deque (m_queue (m_write_broker p')) =
      m_deque q @ take (unat (m_limit_size q) - length (m_deque q)) (rev docs) \<and>
    settings (m_write_broker p') = settings (m_write_broker p)"
proof -
  let ?docs = "map (jsonString D) (objVals D (getObjectField D upd ''docs''))"
  obtain b where b: "write_loop ?docs (m_write_broker p) =
      (if length ?docs \<le> unat (m_limit_size q) - length (m_deque q) then Inr () else Inl Blocked, b)"
    "m_deque (m_queue b) = m_deque q @ take (unat (m_limit_size q) - length (m_deque q)) (rev ?docs)"
    "settings b = settings (m_write_broker p)"
    using write_loop_quiet [OF assms(1), of ?docs] q_def by blast
  then show ?thesis
    by (auto simp: do_write_def on_write_def Let_def)
qed

theorem do_write_queues_witness:
  "\<exists>p'. do_write sample_driver new_out_packet
        [(''docs'', VObj [(''0'', VObj [(''_id'', VOid ''x'')]), (''1'', VObj [(''_id'', VOid ''y'')])])]
        (sample_processor 1 (sample_open [] []) (sample_store 2 [''w''])) =
      (pack_response sample_driver new_out_packet OK ''do_write'' None, p') \<and>
    m_deque (m_queue (m_write_broker p')) = [''w'', ''y'', ''x'']"
  using do_write_queues [of "sample_processor 1 (sample_open [] []) (sample_store 2 [''w''])" sample_driver
      "[(''docs'', VObj [(''0'', VObj [(''_id'', VOid ''x'')]), (''1'', VObj [(''_id'', VOid ''y'')])])]"
      new_out_packet]
  by (auto simp: sample_driver_simps sample_vals_def sample_obj_def sample_oid_def Let_def)

section \<open>The processor's invariant\<close>

definition processor_ok :: "('o broker \<Rightarrow> bool) \<Rightarrow> 'o processor \<Rightarrow> bool" where
  "processor_ok ok p \<longleftrightarrow> ok (m_read_broker p) \<and> ok (m_write_broker p) \<and> m_processor_id p \<noteq> [] \<and>
     m_read_thread p = m_connected (m_read_broker p) \<and> m_write_thread p = m_connected (m_write_broker p)"

lemma open_broker_connected:
  assumes "open_broker D db x b = (r, b')" "\<not> m_connected b"
  shows "m_connected b' \<longleftrightarrow> r = Inr ()"
proof -
  obtain r1 b1 where i: "init D x b = (r1, b1)" by (metis prod.exhaust)
  have "m_connected b1 = m_connected b"
    using i by (auto simp: init_def Let_def andthen_def split: if_splits prod.splits sum.splits
        dest: default_parameters_status)
  with assms i show ?thesis
    by (auto simp: open_broker_def andthen_def Let_def split: sum.splits option.splits)
qed

lemma keeps_connected:
  "m_connected (snd (broker_size b)) = m_connected b"
  "m_connected (snd (snd (batch_pop n (docs, b)))) = m_connected b"
  "m_connected (snd (broker_push docs b)) = m_connected b"
  "m_connected (set_exit b) = m_connected b" "m_connected (rewind b) = m_connected b"
  "m_connected (join_thread b) = m_connected b" "\<not> m_connected (close_broker b)"
proof -
  show "m_connected (snd (broker_size b)) = m_connected b"
    using broker_size_settings [of b] settings_fields(2) by (cases "broker_size b") auto
  show "m_connected (snd (snd (batch_pop n (docs, b)))) = m_connected b"
    using batch_pop_settings [of n docs b] settings_fields(2) by (cases "batch_pop n (docs, b)") auto
  show "m_connected (snd (broker_push docs b)) = m_connected b"
    using broker_push_settings [of docs b] settings_fields(2) by (cases "broker_push docs b") auto
qed (simp_all add: set_exit_def rewind_def join_thread_def close_broker_def reset_def)

lemma new_broker_connected: "\<not> m_connected (new_broker D)"
  by (simp add: new_broker_def reset_def)

text \<open>
  What the processor relies on: a property of brokers that a new broker has and that each of
  the calls the processor makes keeps, whatever the call's outcome.
\<close>

locale broker_contract =
  fixes D :: "('o, 'db) driver" and ok :: "'o broker \<Rightarrow> bool"
  assumes ok_new: "ok (new_broker D)"
    and ok_open: "ok b \<Longrightarrow> ok (snd (open_broker D db x b))"
    and ok_close: "ok b \<Longrightarrow> ok (close_broker b)"
    and ok_rewind: "ok b \<Longrightarrow> ok (rewind b)"
    and ok_set_exit: "ok b \<Longrightarrow> ok (set_exit b)"
    and ok_join: "ok b \<Longrightarrow> ok (join_thread b)"
    and ok_size: "ok b \<Longrightarrow> ok (snd (broker_size b))"
    and ok_push: "ok b \<Longrightarrow> ok (snd (broker_push docs b))"
    and ok_batch: "ok b \<Longrightarrow> ok (snd (snd (batch_pop n (docs, b))))"
begin

lemma new_processor_ok: "new_processor D i = Inr p \<Longrightarrow> processor_ok ok p"
  using ok_new
  by (auto simp: new_processor_def reset_processor_def processor_ok_def new_broker_connected Let_def
      split: if_splits)

lemma open_ok:
  assumes "processor_ok ok p" shows "processor_ok ok (snd (open_processor D db pu obj p))"
proof (cases pu)
  case Read
  obtain r b where o: "open_broker D db (Some obj) (m_read_broker p) = (r, b)" by fastforce
  with ok_open [of "m_read_broker p" db "Some obj"] open_broker_connected [OF o] assms Read
  show ?thesis
    by (cases r) (auto simp: open_processor_def on_read_def processor_ok_def set_purpose_name_def)
next
  case Write
  obtain r b where o: "open_broker D db (Some obj) (m_write_broker p) = (r, b)" by fastforce
  with ok_open [of "m_write_broker p" db "Some obj"] open_broker_connected [OF o] assms Write
  show ?thesis
    by (cases r) (auto simp: open_processor_def on_write_def processor_ok_def set_purpose_name_def)
qed (use assms in \<open>simp add: open_processor_def\<close>)

lemma stop_reading_ok:
  "ok b \<Longrightarrow> ok (snd (stop_reading b)) \<and> m_connected (snd (stop_reading b)) = m_connected b"
proof -
  assume b: "ok b"
  obtain r1 b1 where s: "broker_size (set_exit b) = (r1, b1)" by fastforce
  have b1: "ok b1" "m_connected b1 = m_connected b"
    using ok_size [OF ok_set_exit [OF b]] keeps_connected(1) [of "set_exit b"] keeps_connected(4) [of b] s
    by simp_all
  obtain r2 docs b2 where p: "batch_pop 1 ([], b1) = (r2, docs, b2)" by (metis prod.exhaust)
  have "ok b2" "m_connected b2 = m_connected b"
    using ok_batch [OF b1(1), of 1 "[]"] keeps_connected(2) [of 1 "[]" b1] b1(2) p by simp_all
  with b1 s p ok_join show ?thesis
    by (cases r1; cases r2) (simp_all add: stop_reading_def keeps_connected)
qed

lemma stop_writing_ok:
  "ok b \<Longrightarrow> ok (snd (stop_writing b)) \<and> m_connected (snd (stop_writing b)) = m_connected b"
  by (simp add: stop_writing_def wait_update_done_def keeps_connected ok_join ok_set_exit)

lemma term_ok:
  assumes "processor_ok ok p" shows "processor_ok ok (snd (term_processor p))"
proof -
  obtain r1 b1 where r: "stop_reading (m_read_broker p) = (r1, b1)" by fastforce
  obtain r2 b2 where w: "stop_writing (m_write_broker p) = (r2, b2)" by fastforce
  have b: "ok b1" "m_connected b1 = m_connected (m_read_broker p)"
    "ok b2" "m_connected b2 = m_connected (m_write_broker p)"
    using assms stop_reading_ok [of "m_read_broker p"] stop_writing_ok [of "m_write_broker p"] r w
    by (simp_all add: processor_ok_def)
  show ?thesis
    using assms b r w ok_close
    by (cases r1; cases r2) (auto simp: term_processor_def on_read_def on_write_def processor_ok_def keeps_connected)
qed

lemma close_ok:
  assumes "processor_ok ok p" shows "processor_ok ok (snd (close_processor p))"
proof -
  have "processor_ok ok (p\<lparr>m_refcount := n\<rparr>)" for n using assms by (simp add: processor_ok_def)
  then show ?thesis by (simp add: close_processor_def term_ok)
qed

lemma write_loop_ok:
  "ok b \<Longrightarrow> ok (snd (write_loop tmp b)) \<and> m_connected (snd (write_loop tmp b)) = m_connected b"
proof (induction tmp b rule: write_loop.induct)
  case (1 tmp b)
  obtain r b1 where p: "broker_push tmp b = (r, b1)" by fastforce
  have "ok b1" "m_connected b1 = m_connected b"
    using ok_push [OF 1(2), of tmp] keeps_connected(3) [of tmp b] p by simp_all
  moreover have "write_loop tmp b =
      (if 0 < length tmp then case r of Inl e \<Rightarrow> (Inl e, b1) | Inr (n, rest) \<Rightarrow> write_loop rest b1
       else (Inr (), b))"
    by (subst write_loop.simps) (simp add: p)
  ultimately show ?case
    using 1(1) [OF _ p [symmetric]] 1(2) by (auto split: sum.split)
qed

lemma do_read_ok:
  assumes "processor_ok ok p" shows "processor_ok ok (snd (do_read D packet p))"
proof -
  obtain r docs b where p: "batch_pop (int_to_size (m_limit (m_read_broker p))) ([], m_read_broker p) = (r, docs, b)"
    by (metis prod.exhaust)
  with assms ok_batch [of "m_read_broker p" "int_to_size (m_limit (m_read_broker p))" "[]"]
    keeps_connected(2) [of "int_to_size (m_limit (m_read_broker p))" "[]" "m_read_broker p"]
  show ?thesis by (auto simp: do_read_def processor_ok_def Let_def split: sum.splits)
qed

lemma do_write_ok:
  assumes "processor_ok ok p" shows "processor_ok ok (snd (do_write D packet upd p))"
proof -
  let ?docs = "map (jsonString D) (objVals D (getObjectField D upd ''docs''))"
  obtain r b where w: "write_loop ?docs (m_write_broker p) = (r, b)" by fastforce
  with assms write_loop_ok [of "m_write_broker p" ?docs] show ?thesis
    by (cases r) (auto simp: do_write_def on_write_def processor_ok_def Let_def)
qed

lemma process_ok:
  assumes "processor_ok ok p" shows "processor_ok ok (snd (process D db res cmd obj p))"
proof -
  have "processor_ok ok (snd (do_rewind p))"
    using assms ok_rewind by (auto simp: do_rewind_def processor_ok_def keeps_connected)
  moreover have "processor_ok ok (snd (andthen x (\<lambda>_ p. (f, p)))) = processor_ok ok (snd x)"
    for x :: "('o processor, unit) outcome" and f :: "fault + string"
    by (auto simp: andthen_def split: prod.splits sum.splits)
  ultimately show ?thesis
    using assms open_ok close_ok do_read_ok do_write_ok
    by (cases cmd) (auto simp: process_def Let_def)
qed

end
interpretation brokers: broker_contract D broker_inv for D :: "('o, 'db) driver"
proof
  show "broker_inv (new_broker D)" by (simp add: new_broker_def broker_inv_reset)
  show "broker_inv (snd (open_broker D db x b))" if "broker_inv b" for b db x
    using broker_inv_open [OF that, of D db x] by (cases "open_broker D db x b") simp
  show "broker_inv (join_thread b)" if "broker_inv b" for b :: "'o broker"
    by (rule broker_inv_settings [OF that]) (simp_all add: join_thread_def)
qed (auto simp: close_broker_def intro: inv_intro)

text \<open>
  A sequence of requests, each with the database and with what the brokers' threads do to the
  queues while it is served.
\<close>

type_synonym 'db request = "'db \<times> string interference list \<times> string interference list \<times> string"

fun serve_requests :: "('o, 'db) driver \<Rightarrow> 'db request list \<Rightarrow> 'o processor \<Rightarrow> 'o processor" where
  "serve_requests D [] p = p"
| "serve_requests D ((db, r, w, json) # rs) p =
     serve_requests D rs (snd (process_json D db json
       (p\<lparr>m_read_broker := interleave r (m_read_broker p), m_write_broker := interleave w (m_write_broker p)\<rparr>)))"

lemma interleave_connected: "m_connected (interleave sched b) = m_connected b"
  by (simp add: interleave_def)

lemma serve_requests_ok: "processor_ok broker_inv p \<Longrightarrow> processor_ok broker_inv (serve_requests D rs p)"
proof (induction D rs p rule: serve_requests.induct)
  case (2 D db r w json rs p)
  let ?p = "p\<lparr>m_read_broker := interleave r (m_read_broker p), m_write_broker := interleave w (m_write_broker p)\<rparr>"
  have "processor_ok broker_inv ?p"
    using 2(2) by (simp add: processor_ok_def broker_inv_interleave interleave_connected)
  then have "processor_ok broker_inv (snd (process_json D db json ?p))"
    using brokers.process_ok [of ?p] by (cases "parse_request D json") (auto simp: process_json_def)
  with 2(1) show ?case by simp
qed simp

text \<open>
  C30: A processor stays consistent whatever requests it gets, served or failing, and whatever its
  threads do to the queues: both brokers keep their invariant, a thread's handle is set
  exactly while its broker is connected, and the id is not empty.
\<close>

theorem processor_always_consistent:
  assumes "new_processor D i = Inr p"
  shows "processor_ok broker_inv (serve_requests D rs p)"
  by (rule serve_requests_ok [OF brokers.new_processor_ok [OF assms]])

theorem processor_always_consistent_witness:
  "\<exists>p. new_processor sample_driver ''id'' = Inr p \<and> processor_ok broker_inv (serve_requests sample_driver [([], [], [], ''x'')] p)"
proof -
  have "\<exists>p. new_processor sample_driver ''id'' = Inr p" by (simp add: new_processor_def reset_processor_def Let_def)
  then obtain p where p: "new_processor sample_driver ''id'' = Inr p" by blast
  from processor_always_consistent [OF p] p show ?thesis by blast
qed

end
