(* ===== verification/Call_Views.thy ===== *)
theory Call_Views
  imports Step_System Broker
begin

text \<open>
  The two views of concurrency in relation: a call whose critical sections are interleaved with the
  steps of another thread, and the same call in one piece under a schedule of interference. What
  the other thread does between two critical sections is put into the next entry of the schedule.
\<close>

section \<open>A call taken apart\<close>

text \<open>
  Calls as partial functions of a schedule: all results of one call under some schedule are results
  of another call under some schedule.
\<close>

definition covers :: "('e \<Rightarrow> 'r option) \<Rightarrow> ('e \<Rightarrow> 'r option) \<Rightarrow> bool" where
  "covers f g \<longleftrightarrow> (\<forall>e' r. g e' = Some r \<longrightarrow> (\<exists>e. f e = Some r))"

lemma covers_refl: "covers f f"
  by (auto simp: covers_def)

lemma covers_trans: "covers f g \<Longrightarrow> covers g h \<Longrightarrow> covers f h"
  by (simp add: covers_def) blast

lemma coversI: "(\<And>e' r. g e' = Some r \<Longrightarrow> f (h e') = Some r) \<Longrightarrow> covers f g"
  unfolding covers_def by blast

text \<open>
  \<open>inside\<close> holds while the call is in progress, \<open>returned\<close> when it is over; \<open>call c e s\<close> is what the
  rest of the call gives from \<open>s\<close> on, in one piece and under the schedule \<open>e\<close>, with \<open>None\<close> for a
  fault. One step in front of a call that returns belongs to a call that returns the same.
\<close>

locale call_view =
  fixes step :: "'s \<Rightarrow> 's \<Rightarrow> bool" and inside :: "'s \<Rightarrow> bool" and returned :: "'s \<Rightarrow> bool"
    and agrees :: "'c \<Rightarrow> 's \<Rightarrow> bool" and call :: "'c \<Rightarrow> 'e \<Rightarrow> 's \<Rightarrow> 'r option" and result :: "'s \<Rightarrow> 'r"
  assumes call_returned: "agrees c s \<Longrightarrow> returned s \<Longrightarrow> \<exists>e. call c e s = Some (result s)"
    and call_step: "agrees c s \<Longrightarrow> inside s \<Longrightarrow> step s s' \<Longrightarrow> inside s' \<or> returned s' \<Longrightarrow>
      \<exists>c'. agrees c' s' \<and> covers (\<lambda>e. call c e s) (\<lambda>e. call c' e s')"
begin

lemma run_is_call:
  assumes "(\<lambda>s s'. inside s \<and> step s s')\<^sup>*\<^sup>* s s'" "returned s'" "agrees c s"
  shows "\<exists>e. call c e s = Some (result s')"
  using assms
proof (induction arbitrary: c rule: converse_rtranclp_induct)
  case base
  then show ?case by (intro call_returned)
next
  case (step s t)
  from step.hyps(2) step.prems(1) have "inside t \<or> returned t" by (auto elim: converse_rtranclpE)
  with step.hyps(1) call_step [OF step.prems(2)] obtain c' where
    "agrees c' t" "covers (\<lambda>e. call c e s) (\<lambda>e. call c' e t)" by blast
  with step.IH [OF step.prems(1)] show ?case unfolding covers_def by blast
qed

end

section \<open>Absorbing what another thread did\<close>

text \<open>
  Another thread pushed \<open>ys\<close>, or took the first \<open>k\<close> elements, before the first entry of a schedule.
\<close>

fun absorb :: "'a list \<Rightarrow> nat \<Rightarrow> 'a interference list \<Rightarrow> 'a interference list" where
  "absorb ys k [] = [\<lparr>woken = True, added = ys, taken = k\<rparr>]"
| "absorb ys k (e # es) = e\<lparr>added := ys @ added e, taken := k + taken e\<rparr> # es"

text \<open>The queue as it is given by its elements and the schedule.\<close>

definition with_queue :: "'a list \<Rightarrow> 'a interference list \<Rightarrow> 'a sized_queue \<Rightarrow> 'a sized_queue" where
  "with_queue d es q = q\<lparr>m_deque := d, m_sched := es\<rparr>"

lemma with_queue_simps [simp]:
  "m_deque (with_queue d es q) = d" "m_sched (with_queue d es q) = es"
  "m_limit_size (with_queue d es q) = m_limit_size q" "m_signals (with_queue d es q) = m_signals q"
  "with_queue d es (with_queue d' es' q) = with_queue d es q"
  "(with_queue d es q)\<lparr>m_deque := d'\<rparr> = with_queue d' es q"
  "(with_queue d es q)\<lparr>m_sched := es'\<rparr> = with_queue d es' q"
  "(with_queue d es q)\<lparr>m_signals := sg\<rparr> = with_queue d es (q\<lparr>m_signals := sg\<rparr>)"
  "notify_one c (with_queue d es q) = with_queue d es (notify_one c q)"
  by (simp_all add: with_queue_def notify_one_def)

lemma with_queue_self: "with_queue (m_deque q) (m_sched q) q = q"
  by (simp add: with_queue_def)

lemma interfere_absorb:
  "k \<le> length d \<Longrightarrow> interfere (e\<lparr>added := ys @ added e, taken := k + taken e\<rparr>) d = interfere e (drop k (d @ ys))"
  by (simp add: interfere_def add.commute)

lemma lock_absorb:
  "k \<le> length d \<Longrightarrow> lock (with_queue d (absorb ys k es) q) = lock (with_queue (drop k (d @ ys)) es q)"
  by (cases es) (simp_all add: lock_def interfere_absorb, simp add: interfere_def)

lemma lock_skip: "lock (with_queue d (absorb [] 0 [] @ es) q) = with_queue d es q"
  by (simp add: lock_def interfere_def)

lemma wait_absorb:
  "k \<le> length d \<Longrightarrow> es \<noteq> [] \<Longrightarrow>
    wait_cond c s m (with_queue d (absorb ys k es) q) = wait_cond c s m (with_queue (drop k (d @ ys)) es q)"
  by (cases es) (simp_all add: wait_cond_def Let_def interfere_absorb)

lemma wait_no_schedule: "wait_cond c s m (with_queue d [] q) = (Inl (if s > 0 then Broker_exception m else Blocked),
    with_queue d [] (q\<lparr>m_signals := m_signals q @ [Waited c]\<rparr>))"
  by (simp add: wait_cond_def)

text \<open>A caller that is woken, and one that is not.\<close>

definition as_woken :: "bool \<Rightarrow> 'a interference list \<Rightarrow> 'a interference list" where
  "as_woken w es = (case es of [] \<Rightarrow> [\<lparr>woken = w, added = [], taken = 0\<rparr>] | e # es \<Rightarrow> e\<lparr>woken := w\<rparr> # es)"

lemma wait_woken:
  "wait_cond c s m (with_queue d (as_woken True es) q) =
    (Inr (), lock (with_queue d es (q\<lparr>m_signals := m_signals q @ [Waited c]\<rparr>)))"
  by (cases es) (simp_all add: wait_cond_def as_woken_def lock_def interfere_def Let_def)

lemma wait_deadline:
  "0 < s \<Longrightarrow> wait_cond c s m (with_queue d (as_woken False [] @ es) q) =
    (Inl (Broker_exception m), with_queue d es (q\<lparr>m_signals := m_signals q @ [Waited c]\<rparr>))"
  by (simp add: wait_cond_def as_woken_def interfere_def Let_def)

text \<open>Entries in which nothing is taken, and in which nothing is added.\<close>

definition nothing_taken :: "'a interference list \<Rightarrow> bool" where
  "nothing_taken es \<longleftrightarrow> (\<forall>e \<in> set es. taken e = 0)"

definition nothing_added :: "'a interference list \<Rightarrow> bool" where
  "nothing_added es \<longleftrightarrow> (\<forall>e \<in> set es. added e = [])"

lemma nothing_taken_simps [simp]:
  "nothing_taken []" "nothing_taken (absorb ys 0 es) = nothing_taken es"
  "nothing_taken (as_woken w es) = nothing_taken es"
  "nothing_taken (es @ es') = (nothing_taken es \<and> nothing_taken es')"
  by (cases es; auto simp: nothing_taken_def as_woken_def)+

lemma nothing_added_simps [simp]:
  "nothing_added []" "nothing_added (absorb [] k es) = nothing_added es"
  "nothing_added (as_woken w es) = nothing_added es"
  "nothing_added (es @ es') = (nothing_added es \<and> nothing_added es')"
  by (cases es; auto simp: nothing_added_def as_woken_def)+

text \<open>A broker whose caller sent signals.\<close>

definition signalled :: "signal list \<Rightarrow> 'o broker \<Rightarrow> 'o broker" where
  "signalled sg b = b\<lparr>m_queue := (m_queue b)\<lparr>m_signals := m_signals (m_queue b) @ sg\<rparr>\<rparr>"

lemma signalled_simps [simp]:
  "m_queue (signalled sg b) = (m_queue b)\<lparr>m_signals := m_signals (m_queue b) @ sg\<rparr>"
  "m_inited (signalled sg b) = m_inited b" "m_connected (signalled sg b) = m_connected b"
  "m_read_timeout (signalled sg b) = m_read_timeout b" "m_read_retry (signalled sg b) = m_read_retry b"
  "(signalled sg b)\<lparr>m_queue := q\<rparr> = b\<lparr>m_queue := q\<rparr>"
  by (simp_all add: signalled_def)

end
