(* ===== verification/Reader_Views.thy ===== *)
theory Reader_Views
  imports Reader_Batches Processor_Facts Call_Views
begin

text \<open>
  The batches of the interleaved reading thread and io thread are the batches of \<open>batch_pop\<close>, called
  in one piece, under some schedule of interference. What is proved of \<open>batch_pop\<close> and \<open>do_read\<close> for
  all schedules therefore holds between the threads of \<open>Reader_System\<close>.
\<close>

section \<open>The rest of a batch\<close>

text \<open>What is seen of a batch: the documents in the caller's vector and what is left in the queue.\<close>

type_synonym batch_view = "(string list \<times> string list) option"

fun batch_end :: "(string list \<times> 'o broker, 'a) outcome \<Rightarrow> batch_view" where
  "batch_end (Inl e, s) = None"
| "batch_end (Inr _, (docs, b)) = Some (docs, m_deque (m_queue b))"

lemma batch_end_Some: "batch_end o1 = Some (docs, d) \<Longrightarrow> \<exists>r b. o1 = (Inr r, (docs, b)) \<and> d = m_deque (m_queue b)"
  by (cases o1 rule: batch_end.cases) auto

abbreviation lock_broker :: "'o broker \<Rightarrow> 'o broker" where
  "lock_broker b \<equiv> b\<lparr>m_queue := lock (m_queue b)\<rparr>"

text \<open>
  With one retry: the end of a round after the wait for the query, the handler of the timeout, the
  round from the result of its pops on, and the round from the result of one \<open>pop\<close> on, with \<open>w\<close>
  pops to go including that one.
\<close>

definition next_round :: "nat \<Rightarrow> nat \<Rightarrow> string list \<times> 'o broker \<Rightarrow> batch_view" where
  "next_round n k s = (let s1 = (fst s, lock_broker (snd s))
     in if k = 0 then batch_end (batch_pop_loop 1 1 (m_read_timeout (snd s1)) (word_of_nat n) s1)
        else batch_end (Inr (), s1))"

definition timed_out :: "nat \<Rightarrow> nat \<Rightarrow> string list \<times> 'o broker \<Rightarrow> batch_view" where
  "timed_out n k s = (case wait_query_done (snd s) of (Inl e, b) \<Rightarrow> None | (Inr _, b) \<Rightarrow> next_round n k (fst s, b))"

definition after_pops :: "nat \<Rightarrow> nat \<Rightarrow> (string list \<times> 'o broker, unit) outcome \<Rightarrow> batch_view" where
  "after_pops n k o1 = (case fst o1 of
     Inr _ \<Rightarrow> batch_end o1 | Inl (Broker_exception m) \<Rightarrow> timed_out n k (snd o1) | Inl e \<Rightarrow> None)"

definition after_pop :: "nat \<Rightarrow> nat \<Rightarrow> nat \<Rightarrow> string list \<Rightarrow> (string sized_queue, string) outcome \<Rightarrow> 'o broker \<Rightarrow> batch_view" where
  "after_pop n w k docs r b = (case r of
     (Inl e, q) \<Rightarrow> after_pops n k (Inl e, (docs, b\<lparr>m_queue := q\<rparr>))
   | (Inr x, q) \<Rightarrow> after_pops n k
       (pop_n (w - 1) (broker_pop (int_to_size (m_read_timeout b))) (docs @ [x], b\<lparr>m_queue := q\<rparr>)))"

lemma loop_rounds:
  assumes "k \<le> 1" "n < 2 ^ 64"
  shows "batch_end (batch_pop_loop 1 (int k) (m_read_timeout b) (word_of_nat n) (docs, b)) =
    after_pops n k (pop_n n (broker_pop (int_to_size (m_read_timeout b))) (docs, b))"
proof -
  obtain r docs1 b1 where p: "pop_n n (broker_pop (int_to_size (m_read_timeout b))) (docs, b) = (r, (docs1, b1))"
    by (metis prod.exhaust)
  have n: "unat (word_of_nat n :: size_t) = n" using assms(2) by (simp add: unat_of_nat)
  have t: "m_read_timeout (snd (wait_query_done b1)) = m_read_timeout b"
    using pop_n_broker_settings [OF p] wait_query_done_settings [of b1] settings_fields(3)
    by (metis prod.collapse)
  show ?thesis
    using assms(1) t p n
    by (subst batch_pop_loop.simps)
      (auto simp: batch_round_def after_pops_def timed_out_def next_round_def Let_def le_Suc_eq
        split: sum.splits fault.splits prod.splits bool.splits)
qed

lemma pops_begin:
  assumes "m_inited b" "m_connected b" "0 < w"
  shows "after_pops n k (pop_n w (broker_pop (int_to_size (m_read_timeout b))) (docs, b)) =
    after_pop n w k docs (pop (int_to_size (m_read_timeout b)) (m_queue b)) b"
  using assms by (cases w)
    (auto simp: after_pop_def broker_pop_def on_queue_def after_pops_def split: prod.splits sum.splits)

section \<open>The rest of a batch from each place\<close>

fun resume_batch :: "'o broker \<Rightarrow> string interference list \<Rightarrow> io_pc \<Rightarrow> string list \<Rightarrow> string list \<Rightarrow> batch_view" where
  "resume_batch b es (C_pop n w k) docs d =
     after_pop n w k docs (pop (int_to_size (m_read_timeout b)) (with_queue d es (m_queue b))) b"
| "resume_batch b es (C_wait n w k) docs d =
     after_pop n w k docs (andthen (wait_cond Can_pop (int_to_size (m_read_timeout b)) ''no more items''
       (with_queue d es (m_queue b))) (\<lambda>_. take_front)) b"
| "resume_batch b es (C_woken n w k) docs d = after_pop n w k docs (take_front (lock (with_queue d es (m_queue b)))) b"
| "resume_batch b es (C_timeout n k) docs d = timed_out n k (docs, b\<lparr>m_queue := with_queue d es (m_queue b)\<rparr>)"
| "resume_batch b es (C_query n k) docs d = next_round n k (docs, b\<lparr>m_queue := with_queue d es (m_queue b)\<rparr>)"
| "resume_batch b es (C_query_wait n k) docs d = next_round n k (docs, b\<lparr>m_queue := with_queue d es (m_queue b)\<rparr>)"
| "resume_batch b es (C_retry n k) docs d = next_round n k (docs, b\<lparr>m_queue := with_queue d es (m_queue b)\<rparr>)"
| "resume_batch b es _ docs d = batch_end (Inr (), (docs, b\<lparr>m_queue := with_queue d es (m_queue b)\<rparr>))"

text \<open>The places of a batch of \<open>n\<close> with one retry.\<close>

fun in_place :: "nat \<Rightarrow> io_pc \<Rightarrow> bool" where
  "in_place N (C_pop n w k) \<longleftrightarrow> n = N \<and> 0 < w \<and> k \<le> 1"
| "in_place N (C_wait n w k) \<longleftrightarrow> n = N \<and> 0 < w \<and> k \<le> 1"
| "in_place N (C_woken n w k) \<longleftrightarrow> n = N \<and> 0 < w \<and> k \<le> 1"
| "in_place N (C_timeout n k) \<longleftrightarrow> n = N \<and> k \<le> 1"
| "in_place N (C_query n k) \<longleftrightarrow> n = N \<and> k \<le> 1"
| "in_place N (C_query_wait n k) \<longleftrightarrow> n = N \<and> k \<le> 1"
| "in_place N (C_retry n k) \<longleftrightarrow> n = N \<and> k \<le> 1"
| "in_place N _ \<longleftrightarrow> False"

text \<open>A batch that returns from one situation also returns from the situation before it.\<close>

definition situated :: "'o broker \<times> io_pc \<times> string list \<times> string list \<Rightarrow> string interference list \<Rightarrow> batch_view" where
  "situated x es = (case x of (b, pc, docs, d) \<Rightarrow> if nothing_taken es then resume_batch b es pc docs d else None)"

abbreviation precedes :: "'o broker \<times> io_pc \<times> string list \<times> string list \<Rightarrow>
    'o broker \<times> io_pc \<times> string list \<times> string list \<Rightarrow> bool" where
  "precedes x x' \<equiv> covers (situated x) (situated x')"

lemma precedesI:
  assumes "\<And>es. nothing_taken es \<Longrightarrow> nothing_taken (f es)"
    "\<And>es r. resume_batch b' es pc' docs' d' = Some r \<Longrightarrow> resume_batch b (f es) pc docs d = Some r"
  shows "precedes (b, pc, docs, d) (b', pc', docs', d')"
  by (rule coversI [of _ _ f]) (use assms in \<open>auto simp: situated_def split: if_splits\<close>)

subsection \<open>Steps of the reading thread\<close>

lemma wait_query_absorb:
  "es \<noteq> [] \<or> \<not> m_querying b \<Longrightarrow> timed_out n k (docs, b\<lparr>m_queue := with_queue d (absorb ys 0 es) q\<rparr>) =
    timed_out n k (docs, b\<lparr>m_queue := with_queue (d @ ys) es q\<rparr>)"
  using lock_absorb [of 0 d ys es q]
  by (cases es) (auto simp: timed_out_def wait_query_done_def next_round_def Let_def)

lemma reader_added:
  assumes "in_place n pc"
  shows "precedes (b, pc, docs, d) (b, pc, docs, d @ ys)"
proof -
  have l: "lock (with_queue d (absorb ys 0 es) q) = lock (with_queue (d @ ys) es q)" for es and q :: "string sized_queue"
    using lock_absorb [of 0 d ys es q] by simp
  show ?thesis
  proof (cases pc)
    case (C_wait n w k)
    let ?f = "\<lambda>es. if es = [] then as_woken False (absorb ys 0 es) else absorb ys 0 es"
    show ?thesis
    proof (rule precedesI [of ?f])
      show "resume_batch b es pc docs (d @ ys) = Some r \<Longrightarrow> resume_batch b (?f es) pc docs d = Some r" for es r
        using wait_absorb [of 0 d es Can_pop _ _ ys] C_wait
        by (cases es) (auto simp: wait_cond_def as_woken_def interfere_def after_pop_def after_pops_def Let_def split: if_splits)
      show "nothing_taken es \<Longrightarrow> nothing_taken (?f es)" for es
        by (simp del: absorb.simps)
    qed
  next
    case (C_timeout n k)
    show ?thesis
    proof (rule precedesI [of "absorb ys 0"])
      show "resume_batch b es pc docs (d @ ys) = Some r \<Longrightarrow> resume_batch b (absorb ys 0 es) pc docs d = Some r" for es r
        using wait_query_absorb [of es b n k docs d ys "m_queue b"] C_timeout
        by (cases "es \<noteq> [] \<or> \<not> m_querying b") (auto simp: timed_out_def wait_query_done_def)
    qed simp
  qed (rule precedesI [of "absorb ys 0"], simp, use assms l in \<open>simp add: pop_def next_round_def\<close>)+
qed

text \<open>The signals the caller sent do not matter for the rest.\<close>

lemma after_pop_queue [simp]:
  "after_pop n w k docs r (signalled sg b) = after_pop n w k docs r b"
  "after_pop n w k docs r (b\<lparr>m_queue := q\<rparr>) = after_pop n w k docs r b"
  by (simp_all add: after_pop_def split: prod.split sum.split)

lemma reader_woke:
  "\<exists>sg. precedes (b, pc, docs, d) (signalled sg b, woken_consumer pc, docs, d)"
proof (cases pc)
  case (C_wait n w k)
  have "precedes (b, pc, docs, d) (signalled [Waited Can_pop] b, woken_consumer pc, docs, d)"
    by (rule precedesI [of "as_woken True"]) (simp_all add: C_wait woken_consumer_def wait_woken)
  then show ?thesis ..
qed (rule exI [of _ "[]"], simp add: woken_consumer_def signalled_def covers_refl)+

lemma reader_ended_query: "precedes (b, pc, docs, d) (b, woken_query pc, docs, d)"
  by (cases pc) (simp_all add: woken_query_def covers_refl, rule precedesI [of id], simp_all)

lemma do_push_timeout: "m_read_timeout (rb (do_push docs s)) = m_read_timeout (rb s)"
  by (simp add: do_push_def wake_eq set_deque_def split: prod.split)

lemma query_timeout:
  "query_begin D db dir b = (r, b') \<Longrightarrow> m_read_timeout b' = m_read_timeout b"
  "query_end D docs b = (r', b') \<Longrightarrow> m_read_timeout b' = m_read_timeout b"
  by (auto simp: query_begin_def query_end_def andthen_def Let_def split: prod.splits sum.splits if_splits option.splits)

lemma do_push_adds: "\<exists>ys. deque_of (do_push docs s) = deque_of s @ ys"
  by (cases "move_back (limit_of s) (deque_of s) docs") (auto simp: do_push_fields, auto simp: move_back_eq Let_def)

lemma reader_effect:
  assumes "reader_step D s s'"
  shows "(\<exists>ys. deque_of s' = deque_of s @ ys) \<and> popped s' = popped s \<and>
    m_read_timeout (rb s') = m_read_timeout (rb s) \<and> m_read_retry (rb s') = m_read_retry (rb s) \<and>
    cpc s' \<in> {cpc s, woken_consumer (cpc s), woken_query (cpc s)}"
proof -
  have "popped (do_push docs s) = popped s" for docs
    by (cases "move_back (limit_of s) (deque_of s) docs") (simp add: do_push_fields)
  with assms show ?thesis
    by cases (auto simp: do_push_retry do_push_timeout do_push_pc do_push_adds wake_eq
        dest: retry_kept query_timeout query_begin_frame query_end_frame)
qed

subsection \<open>Steps of the io thread\<close>

lemma after_front:
  "after_pop n w k docs (take_front (with_queue (x # xs) es q)) b =
    after_pops n k (pop_n (w - 1) (broker_pop (int_to_size (m_read_timeout b)))
      (docs @ [x], b\<lparr>m_queue := with_queue xs es (notify_one Can_push q)\<rparr>))"
  by (simp add: after_pop_def take_front_def)

lemma popped_one:
  assumes "m_inited b" "m_connected b" "0 < w" "deque_of s = x # xs" "m \<le> length (popped s)"
  shows "resume_batch (signalled [Notified Can_push] b) es (cpc (do_pop n w k s)) (drop m (popped (do_pop n w k s)))
      (deque_of (do_pop n w k s)) =
    after_pop n w k (drop m (popped s)) (take_front (with_queue (deque_of s) es (m_queue b))) b"
proof -
  let ?b = "b\<lparr>m_queue := with_queue xs es (notify_one Can_push (m_queue b))\<rparr>"
  show ?thesis
  proof (cases "w \<le> 1")
    case True
    with assms show ?thesis by (auto simp: do_pop_fields after_front after_pops_def)
  next
    case False
    with assms pops_begin [of ?b "w - 1" n k "drop m (popped s) @ [x]"] show ?thesis
      by (simp add: do_pop_fields after_front notify_one_def)
  qed
qed

text \<open>The wait for a query may end the query in the broker of the call, and then takes an entry.\<close>

lemma timeout_precedes:
  assumes "pc \<in> {C_query n k, C_retry n k}"
  shows "precedes (b, C_timeout n k, docs, d) (b\<lparr>m_querying := False\<rparr>, pc, docs, d)"
proof (rule precedesI [of "\<lambda>es. if m_querying b then absorb [] 0 [] @ es else es"])
  fix es r
  show "resume_batch (b\<lparr>m_querying := False\<rparr>) es pc docs d = Some r \<Longrightarrow>
      resume_batch b (if m_querying b then absorb [] 0 [] @ es else es) (C_timeout n k) docs d = Some r"
  proof (cases "m_querying b")
    case True
    have c: "b\<lparr>m_querying := False, m_queue := q\<rparr> = b\<lparr>m_queue := q, m_querying := False\<rparr>" for q by simp
    from True assms lock_skip [of d es "m_queue b"] show
      "resume_batch (b\<lparr>m_querying := False\<rparr>) es pc docs d = Some r \<Longrightarrow> ?thesis"
      by (auto simp: timed_out_def wait_query_done_def c)
  next
    case False
    then have "b\<lparr>m_querying := False\<rparr> = b" by (cases b) simp
    with False assms show "resume_batch (b\<lparr>m_querying := False\<rparr>) es pc docs d = Some r \<Longrightarrow> ?thesis"
      by (auto simp: timed_out_def wait_query_done_def)
  qed
qed (simp del: absorb.simps)

lemma int_to_size_positive: "0 < int_to_size i \<longleftrightarrow> i \<noteq> 0"
proof -
  have "sint i = 0" if "int_to_size i = 0"
    using that sint_ge [of i] sint_lt [of i] sint_size_of_int [of "sint i"] by (simp add: int_to_size_def)
  moreover have "i = 0" if "sint i = 0" using that by (intro signed_word_eqI) simp
  moreover have "int_to_size 0 = 0" by (simp add: int_to_size_def)
  ultimately show ?thesis by (metis word_gt_0)
qed

text \<open>
  A broker that can stand in for the one of the system from a place of a batch of \<open>n\<close> on; the batch
  began when \<open>m\<close> documents had been popped.
\<close>

definition stands_in :: "nat \<Rightarrow> nat \<Rightarrow> 'o broker \<Rightarrow> 'o rsys \<Rightarrow> bool" where
  "stands_in n m b s \<longleftrightarrow> m_inited b \<and> m_connected b \<and> m_read_timeout (rb s) = m_read_timeout b \<and>
     m_read_retry (rb s) = m_read_retry b \<and> sint (m_read_retry b) = 1 \<and> 0 < n \<and> n < 2 ^ 64 \<and>
     m \<le> length (popped s) \<and> (in_batch s \<longrightarrow> in_place n (cpc s))"

declare stands_in_def [simp]

definition situation :: "'o broker \<Rightarrow> nat \<Rightarrow> 'o rsys \<Rightarrow> 'o broker \<times> io_pc \<times> string list \<times> string list" where
  "situation b m s = (b, cpc s, drop m (popped s), deque_of s)"

abbreviation batch_over :: "'o rsys \<Rightarrow> bool" where
  "batch_over s \<equiv> cpc s \<in> {C_idle, C_join}"

lemma stands_in_moved:
  assumes "stands_in n m b s" "rb s' = rb s" "popped s' = popped s" "in_batch s' \<Longrightarrow> in_place n (cpc s')"
  shows "stands_in n m b s'" "stands_in n m (signalled sg b) s'" "stands_in n m (b\<lparr>m_querying := False\<rparr>) s'"
  using assms by simp_all

lemma popped_precedes:
  assumes "stands_in n m b s" "in_place n (cpc s)" "0 < w" "k \<le> 1" "deque_of s \<noteq> []"
    and "\<And>es. resume_batch b (absorb [] 0 [] @ es) (cpc s) (drop m (popped s)) (deque_of s) =
      after_pop n w k (drop m (popped s)) (take_front (with_queue (deque_of s) es (m_queue b))) b"
  shows "stands_in n m (signalled [Notified Can_push] b) (do_pop n w k s) \<and>
    precedes (situation b m s) (situation (signalled [Notified Can_push] b) m (do_pop n w k s))"
proof -
  obtain x xs where d: "deque_of s = x # xs" using assms(5) by (cases "deque_of s") auto
  have one: "resume_batch (signalled [Notified Can_push] b) es (cpc (do_pop n w k s)) (drop m (popped (do_pop n w k s)))
      (deque_of (do_pop n w k s)) = resume_batch b (absorb [] 0 [] @ es) (cpc s) (drop m (popped s)) (deque_of s)" for es
    unfolding assms(6) by (rule popped_one [OF _ _ assms(3) d]) (use assms(1) in simp_all)
  have "precedes (situation b m s) (situation (signalled [Notified Can_push] b) m (do_pop n w k s))"
    unfolding situation_def by (rule precedesI [of "\<lambda>es. absorb [] 0 [] @ es"]) (simp_all add: one del: absorb.simps)
  with assms(1-4) d show ?thesis
    by (auto simp: do_pop_fields do_pop_retry do_pop_broker in_batch_def)
qed

lemma pop_precedes:
  assumes "stands_in n m b s" "in_batch s" "io_step s s'" "in_batch s' \<or> batch_over s'"
    "cpc s = C_pop n1 w1 k1 \<or> cpc s = C_woken n1 w1 k1"
  shows "\<exists>b'. stands_in n m b' s' \<and> precedes (situation b m s) (situation b' m s')"
proof -
  have p: "in_place n (cpc s)" using assms(1,2) by simp
  from assms(3) show ?thesis
  proof cases
    case (c_pop n' w k)
    with p have k: "n' = n" "0 < w" "k \<le> 1" by auto
    have "resume_batch b (absorb [] 0 [] @ es) (cpc s) docs (deque_of s) =
        after_pop n w k docs (take_front (with_queue (deque_of s) es (m_queue b))) b" for es docs
      using c_pop k(1) by (simp add: pop_def lock_skip del: absorb.simps)
    from popped_precedes [OF assms(1) p k(2,3) c_pop(3) this] c_pop(1) k(1) show ?thesis by blast
  next
    case (c_woken n' w k)
    with p have k: "n' = n" "0 < w" "k \<le> 1" by auto
    have d: "deque_of s \<noteq> []" using assms(4) c_woken by (auto simp: in_batch_def)
    have "resume_batch b (absorb [] 0 [] @ es) (cpc s) docs (deque_of s) =
        after_pop n w k docs (take_front (with_queue (deque_of s) es (m_queue b))) b" for es docs
      using c_woken k(1) by (simp add: lock_skip del: absorb.simps)
    from popped_precedes [OF assms(1) p k(2,3) d this] c_woken(1) k(1) show ?thesis by blast
  next
    case (c_empty n' w k)
    have "precedes (situation b m s) (situation (signalled [Notified Can_push] b) m s')"
      unfolding situation_def
      by (rule precedesI [of "\<lambda>es. absorb [] 0 [] @ es"])
        (use c_empty in \<open>simp_all add: pop_def lock_skip wake_eq notify_one_def del: absorb.simps\<close>)
    moreover have "stands_in n m (signalled [Notified Can_push] b) s'"
      by (rule stands_in_moved(2) [OF assms(1)]) (use c_empty p in \<open>simp_all add: wake_eq\<close>)
    ultimately show ?thesis by blast
  qed (use assms(5) in simp_all)
qed

lemma timeout_step_precedes:
  assumes "stands_in n m b s" "in_batch s" "io_step s s'" "in_batch s' \<or> batch_over s'"
    "cpc s = C_wait n1 w1 k1 \<or> cpc s = C_timeout n1 k1"
  shows "\<exists>b'. stands_in n m b' s' \<and> precedes (situation b m s) (situation b' m s')"
proof -
  have p: "in_place n (cpc s)" using assms(1,2) by simp
  from assms(3) show ?thesis
  proof cases
    case (c_deadline n' w k)
    then have t: "0 < int_to_size (m_read_timeout b)" using assms(1) by (simp add: int_to_size_positive)
    have "precedes (situation b m s) (situation (signalled [Waited Can_pop] b) m s')"
      unfolding situation_def
      by (rule precedesI [of "\<lambda>es. as_woken False [] @ es"])
        (use c_deadline t p in \<open>simp_all add: wait_deadline after_pop_def after_pops_def\<close>)
    moreover have "stands_in n m (signalled [Waited Can_pop] b) s'"
      by (rule stands_in_moved(2) [OF assms(1)]) (use c_deadline p in simp_all)
    ultimately show ?thesis by blast
  next
    case (c_querying n' k)
    then have "precedes (situation b m s) (situation (b\<lparr>m_querying := False\<rparr>) m s')"
      using timeout_precedes [of "cpc s'" n' k b] by (simp add: situation_def)
    moreover have "stands_in n m (b\<lparr>m_querying := False\<rparr>) s'"
      by (rule stands_in_moved(3) [OF assms(1)]) (use c_querying p in simp_all)
    ultimately show ?thesis by blast
  next
    case (c_not_querying n' k)
    then have "precedes (situation b m s) (situation (b\<lparr>m_querying := False\<rparr>) m s')"
      using timeout_precedes [of "cpc s'" n' k b] by (simp add: situation_def)
    moreover have "stands_in n m (b\<lparr>m_querying := False\<rparr>) s'"
      by (rule stands_in_moved(3) [OF assms(1)]) (use c_not_querying p in simp_all)
    ultimately show ?thesis by blast
  qed (use assms(5) in simp_all)
qed

lemma retry_precedes:
  assumes "stands_in n m b s" "in_batch s" "io_step s s'" "in_batch s' \<or> batch_over s'"
    "cpc s = C_retry n1 k1"
  shows "\<exists>b'. stands_in n m b' s' \<and> precedes (situation b m s) (situation b' m s')"
proof -
  have p: "in_place n (cpc s)" using assms(1,2) by simp
  from assms(3) show ?thesis
  proof cases
    case (c_retry n' k)
    with assms(1) p have k: "n' = n" "k = 0" by auto
    have "precedes (situation b m s) (situation b m s')"
      unfolding situation_def
    proof (rule precedesI [of "\<lambda>es. absorb [] 0 [] @ es"])
      fix es r
      let ?b = "b\<lparr>m_queue := with_queue (deque_of s) es (m_queue b)\<rparr>"
      show "resume_batch b es (cpc s') (drop m (popped s')) (deque_of s') = Some r \<Longrightarrow>
          resume_batch b (absorb [] 0 [] @ es) (cpc s) (drop m (popped s)) (deque_of s) = Some r"
        using c_retry k assms(1) loop_rounds [of 1 n ?b "drop m (popped s)"] pops_begin [of ?b n n 1 "drop m (popped s)"]
        by (simp add: next_round_def lock_skip del: absorb.simps)
    qed (simp del: absorb.simps)
    moreover have "stands_in n m b s'"
      by (rule stands_in_moved(1) [OF assms(1)]) (use c_retry k assms(1) in simp_all)
    ultimately show ?thesis by blast
  next
    case (c_give_up n' k)
    with assms(1) p have k: "n' = n" "k = 1" by auto
    have "precedes (situation b m s) (situation b m s')"
      unfolding situation_def
      by (rule precedesI [of "\<lambda>es. absorb [] 0 [] @ es"])
        (use c_give_up k in \<open>simp_all add: next_round_def lock_skip batch_done_def del: absorb.simps split: if_splits\<close>)
    moreover have "stands_in n m b s'"
      by (rule stands_in_moved(1) [OF assms(1)]) (use c_give_up in \<open>simp_all add: batch_done_def in_batch_def split: if_splits\<close>)
    ultimately show ?thesis by blast
  qed (use assms(5) in simp_all)
qed

lemma query_wait_precedes:
  assumes "stands_in n m b s" "in_batch s" "io_step s s'" "cpc s = C_query n1 k1"
  shows "\<exists>b'. stands_in n m b' s' \<and> precedes (situation b m s) (situation b' m s')"
proof -
  have p: "in_place n (cpc s)" using assms(1,2) by simp
  from assms(3) show ?thesis
  proof cases
    case (c_query_wait n' k)
    then have "precedes (situation b m s) (situation b m s')"
      unfolding situation_def by (intro precedesI [of id]) simp_all
    moreover have "stands_in n m b s'"
      by (rule stands_in_moved(1) [OF assms(1)]) (use c_query_wait p in simp_all)
    ultimately show ?thesis by blast
  qed (use assms(4) in simp_all)
qed

lemma io_precedes:
  assumes "stands_in n m b s" "in_batch s" "io_step s s'" "in_batch s' \<or> batch_over s'"
  shows "\<exists>b'. stands_in n m b' s' \<and> precedes (situation b m s) (situation b' m s')"
proof (cases "cpc s")
  case C_pop
  then show ?thesis by (intro pop_precedes [OF assms]) simp
next
  case C_woken
  then show ?thesis by (intro pop_precedes [OF assms]) simp
next
  case C_wait
  then show ?thesis by (intro timeout_step_precedes [OF assms]) simp
next
  case C_timeout
  then show ?thesis by (intro timeout_step_precedes [OF assms]) simp
next
  case C_query
  then show ?thesis by (intro query_wait_precedes [OF assms(1-3)])
next
  case C_query_wait
  with assms(3) show ?thesis by cases simp_all
next
  case C_retry
  then show ?thesis by (intro retry_precedes [OF assms])
qed (use assms(2) in \<open>simp_all add: in_batch_def\<close>)

subsection \<open>All steps\<close>

lemma place_woken: "in_place n (woken_consumer pc) = in_place n pc" "in_place n (woken_query pc) = in_place n pc"
  by (cases pc; simp add: woken_consumer_def woken_query_def)+

lemma reader_precedes:
  assumes "stands_in n m b s" "in_batch s" "deque_of s' = deque_of s @ ys" "popped s' = popped s"
    "m_read_timeout (rb s') = m_read_timeout (rb s)" "m_read_retry (rb s') = m_read_retry (rb s)"
    "cpc s' \<in> {cpc s, woken_consumer (cpc s), woken_query (cpc s)}"
  shows "\<exists>b'. stands_in n m b' s' \<and> precedes (situation b m s) (situation b' m s')"
proof -
  have p: "in_place n (cpc s)" using assms(1,2) by simp
  then have st: "stands_in n m (signalled sg b) s'" for sg
    using assms(1,4-7) by (auto simp: place_woken)
  have push: "precedes (situation b m s) (b, cpc s, drop m (popped s), deque_of s')"
    unfolding situation_def assms(3) by (rule reader_added [OF p])
  have b: "signalled [] b = b" by (simp add: signalled_def)
  have "\<exists>sg. precedes (b, cpc s, drop m (popped s), deque_of s') (situation (signalled sg b) m s')"
    using assms(4,7) reader_woke [of b "cpc s"] reader_ended_query [of b "cpc s"]
      covers_refl [of "situated (situation b m s')"] b
    unfolding situation_def by (metis insertE singletonD)
  with st covers_trans [OF push] show ?thesis by blast
qed

lemma batch_precedes:
  assumes "stands_in n m b s" "in_batch s" "system_step D spur s s'" "in_batch s' \<or> batch_over s'"
  shows "\<exists>b'. stands_in n m b' s' \<and> precedes (situation b m s) (situation b' m s')"
  using assms(3)
proof cases
  case by_reader
  from reader_effect [OF this] reader_precedes [OF assms(1,2)] show ?thesis by blast
next
  case by_io
  then show ?thesis by (rule io_precedes [OF assms(1,2) _ assms(4)])
next
  case (spurious_reader docs)
  then show ?thesis by (intro reader_precedes [OF assms(1,2), of _ "[]"]) simp_all
next
  case (spurious_io n w k)
  then show ?thesis by (intro reader_precedes [OF assms(1,2), of _ "[]"]) (simp_all add: woken_consumer_def)
next
  case (spurious_query n k)
  then show ?thesis by (intro reader_precedes [OF assms(1,2), of _ "[]"]) (simp_all add: woken_query_def)
qed

interpretation batch: call_view "system_step D spur" in_batch batch_over "stands_in n m" "\<lambda>b es s. situated (situation b m s) es"
    "\<lambda>s. (drop m (popped s), deque_of s)"
  for D :: "('o, 'db) driver" and spur n m
proof
  show "\<exists>es. situated (situation b m s) es = Some (drop m (popped s), deque_of s)" if "batch_over s" for b :: "'o broker" and s
    by (rule exI [of _ "[]"]) (use that in \<open>auto simp: situated_def situation_def\<close>)
  show "\<exists>b'. stands_in n m b' s' \<and> precedes (situation b m s) (situation b' m s')"
    if "stands_in n m b s" "in_batch s" "system_step D spur s s'" "in_batch s' \<or> batch_over s'" for b :: "'o broker" and s s'
    by (rule batch_precedes [OF that])
qed

section \<open>Runs\<close>

lemma popped_grows_step: "system_step D spur s s' \<Longrightarrow> \<exists>ys. popped s' = popped s @ ys"
proof (erule system_step.cases)
  fix t t' assume "s = t" "s' = t'" "io_step t t'"
  moreover have "\<exists>ys. popped (do_pop n w k t) = popped t @ ys" for n w k
    by (cases "deque_of t") (auto simp: do_pop_fields)
  ultimately show ?thesis by (auto elim!: io_step.cases simp: wake_eq batch_done_def)
qed (auto dest: reader_effect)

lemma popped_grows: "(\<lambda>s s'. in_batch s \<and> system_step D spur s s')\<^sup>*\<^sup>* s s' \<Longrightarrow> \<exists>ys. popped s' = popped s @ ys"
  by (induction rule: rtranclp_induct) (auto dest: popped_grows_step)

text \<open>Until it is closed the broker stays open.\<close>

definition still_open :: "'o rsys \<Rightarrow> bool" where
  "still_open s \<longleftrightarrow> cpc s \<noteq> C_closed \<longrightarrow> m_inited (rb s) \<and> m_connected (rb s)"

lemma query_open:
  "query_begin D db dir b = (r, b') \<Longrightarrow> m_inited b' = m_inited b \<and> m_connected b' = m_connected b"
  "query_end D docs b = (r', b') \<Longrightarrow> m_inited b' = m_inited b \<and> m_connected b' = m_connected b"
  by (auto simp: query_begin_def query_end_def andthen_def Let_def split: prod.splits sum.splits if_splits option.splits)

lemma moves_open:
  "m_inited (rb (do_push docs s)) = m_inited (rb s)" "m_connected (rb (do_push docs s)) = m_connected (rb s)"
  "m_inited (rb (do_pop n w k s)) = m_inited (rb s)" "m_connected (rb (do_pop n w k s)) = m_connected (rb s)"
  by (simp_all add: do_push_def do_pop_def set_deque_def wake_eq batch_done_def Let_def split: prod.split sum.split)

lemma still_open_reader:
  assumes "reader_step D s s'" "still_open s" shows "still_open s'"
proof -
  have "m_inited (rb s') = m_inited (rb s) \<and> m_connected (rb s') = m_connected (rb s)"
    using assms(1) by cases (auto simp: moves_open wake_eq dest: query_open)
  moreover have "cpc s' = C_closed \<longleftrightarrow> cpc s = C_closed"
    using reader_effect [OF assms(1)] by (auto simp: woken_consumer_def woken_query_def split: io_pc.splits)
  ultimately show ?thesis using assms(2) by (simp add: still_open_def)
qed

lemma still_open_io: "io_step s s' \<Longrightarrow> still_open s \<Longrightarrow> still_open s'"
  by (erule io_step.cases) (auto simp: still_open_def moves_open wake_eq batch_done_def rewind_def set_exit_def)

interpretation opens: step_invariant opened "system_step D spur" still_open for D :: "('o, 'db) driver" and spur
proof
  show "still_open s" if "opened s" for s :: "'o rsys" using that by (simp add: opened_def still_open_def)
  show "still_open s'" if "still_open s" "system_step D spur s s'" for s s' :: "'o rsys"
    using that(2,1)
    by cases (auto intro: still_open_reader still_open_io, auto simp: still_open_def)
qed

lemma batch_runs_as_call:
  assumes "runs D spur s" "cpc s = C_pop n n 0" "0 < n" "n < 2 ^ 64" "sint (m_read_retry (rb s)) = 1"
    "(\<lambda>s s'. in_batch s \<and> system_step D spur s s')\<^sup>*\<^sup>* s s'" "batch_over s'"
  shows "\<exists>es docs r b'. nothing_taken es \<and> popped s' = popped s @ docs \<and> deque_of s' = m_deque (m_queue b') \<and>
    batch_pop (word_of_nat n) ([], (rb s)\<lparr>m_queue := (m_queue (rb s))\<lparr>m_sched := es\<rparr>\<rparr>) = (Inr r, (docs, b'))"
proof -
  let ?b = "\<lambda>es. (rb s)\<lparr>m_queue := (m_queue (rb s))\<lparr>m_sched := es\<rparr>\<rparr>" and ?m = "length (popped s)"
  have "still_open s" by (rule opens.reachable_holds [OF assms(1)])
  then have "stands_in n ?m (rb s) s" using assms(2-5) by (simp add: still_open_def)
  from batch.run_is_call [OF assms(6,7) this] obtain es where es: "nothing_taken es"
      "resume_batch (rb s) es (C_pop n n 0) [] (deque_of s) = Some (drop ?m (popped s'), deque_of s')"
    using assms(2) by (auto simp: situated_def situation_def split: if_splits)
  have "unat (word_of_nat n :: size_t) = n" using assms(4) by (simp add: unat_of_nat)
  then have n: "word_of_nat n \<noteq> (0 :: size_t)" using assms(3) by (cases "word_of_nat n = (0 :: size_t)") simp_all
  have q: "with_queue (deque_of s) es (m_queue (rb s)) = m_queue (?b es)"
    by (simp add: with_queue_def deque_of_def)
  have "resume_batch (rb s) es (C_pop n n 0) [] (deque_of s) = batch_end (batch_pop (word_of_nat n) ([], ?b es))"
    using \<open>stands_in n ?m (rb s) s\<close> n assms(3-5) pops_begin [of "?b es" n n 0 "[]"] loop_rounds [of 0 n "?b es" "[]"]
    by (simp add: q batch_pop_def)
  with es(2) have "batch_end (batch_pop (word_of_nat n) ([], ?b es)) = Some (drop ?m (popped s'), deque_of s')" by simp
  from batch_end_Some [OF this] obtain r b' where "batch_pop (word_of_nat n) ([], ?b es) = (Inr r, (drop ?m (popped s'), b'))"
      "deque_of s' = m_deque (m_queue b')" by blast
  moreover have "popped s' = popped s @ drop ?m (popped s')" using popped_grows [OF assms(6)] by auto
  ultimately show ?thesis using es(1) by blast
qed

lemma batch_pop_nothing:
  assumes "batch_pop n ([], b) = (Inr r, ([], b'))" "sint (m_read_retry b) = 1"
  shows "r = ULONG_MAX"
  using assms(2,1)
proof (cases rule: batch_pop_two_rounds)
  case first
  have "0 < unat n" using assms(1) by (auto simp: batch_pop_def unat_gt_0 split: if_splits)
  with batch_round_docs [OF first(1)] show ?thesis by auto
next
  case (second f docs1 b1)
  have "0 < unat n" using assms(1) by (auto simp: batch_pop_def unat_gt_0 split: if_splits)
  with batch_round_docs [OF second(1)] batch_round_docs [OF second(2)] second(3) show ?thesis by auto
qed

section \<open>Properties\<close>

text \<open>
  C10: A read request between the threads is \<open>do_read\<close>. In every run of the reading thread and the io
  thread, with or without spurious wake-ups: when the io thread serves a read request for the
  broker's positive \<open>limit\<close>, with the one retry that \<open>reset\<close> sets, and gets through its batch, whatever the reading thread does meanwhile, there is
  a schedule in which others only add to the queue, under which \<open>do_read\<close> as a single call takes
  the same documents and leaves the same queue. The response has all the documents popped, which
  are the next ones of the pages queried, or says that there are no more items if there are none.
\<close>

theorem read_request_refines:
  assumes "runs D spur s" "cpc s = C_pop n n 0" "n = unat (int_to_size (m_limit (rb s)))" "0 < n"
    "sint (m_read_retry (rb s)) = 1"
    "(\<lambda>s s'. in_batch s \<and> system_step D spur s s')\<^sup>*\<^sup>* s s'" "batch_over s'"
  shows "\<exists>es docs later p'. nothing_taken es \<and> popped s' = popped s @ docs \<and>
    concat (map rev (pages s')) = popped s @ docs @ later \<and>
    do_read D packet (p\<lparr>m_read_broker := (rb s)\<lparr>m_queue := (m_queue (rb s))\<lparr>m_sched := es\<rparr>\<rparr>\<rparr>) =
      (if docs = [] then pack_response_docs D packet NoMoreItem [] ''do_read no more items''
       else pack_response_docs D packet OK docs ''do_read'', p') \<and>
    m_deque (m_queue (m_read_broker p')) = deque_of s'"
proof -
  let ?b = "\<lambda>es. (rb s)\<lparr>m_queue := (m_queue (rb s))\<lparr>m_sched := es\<rparr>\<rparr>"
  have n: "n < 2 ^ 64" unfolding assms(3) by (rule unsigned_less [THEN order_less_le_trans]) simp
  have w: "word_of_nat n = int_to_size (m_limit (rb s))" unfolding assms(3) by simp
  from batch_runs_as_call [OF assms(1,2,4) n assms(5-7)] obtain es docs r b' where
    b: "nothing_taken es" "popped s' = popped s @ docs" "deque_of s' = m_deque (m_queue b')"
      "batch_pop (int_to_size (m_limit (rb s))) ([], ?b es) = (Inr r, (docs, b'))"
    unfolding w by blast
  have "(system_step D spur)\<^sup>*\<^sup>* s s'"
    using assms(6) by (rule rtranclp_mono [THEN predicate2D, rotated]) blast
  then have "conserved s'" using documents.reachable_holds [OF reachable_run [OF assms(1)]] by blast
  then obtain later where later: "concat (map rev (pages s')) = popped s @ docs @ later"
    using b(2) by (auto simp: conserved_def)
  have "docs = [] \<Longrightarrow> r = ULONG_MAX" using batch_pop_nothing [of _ "?b es"] b(4) assms(5) by simp
  with b(4) have d: "do_read D packet (p\<lparr>m_read_broker := ?b es\<rparr>) =
      (if docs = [] then pack_response_docs D packet NoMoreItem [] ''do_read no more items''
       else pack_response_docs D packet OK docs ''do_read'', p\<lparr>m_read_broker := b'\<rparr>)"
    by (auto simp: do_read_def Let_def)
  show ?thesis
    by (rule exI [of _ es], rule exI [of _ docs], rule exI [of _ later], rule exI [of _ "p\<lparr>m_read_broker := b'\<rparr>"])
      (use b later d in simp)
qed

lemma sample_run_batch:
  "\<exists>s t u v w. schedule sample_driver [go_reader, go_reader, go_reader, go_reader, go_reader, Io_moves (Serve_read 2)] (sample_rsys 1) = Some s \<and>
     cpc s = C_pop 2 2 0 \<and> popped s = [] \<and> sint (m_read_retry (rb s)) = 1 \<and> m_limit (rb s) = 2 \<and> io_next Go_on s = Some t \<and> in_batch t \<and>
     reader_next sample_driver sample_docs t = Some u \<and> in_batch u \<and>
     reader_next sample_driver sample_docs u = Some v \<and> in_batch v \<and> io_next Go_on v = Some w \<and>
     cpc w = C_idle \<and> popped w = [''b'', ''a''] \<and> deque_of w = []"
  by (simp add: run_simps in_batch_def del: pc_update_simps rb_update_simps)

theorem read_request_refines_witness:
  "\<exists>s es p'. runs sample_driver False s \<and> nothing_taken es \<and>
     do_read sample_driver new_out_packet
       ((sample_processor 1 (sample_open [] []) (sample_open [] []))
         \<lparr>m_read_broker := (rb s)\<lparr>m_queue := (m_queue (rb s))\<lparr>m_sched := es\<rparr>\<rparr>\<rparr>) =
       (pack_response_docs sample_driver new_out_packet OK [''b'', ''a''] ''do_read'', p') \<and>
     m_deque (m_queue (m_read_broker p')) = []"
proof -
  obtain s t u v w where s: "schedule sample_driver [go_reader, go_reader, go_reader, go_reader, go_reader, Io_moves (Serve_read 2)] (sample_rsys 1) = Some s"
      "cpc s = C_pop 2 2 0" "popped s = []" "sint (m_read_retry (rb s)) = 1" "m_limit (rb s) = 2" "io_next Go_on s = Some t" "in_batch t"
      "reader_next sample_driver sample_docs t = Some u" "in_batch u"
      "reader_next sample_driver sample_docs u = Some v" "in_batch v" "io_next Go_on v = Some w"
      "cpc w = C_idle" "popped w = [''b'', ''a'']" "deque_of w = []"
    using sample_run_batch by blast
  let ?step = "\<lambda>s s'. in_batch s \<and> system_step sample_driver False s s'"
  have "in_batch s" using s(2) by (rule in_batch_simps)
  then have "?step s t" "?step t u" "?step u v" "?step v w"
    using s by (blast intro: by_io by_reader io_next_step reader_next_step)+
  then have "?step\<^sup>*\<^sup>* s w"
    by (blast intro: converse_rtranclp_into_rtranclp [of ?step, OF conjI])
  from read_request_refines [OF sample_runs [OF s(1)] s(2) _ _ s(4) this, of new_out_packet
      "sample_processor 1 (sample_open [] []) (sample_open [] [])"] s(3,5,13-15)
  show ?thesis by (intro exI [of _ s]) (auto simp: sample_runs [OF s(1)] int_to_size_def)
qed

end
