(* ===== verification/Broker_Updates.thy ===== *)
theory Broker_Updates
  imports Broker_Batches
begin

text \<open>
  The write broker's thread: what \<open>update\<close> does with the requests of its queue, when it ends
  and what it leaves behind.
\<close>

section \<open>A sequence of updates\<close>

text \<open>What the requests do to the database, one after the other, up to the first failure.\<close>

definition apply_request :: "('o, 'db) driver \<Rightarrow> string \<Rightarrow> string \<Rightarrow> 'db \<Rightarrow> fault + 'db" where
  "apply_request D docset json db =
     (case fromjson D json of
        Inl e \<Rightarrow> Inl e
      | Inr obj \<Rightarrow> conn_update D db docset (getObjectField D obj ''query'') (getObjectField D obj ''doc'')
          (getBoolField D obj ''upsert'') (getBoolField D obj ''multi''))"

fun apply_requests :: "('o, 'db) driver \<Rightarrow> string \<Rightarrow> string list \<Rightarrow> 'db \<Rightarrow> fault + 'db" where
  "apply_requests D docset [] db = Inr db"
| "apply_requests D docset (x # xs) db =
     (case apply_request D docset x db of
        Inl e \<Rightarrow> Inl e
      | Inr db' \<Rightarrow> apply_requests D docset xs db')"

lemma apply_update_eq:
  "apply_update D json (b, db) =
    (case apply_request D (m_docset b) json db of
       Inl e \<Rightarrow> (Inl e, (b, db))
     | Inr db' \<Rightarrow> (Inr (), (b\<lparr>m_update_count := m_update_count b + 1\<rparr>, db')))"
  by (simp add: apply_update_def apply_request_def split: sum.splits)

definition undisturbed :: "'o broker \<Rightarrow> bool" where
  "undisturbed b \<longleftrightarrow> m_sched (m_queue b) = []"

lemma update_round_empty:
  assumes "undisturbed b" "m_deque (m_queue b) = []"
  shows "\<exists>b'. update_round D (b, db) = (Inr (m_do_exit b), (b', db)) \<and> undisturbed b' \<and>
    m_deque (m_queue b') = [] \<and> m_do_exit b' = m_do_exit b \<and> m_docset b' = m_docset b \<and>
    m_update_count b' = m_update_count b"
  using assms by (simp add: update_round_def on_queue_def pop_quiet undisturbed_def)

lemma update_round_apply:
  assumes "undisturbed b" "m_deque (m_queue b) = x # xs"
  shows "\<exists>b'. update_round D (b, db) =
      (case apply_request D (m_docset b) x db of
         Inl e \<Rightarrow> (Inl e, (b', db))
       | Inr db' \<Rightarrow> (Inr False, (b'\<lparr>m_update_count := m_update_count b + 1\<rparr>, db'))) \<and>
    undisturbed b' \<and> m_deque (m_queue b') = xs \<and> m_do_exit b' = m_do_exit b \<and>
    m_docset b' = m_docset b \<and> m_update_count b' = m_update_count b"
  using assms
  by (auto simp: update_round_def on_queue_def pop_quiet undisturbed_def apply_update_eq split: sum.splits)

lemma undisturbed_count [simp]: "undisturbed (b\<lparr>m_update_count := n\<rparr>) = undisturbed b"
  by (simp add: undisturbed_def)

text \<open>The requests that can be applied are worked off, one per round.\<close>

lemma update_works_off:
  assumes "undisturbed b" "m_deque (m_queue b) = xs @ ys" "apply_requests D (m_docset b) xs db = Inr db'"
  shows "\<exists>b'. (\<forall>n. update (n + length xs) D (b, db) = update n D (b', db')) \<and>
    undisturbed b' \<and> m_deque (m_queue b') = ys \<and> m_do_exit b' = m_do_exit b \<and>
    m_docset b' = m_docset b \<and> m_update_count b' = m_update_count b + word_of_nat (length xs)"
  using assms
proof (induction xs arbitrary: b db)
  case (Cons x xs)
  obtain db1 where db1: "apply_request D (m_docset b) x db = Inr db1"
    "apply_requests D (m_docset b) xs db1 = Inr db'"
    using Cons.prems(3) by (auto split: sum.splits)
  obtain b1 where b1: "update_round D (b, db) = (Inr False, (b1\<lparr>m_update_count := m_update_count b + 1\<rparr>, db1))"
    "undisturbed b1" "m_deque (m_queue b1) = xs @ ys" "m_do_exit b1 = m_do_exit b" "m_docset b1 = m_docset b"
    using update_round_apply [OF Cons.prems(1), of x "xs @ ys" D db] Cons.prems(2) db1(1) by auto
  from Cons.IH [of "b1\<lparr>m_update_count := m_update_count b + 1\<rparr>" db1] b1 db1(2)
  show ?case by (auto simp: algebra_simps)
qed auto

lemma update_flushes:
  assumes "m_sched (m_queue b) = []" "m_do_exit b"
    "apply_requests D (m_docset b) (m_deque (m_queue b)) db = Inr db'"
    "length (m_deque (m_queue b)) < n"
  shows "\<exists>b'. update n D (b, db) = Some (Inr (), (b', db')) \<and> m_deque (m_queue b') = [] \<and>
    m_update_count b' = m_update_count b + word_of_nat (length (m_deque (m_queue b)))"
proof -
  let ?k = "length (m_deque (m_queue b))"
  obtain b1 where b1: "\<forall>n. update (n + ?k) D (b, db) = update n D (b1, db')"
    "undisturbed b1" "m_deque (m_queue b1) = []" "m_do_exit b1"
    "m_update_count b1 = m_update_count b + word_of_nat ?k"
    using update_works_off [of b _ "[]" D db db'] assms(1-3) by (auto simp: undisturbed_def)
  from assms(4) obtain m where m: "n = Suc m + ?k" using less_imp_Suc_add [of ?k n] by auto
  from update_round_empty [OF b1(2,3), of D db'] b1(4,5)
  show ?thesis by (auto simp: m b1(1) [rule_format] b1(3) simp del: add_Suc)
qed

text \<open>
  The write broker's thread flushes its queue. When the exit flag is set and nobody touches
  the queue any more, \<open>update\<close> returns after at most one round more than there are queued
  requests, has applied all of them to the database in the order of the queue, counted them and
  left the queue empty.
\<close>

theorem update_flushes_queue:
  assumes "m_sched (m_queue b) = []" "m_do_exit b"
    "apply_requests D (m_docset b) (m_deque (m_queue b)) db = Inr db'"
    "length (m_deque (m_queue b)) < n"
  shows "\<exists>b'. update n D (b, db) = Some (Inr (), (b', db')) \<and> m_deque (m_queue b') = [] \<and>
    m_update_count b' = m_update_count b + word_of_nat (length (m_deque (m_queue b)))"
  using assms by (rule update_flushes)

definition sample_writer :: "bool \<Rightarrow> string list \<Rightarrow> string interference list \<Rightarrow> bson broker" where
  "sample_writer e docs sched = (sample_open docs sched)\<lparr>m_do_exit := e, m_docset := ''d.c''\<rparr>"

lemma sample_writer_fields [simp]:
  "m_queue (sample_writer e d s) = \<lparr>m_limit_size = 10, m_deque = d, m_signals = [], m_sched = s\<rparr>"
  "m_do_exit (sample_writer e d s) = e" "m_docset (sample_writer e d s) = ''d.c''"
  "m_update_count (sample_writer e d s) = 0"
  by (simp_all add: sample_writer_def) (simp add: sample_open_def new_broker_def reset_def)

theorem update_flushes_queue_witness:
  "\<exists>b'. update 3 sample_driver (sample_writer True [''x'', ''y''] [], []) = Some (Inr (), (b', [[], []])) \<and>
     m_deque (m_queue b') = [] \<and> m_update_count b' = 2"
  using update_flushes_queue [of "sample_writer True [''x'', ''y''] []" sample_driver "[]" "[[], []]" 3]
  by (simp add: apply_request_def sample_driver_def sample_obj_def)

text \<open>
  A request that does not parse or that the database rejects ends the write broker's
  thread: the exception leaves \<open>update\<close>. The requests before it are applied; the rejected one
  is gone from the queue and the later ones stay in it, whatever the exit flag says.
\<close>

theorem update_stops_at_failure:
  assumes "m_sched (m_queue b) = []" "m_deque (m_queue b) = xs @ x # ys"
    "apply_requests D (m_docset b) xs db = Inr db'" "apply_request D (m_docset b) x db' = Inl e"
    "length xs < n"
  shows "\<exists>b'. update n D (b, db) = Some (Inl e, (b', db')) \<and> m_deque (m_queue b') = ys \<and>
    m_update_count b' = m_update_count b + word_of_nat (length xs)"
proof -
  obtain b1 where b1: "\<forall>n. update (n + length xs) D (b, db) = update n D (b1, db')"
    "undisturbed b1" "m_deque (m_queue b1) = x # ys" "m_docset b1 = m_docset b"
    "m_update_count b1 = m_update_count b + word_of_nat (length xs)"
    using update_works_off [of b xs "x # ys" D db db'] assms(1-3) by (auto simp: undisturbed_def)
  from assms(5) obtain m where m: "n = Suc m + length xs" using less_imp_Suc_add [of "length xs" n] by auto
  from update_round_apply [OF b1(2,3), of D db'] b1(4,5) assms(4)
  show ?thesis by (auto simp: m b1(1) [rule_format] simp del: add_Suc)
qed

theorem update_stops_at_failure_witness:
  "\<exists>b'. update 3 (sample_driver\<lparr>fromjson := \<lambda>s. if s = ''{'' then Inl (Std_exception []) else Inr []\<rparr>)
       (sample_writer True [''x'', ''{'', ''y''] [], []) = Some (Inl (Std_exception []), (b', [[]])) \<and>
     m_deque (m_queue b') = [''y'']"
  by (rule exE [OF update_stops_at_failure [of "sample_writer True [''x'', ''{'', ''y''] []" "[''x'']" "''{''" "[''y'']"
        "sample_driver\<lparr>fromjson := \<lambda>s. if s = ''{'' then Inl (Std_exception []) else Inr []\<rparr>"
        "[]" "[[]]" "Std_exception []" 3]])
    (auto simp: apply_request_def sample_driver_def sample_obj_def)

text \<open>
  Without the exit flag the write broker's thread keeps waiting: \<open>update\<close> has not returned
  after any number of rounds, as long as every request can be applied.
\<close>

theorem update_waits_for_exit:
  assumes "m_sched (m_queue b) = []" "\<not> m_do_exit b"
    "apply_requests D (m_docset b) (m_deque (m_queue b)) db = Inr db'"
  shows "update n D (b, db) = None"
proof -
  have idle: "undisturbed b \<Longrightarrow> m_deque (m_queue b) = [] \<Longrightarrow> \<not> m_do_exit b \<Longrightarrow> update n D (b, db) = None"
    for n b and db
  proof (induction n arbitrary: b)
    case (Suc n)
    with update_round_empty [of b D db] show ?case by auto
  qed simp
  have mono: "update (n + k) D s = None \<Longrightarrow> update n D s = None" for k s
  proof (induction n arbitrary: s)
    case (Suc n)
    then show ?case by (auto split: prod.splits sum.splits bool.splits)
  qed simp
  let ?k = "length (m_deque (m_queue b))"
  obtain b1 where "\<forall>n. update (n + ?k) D (b, db) = update n D (b1, db')"
    "undisturbed b1" "m_deque (m_queue b1) = []" "\<not> m_do_exit b1"
    using update_works_off [of b _ "[]" D db db'] assms by (auto simp: undisturbed_def)
  with idle [of b1 n db'] have "update (n + ?k) D (b, db) = None" by simp
  then show ?thesis by (rule mono)
qed

theorem update_waits_for_exit_witness:
  "update 100 sample_driver (sample_writer False [''x''] [], []) = None"
  by (rule update_waits_for_exit [of _ _ _ "[[]]"])
    (simp_all add: apply_request_def sample_driver_def sample_obj_def)

text \<open>
  The exit is decided on the timeout alone. If requests \<open>xs\<close> are pushed between the deadline
  of the wait and the moment the waiting thread has the lock again, \<open>update\<close> returns with
  them unapplied in the queue: the flush holds only if nobody pushes after the exit flag is set.
\<close>

theorem update_exit_race:
  assumes "m_sched (m_queue b) = [\<lparr>woken = False, added = [], taken = 0\<rparr>, \<lparr>woken = False, added = xs, taken = 0\<rparr>]"
    "m_deque (m_queue b) = []" "m_do_exit b" "0 < n"
  shows "\<exists>b'. update n D (b, db) = Some (Inr (), (b', db)) \<and> m_deque (m_queue b') = xs"
proof -
  from assms(4) obtain m where "n = Suc m" by (cases n) auto
  with assms show ?thesis
    by (simp add: update_round_def on_queue_def pop_def lock_def interfere_def wait_cond_def notify_one_def Let_def)
qed

theorem update_exit_race_witness:
  "\<exists>b'. update 1 sample_driver (sample_writer True [] [\<lparr>woken = False, added = [], taken = 0\<rparr>,
       \<lparr>woken = False, added = [''x''], taken = 0\<rparr>], []) = Some (Inr (), (b', [])) \<and>
     m_deque (m_queue b') = [''x'']"
  by (rule update_exit_race) simp_all

end
