(* ===== verification/Writer_System.thy ===== *)
theory Writer_System
  imports Broker_Updates Step_System
begin

text \<open>
  A write broker under concurrency: the thread that runs \<open>broker::update\<close> and the io thread that
  serves write requests (\<open>asio_processor::do_write\<close>) and ends the thread (\<open>processor::term\<close>, with
  \<open>broker::wait_update_done\<close>), as one transition system in the manner of \<open>Reader_System\<close>. Other
  writers of the database are not in the model.
\<close>

section \<open>Places and state\<close>

text \<open>
  Where the writing thread is: at the call of \<open>pop\<close>, waiting in it, woken, with a popped
  request, behind a timeout and before it tests the exit flag, ended; with the request that
  made it fail; or taking the front of an empty deque.
\<close>

datatype writer_pc =
    U_pop
  | U_wait
  | U_woken
  | U_apply string
  | U_timeout
  | U_done
  | U_crashed string fault
  | U_undefined

text \<open>
  Where the io thread is: between requests; in the loop of \<open>do_write\<close> with the documents that
  are left; inside \<open>push\<close>; waiting for the writing thread to end; behind \<open>term\<close>.
\<close>

datatype pusher_pc =
    P_idle
  | P_push "string list"
  | P_lock "string list"
  | P_wait "string list"
  | P_woken "string list"
  | P_join
  | P_closed

text \<open>The last two fields record the documents of each write request and what was popped.\<close>

record ('o, 'db) wsys =
  wb :: "'o broker"
  wdb :: 'db
  upc :: writer_pc
  ppc :: pusher_pc
  requests :: "string list list"
  received :: "string list"

definition w_deque :: "('o, 'db) wsys \<Rightarrow> string list" where
  "w_deque s = m_deque (m_queue (wb s))"

definition w_limit :: "('o, 'db) wsys \<Rightarrow> nat" where
  "w_limit s = unat (m_limit_size (m_queue (wb s)))"

section \<open>Notifications\<close>

definition wake_writer :: "('o, 'db) wsys \<Rightarrow> ('o, 'db) wsys" where
  "wake_writer s = (case upc s of U_wait \<Rightarrow> s\<lparr>upc := U_woken\<rparr> | _ \<Rightarrow> s)"

definition wake_pusher :: "('o, 'db) wsys \<Rightarrow> ('o, 'db) wsys" where
  "wake_pusher s = (case ppc s of P_wait docs \<Rightarrow> s\<lparr>ppc := P_woken docs\<rparr> | _ \<Rightarrow> s)"

section \<open>The writing thread\<close>

text \<open>\<open>pop\<close> from the moment it has the lock and does not wait (any more).\<close>

definition do_take :: "('o, 'db) wsys \<Rightarrow> ('o, 'db) wsys" where
  "do_take s =
     (case take_front (m_queue (wb s)) of
        (Inl _, _) \<Rightarrow> s\<lparr>upc := U_undefined\<rparr>
      | (Inr x, q) \<Rightarrow>
          wake_pusher (s\<lparr>wb := (wb s)\<lparr>m_queue := q\<rparr>, upc := U_apply x, received := received s @ [x]\<rparr>))"

inductive writer_step :: "('o, 'db) driver \<Rightarrow> ('o, 'db) wsys \<Rightarrow> ('o, 'db) wsys \<Rightarrow> bool"
  for D :: "('o, 'db) driver" where
  u_take: "upc s = U_pop \<Longrightarrow> w_deque s \<noteq> [] \<Longrightarrow> writer_step D s (do_take s)"
| u_empty: "upc s = U_pop \<Longrightarrow> w_deque s = [] \<Longrightarrow> writer_step D s ((wake_pusher s)\<lparr>upc := U_wait\<rparr>)"
| u_deadline: "upc s = U_wait \<Longrightarrow> writer_step D s (s\<lparr>upc := U_timeout\<rparr>)"
| u_woken: "upc s = U_woken \<Longrightarrow> writer_step D s (do_take s)"
| u_apply: "upc s = U_apply json \<Longrightarrow> apply_update D json (wb s, wdb s) = (Inr (), (b, db)) \<Longrightarrow>
    writer_step D s (s\<lparr>wb := b, wdb := db, upc := U_pop\<rparr>)"
| u_fail: "upc s = U_apply json \<Longrightarrow> apply_update D json (wb s, wdb s) = (Inl e, (b, db)) \<Longrightarrow>
    writer_step D s (s\<lparr>wb := b, wdb := db, upc := U_crashed json e\<rparr>)"
| u_exit: "upc s = U_timeout \<Longrightarrow> m_do_exit (wb s) \<Longrightarrow> writer_step D s (s\<lparr>upc := U_done\<rparr>)"
| u_again: "upc s = U_timeout \<Longrightarrow> \<not> m_do_exit (wb s) \<Longrightarrow> writer_step D s (s\<lparr>upc := U_pop\<rparr>)"

section \<open>The io thread\<close>

text \<open>\<open>push\<close> from the moment it has the lock and does not wait (any more).\<close>

definition do_send :: "string list \<Rightarrow> ('o, 'db) wsys \<Rightarrow> ('o, 'db) wsys" where
  "do_send docs s =
     (let (xs, rest) = move_back (w_limit s) (w_deque s) docs
      in wake_writer (s\<lparr>wb := (wb s)\<lparr>m_queue := (m_queue (wb s))\<lparr>m_deque := xs\<rparr>\<rparr>, ppc := P_push rest\<rparr>))"

inductive pusher_step :: "('o, 'db) wsys \<Rightarrow> ('o, 'db) wsys \<Rightarrow> bool" where
  p_write: "ppc s = P_idle \<Longrightarrow> pusher_step s (s\<lparr>ppc := P_push docs, requests := requests s @ [docs]\<rparr>)"
| p_loop: "ppc s = P_push docs \<Longrightarrow> docs \<noteq> [] \<Longrightarrow> pusher_step s (s\<lparr>ppc := P_lock docs\<rparr>)"
| p_loop_end: "ppc s = P_push [] \<Longrightarrow> pusher_step s (s\<lparr>ppc := P_idle\<rparr>)"
| p_room: "ppc s = P_lock docs \<Longrightarrow> length (w_deque s) < w_limit s \<Longrightarrow> pusher_step s (do_send docs s)"
| p_full: "ppc s = P_lock docs \<Longrightarrow> w_limit s \<le> length (w_deque s) \<Longrightarrow>
    pusher_step s ((wake_writer s)\<lparr>ppc := P_wait docs\<rparr>)"
| p_woken: "ppc s = P_woken docs \<Longrightarrow> pusher_step s (do_send docs s)"
| p_exit: "ppc s = P_idle \<Longrightarrow> pusher_step s (s\<lparr>wb := set_exit (wb s), ppc := P_join\<rparr>)"
| p_join: "ppc s = P_join \<Longrightarrow> upc s = U_done \<Longrightarrow>
    pusher_step s (s\<lparr>wb := close_broker (wb s), ppc := P_closed\<rparr>)"

section \<open>The whole system\<close>

inductive write_step :: "('o, 'db) driver \<Rightarrow> bool \<Rightarrow> ('o, 'db) wsys \<Rightarrow> ('o, 'db) wsys \<Rightarrow> bool"
  for D :: "('o, 'db) driver" and spur :: bool where
  by_writer: "writer_step D s s' \<Longrightarrow> write_step D spur s s'"
| by_pusher: "pusher_step s s' \<Longrightarrow> write_step D spur s s'"
| spurious_writer: "spur \<Longrightarrow> upc s = U_wait \<Longrightarrow> write_step D spur s (s\<lparr>upc := U_woken\<rparr>)"
| spurious_pusher: "spur \<Longrightarrow> ppc s = P_wait docs \<Longrightarrow> write_step D spur s (s\<lparr>ppc := P_woken docs\<rparr>)"

text \<open>The start: a write broker that was just opened on a database \<open>db\<close>, with its thread.\<close>

definition write_opened :: "'db \<Rightarrow> ('o, 'db) wsys \<Rightarrow> bool" where
  "write_opened db s \<longleftrightarrow> m_inited (wb s) \<and> m_connected (wb s) \<and> \<not> m_do_exit (wb s) \<and> w_deque s = [] \<and>
     wdb s = db \<and> upc s = U_pop \<and> ppc s = P_idle \<and> requests s = [] \<and> received s = []"

abbreviation write_runs :: "('o, 'db) driver \<Rightarrow> bool \<Rightarrow> 'db \<Rightarrow> ('o, 'db) wsys \<Rightarrow> bool" where
  "write_runs D spur db \<equiv> reachable (write_opened db) (write_step D spur)"

section \<open>The steps as functions\<close>

text \<open>The environment chooses the requests, the end, and the deadline of a wait.\<close>

fun writer_next :: "('o, 'db) driver \<Rightarrow> ('o, 'db) wsys \<Rightarrow> ('o, 'db) wsys option" where
  "writer_next D s =
     (case upc s of
        U_pop \<Rightarrow> if w_deque s \<noteq> [] then Some (do_take s) else Some ((wake_pusher s)\<lparr>upc := U_wait\<rparr>)
      | U_wait \<Rightarrow> Some (s\<lparr>upc := U_timeout\<rparr>)
      | U_woken \<Rightarrow> Some (do_take s)
      | U_apply json \<Rightarrow>
          (case apply_update D json (wb s, wdb s) of
             (Inr _, (b, db)) \<Rightarrow> Some (s\<lparr>wb := b, wdb := db, upc := U_pop\<rparr>)
           | (Inl e, (b, db)) \<Rightarrow> Some (s\<lparr>wb := b, wdb := db, upc := U_crashed json e\<rparr>))
      | U_timeout \<Rightarrow> if m_do_exit (wb s) then Some (s\<lparr>upc := U_done\<rparr>) else Some (s\<lparr>upc := U_pop\<rparr>)
      | _ \<Rightarrow> None)"

datatype pusher_choice = Serve_write "string list" | Terminate_writing | Continue

fun pusher_next :: "pusher_choice \<Rightarrow> ('o, 'db) wsys \<Rightarrow> ('o, 'db) wsys option" where
  "pusher_next (Serve_write docs) s =
     (if ppc s = P_idle then Some (s\<lparr>ppc := P_push docs, requests := requests s @ [docs]\<rparr>) else None)"
| "pusher_next Terminate_writing s =
     (if ppc s = P_idle then Some (s\<lparr>wb := set_exit (wb s), ppc := P_join\<rparr>) else None)"
| "pusher_next Continue s =
     (case ppc s of
        P_push docs \<Rightarrow> if docs \<noteq> [] then Some (s\<lparr>ppc := P_lock docs\<rparr>) else Some (s\<lparr>ppc := P_idle\<rparr>)
      | P_lock docs \<Rightarrow>
          if length (w_deque s) < w_limit s then Some (do_send docs s)
          else Some ((wake_writer s)\<lparr>ppc := P_wait docs\<rparr>)
      | P_woken docs \<Rightarrow> Some (do_send docs s)
      | P_join \<Rightarrow> if upc s = U_done then Some (s\<lparr>wb := close_broker (wb s), ppc := P_closed\<rparr>) else None
      | _ \<Rightarrow> None)"

text \<open>A schedule is a list of moves; \<open>None\<close> is one of the writing thread.\<close>

fun write_schedule ::
  "('o, 'db) driver \<Rightarrow> pusher_choice option list \<Rightarrow> ('o, 'db) wsys \<Rightarrow> ('o, 'db) wsys option" where
  "write_schedule D [] s = Some s"
| "write_schedule D (None # ms) s =
     (case writer_next D s of Some s' \<Rightarrow> write_schedule D ms s' | None \<Rightarrow> None)"
| "write_schedule D (Some c # ms) s =
     (case pusher_next c s of Some s' \<Rightarrow> write_schedule D ms s' | None \<Rightarrow> None)"

text \<open>The functions and the relations describe the same steps.\<close>

lemma writer_next_iff: "writer_step D s s' \<longleftrightarrow> writer_next D s = Some s'"
proof
  show "writer_step D s s' \<Longrightarrow> writer_next D s = Some s'" by (induction rule: writer_step.induct) auto
  show "writer_next D s = Some s' \<Longrightarrow> writer_step D s s'"
    by (auto split: writer_pc.splits if_splits prod.splits sum.splits intro: writer_step.intros)
qed

lemma pusher_next_iff: "pusher_step s s' \<longleftrightarrow> (\<exists>c. pusher_next c s = Some s')"
proof
  show "\<exists>c. pusher_next c s = Some s'" if "pusher_step s s'"
    using that
  proof cases
    case (p_write docs)
    then show ?thesis by (intro exI [of _ "Serve_write docs"]) simp
  next
    case p_exit
    then show ?thesis by (intro exI [of _ Terminate_writing]) simp
  qed (intro exI [of _ Continue], simp)+
  show "pusher_step s s'" if "\<exists>c. pusher_next c s = Some s'"
    using that
    by (elim exE, case_tac c) (auto split: pusher_pc.splits if_splits intro: pusher_step.intros)
qed

lemma write_schedule_steps:
  "write_schedule D ms s = Some s' \<Longrightarrow> (write_step D spur)\<^sup>*\<^sup>* s s'"
proof (induction D ms s rule: write_schedule.induct)
  case (2 D ms s)
  then show ?case
    by (auto simp del: writer_next.simps split: option.splits
        simp: writer_next_iff [symmetric] intro: converse_rtranclp_into_rtranclp by_writer)
next
  case (3 D c ms s)
  from 3(2) obtain t where t: "pusher_next c s = Some t" "write_schedule D ms t = Some s'"
    by (auto simp del: pusher_next.simps split: option.splits)
  then have "write_step D spur s t" using pusher_next_iff by (blast intro: by_pusher)
  with 3(1) t show ?case by (auto intro: converse_rtranclp_into_rtranclp)
qed simp

lemma write_schedule_runs:
  "write_runs D spur db s \<Longrightarrow> write_schedule D ms s = Some s' \<Longrightarrow> write_runs D spur db s'"
  by (blast intro: reachable_run write_schedule_steps)

end
