(* ===== verification/Writer_Facts.thy ===== *)
theory Writer_Facts
  imports Writer_System
begin

text \<open>
  What holds in every run of the writing thread and the io thread: no document of a write request
  is lost or reordered, a waiting client is served, the shutdown ends and applies everything,
  except in one race, which a concrete run shows.
\<close>

section \<open>Frames\<close>

lemma w_update_simps [simp]:
  "w_deque (s\<lparr>upc := u\<rparr>) = w_deque s" "w_limit (s\<lparr>upc := u\<rparr>) = w_limit s"
  "w_deque (s\<lparr>ppc := p\<rparr>) = w_deque s" "w_limit (s\<lparr>ppc := p\<rparr>) = w_limit s"
  "w_deque (s\<lparr>wdb := db\<rparr>) = w_deque s" "w_limit (s\<lparr>wdb := db\<rparr>) = w_limit s"
  "w_deque (s\<lparr>requests := x\<rparr>) = w_deque s" "w_limit (s\<lparr>requests := x\<rparr>) = w_limit s"
  "w_deque (s\<lparr>received := y\<rparr>) = w_deque s" "w_limit (s\<lparr>received := y\<rparr>) = w_limit s"
  "m_queue b = m_queue (wb s) \<Longrightarrow> w_deque (s\<lparr>wb := b\<rparr>) = w_deque s"
  "m_queue b = m_queue (wb s) \<Longrightarrow> w_limit (s\<lparr>wb := b\<rparr>) = w_limit s"
  by (simp_all add: w_deque_def w_limit_def)

lemma write_ops_frame [simp]:
  "m_queue (set_exit b) = m_queue b" "m_do_exit (set_exit b)" "m_docset (set_exit b) = m_docset b"
  "m_queue (close_broker b) = m_queue b" "\<not> m_do_exit (close_broker b)" "m_docset (close_broker b) = m_docset b"
  by (simp_all add: set_exit_def close_broker_def reset_def)

lemma apply_update_frame [frame]:
  "apply_update D json (b, db) = (r, (b', db')) \<Longrightarrow>
    m_queue b' = m_queue b \<and> m_do_exit b' = m_do_exit b \<and> m_docset b' = m_docset b"
  by (auto simp: apply_update_eq split: sum.splits)

definition woken_writer :: "writer_pc \<Rightarrow> writer_pc" where
  "woken_writer u = (case u of U_wait \<Rightarrow> U_woken | _ \<Rightarrow> u)"

definition woken_pusher :: "pusher_pc \<Rightarrow> pusher_pc" where
  "woken_pusher p = (case p of P_wait docs \<Rightarrow> P_woken docs | _ \<Rightarrow> p)"

lemma w_wake_eq:
  "wake_writer s = s\<lparr>upc := woken_writer (upc s)\<rparr>"
  "wake_pusher s = s\<lparr>ppc := woken_pusher (ppc s)\<rparr>"
  by (simp_all add: wake_writer_def woken_writer_def wake_pusher_def woken_pusher_def
      split: writer_pc.splits pusher_pc.splits)

lemma do_take_empty [simp]: "w_deque s = [] \<Longrightarrow> do_take s = s\<lparr>upc := U_undefined\<rparr>"
  by (simp add: do_take_def take_front_def w_deque_def)

lemma do_take_fields:
  assumes "w_deque s = x # xs"
  shows "w_deque (do_take s) = xs" "w_limit (do_take s) = w_limit s"
    "upc (do_take s) = U_apply x" "ppc (do_take s) = woken_pusher (ppc s)" "wdb (do_take s) = wdb s"
    "requests (do_take s) = requests s" "received (do_take s) = received s @ [x]"
    "m_do_exit (wb (do_take s)) = m_do_exit (wb s)" "m_docset (wb (do_take s)) = m_docset (wb s)"
  using assms by (simp_all add: do_take_def take_front_def w_deque_def w_limit_def w_wake_eq notify_one_def)

lemma do_send_fields:
  assumes "move_back (w_limit s) (w_deque s) docs = (xs, rest)"
  shows "w_deque (do_send docs s) = xs" "w_limit (do_send docs s) = w_limit s"
    "upc (do_send docs s) = woken_writer (upc s)" "ppc (do_send docs s) = P_push rest"
    "wdb (do_send docs s) = wdb s" "requests (do_send docs s) = requests s"
    "received (do_send docs s) = received s"
    "m_do_exit (wb (do_send docs s)) = m_do_exit (wb s)" "m_docset (wb (do_send docs s)) = m_docset (wb s)"
  using assms by (simp_all add: do_send_def w_deque_def w_limit_def w_wake_eq)

section \<open>Every request is accounted for\<close>

definition unsent :: "pusher_pc \<Rightarrow> string list" where
  "unsent p = (case p of P_push docs \<Rightarrow> docs | P_lock docs \<Rightarrow> docs | P_wait docs \<Rightarrow> docs
     | P_woken docs \<Rightarrow> docs | _ \<Rightarrow> [])"

definition in_hand :: "writer_pc \<Rightarrow> string list" where
  "in_hand u = (case u of U_apply x \<Rightarrow> [x] | U_crashed x e \<Rightarrow> [x] | _ \<Rightarrow> [])"

definition flowing :: "('o, 'db) wsys \<Rightarrow> bool" where
  "flowing s \<longleftrightarrow> concat (map rev (requests s)) = received s @ w_deque s @ rev (unsent (ppc s))"

text \<open>The database is the first one with all received requests applied but the one in hand.\<close>

definition applied_to :: "('o, 'db) driver \<Rightarrow> 'db \<Rightarrow> ('o, 'db) wsys \<Rightarrow> bool" where
  "applied_to D db s \<longleftrightarrow> (\<exists>ys. received s = ys @ in_hand (upc s) \<and>
     apply_requests D (m_docset (wb s)) ys db = Inr (wdb s)) \<and>
     (\<forall>x e. upc s = U_crashed x e \<longrightarrow> apply_request D (m_docset (wb s)) x (wdb s) = Inl e)"

lemma unsent_simps [simp]:
  "unsent P_idle = []" "unsent (P_push docs) = docs" "unsent (P_lock docs) = docs"
  "unsent (P_wait docs) = docs" "unsent (P_woken docs) = docs" "unsent P_join = []" "unsent P_closed = []"
  by (simp_all add: unsent_def)

lemma in_hand_simps [simp]:
  "in_hand U_pop = []" "in_hand U_wait = []" "in_hand U_woken = []" "in_hand (U_apply x) = [x]"
  "in_hand U_timeout = []" "in_hand U_done = []" "in_hand (U_crashed x e) = [x]" "in_hand U_undefined = []"
  by (simp_all add: in_hand_def)

lemma woken_simps [simp]:
  "unsent (woken_pusher p) = unsent p" "in_hand (woken_writer u) = in_hand u"
  "(woken_writer u = U_crashed x e) = (u = U_crashed x e)" "(woken_writer u = U_undefined) = (u = U_undefined)"
  "(woken_writer u = U_done) = (u = U_done)" "(woken_writer u = U_timeout) = (u = U_timeout)" "woken_writer u \<noteq> U_wait"
  "woken_pusher p \<noteq> P_wait docs" "(woken_pusher p = P_join) = (p = P_join)"
  "(woken_pusher p = P_closed) = (p = P_closed)" "(woken_pusher p = P_idle) = (p = P_idle)"
  by (auto simp: woken_pusher_def woken_writer_def unsent_def in_hand_def split: pusher_pc.splits writer_pc.splits)

lemma apply_requests_snoc:
  "apply_requests D ds (xs @ [x]) db =
    (case apply_requests D ds xs db of Inl e \<Rightarrow> Inl e | Inr db' \<Rightarrow> apply_request D ds x db')"
  by (induction xs arbitrary: db) (auto split: sum.splits)

lemma flowing_send:
  assumes "flowing s" "unsent (ppc s) = docs"
  shows "flowing (do_send docs s)"
proof -
  obtain xs rest where m: "move_back (w_limit s) (w_deque s) docs = (xs, rest)" by fastforce
  from assms move_back_conserves [OF m] show ?thesis by (simp add: flowing_def do_send_fields [OF m])
qed

lemma flowing_take: "flowing s \<Longrightarrow> flowing (do_take s)"
  by (cases "w_deque s") (simp_all add: flowing_def do_take_fields)

lemma applied_send: "applied_to D db s \<Longrightarrow> applied_to D db (do_send docs s)"
  by (cases "move_back (w_limit s) (w_deque s) docs") (simp add: applied_to_def do_send_fields)

lemma applied_take:
  assumes "applied_to D db s" "in_hand (upc s) = []"
  shows "applied_to D db (do_take s)"
  using assms by (cases "w_deque s") (auto simp: applied_to_def do_take_fields)

lemma flowing_step:
  assumes "write_step D spur s s'" "flowing s"
  shows "flowing s'"
  using assms(1)
proof cases
  case by_writer
  then show ?thesis
    using assms(2)
    by cases (auto simp: flowing_take, auto simp: flowing_def w_wake_eq dest: frame)
next
  case by_pusher
  then show ?thesis
    using assms(2) by cases (auto simp: flowing_send, auto simp: flowing_def w_wake_eq)
qed (use assms(2) in \<open>auto simp: flowing_def\<close>)

lemma applied_writer:
  assumes "writer_step D s s'" "applied_to D db s"
  shows "applied_to D db s'"
  using assms(1)
proof cases
  case (u_apply json b db')
  with assms(2) show ?thesis
    by (auto simp: applied_to_def apply_update_eq apply_requests_snoc split: sum.splits)
next
  case (u_fail json e b db')
  with assms(2) show ?thesis by (auto simp: applied_to_def apply_update_eq split: sum.splits)
qed (use assms(2) in \<open>auto simp: applied_take, auto simp: applied_to_def w_wake_eq\<close>)

lemma applied_step:
  assumes "write_step D spur s s'" "applied_to D db s"
  shows "applied_to D db s'"
  using assms(1)
proof cases
  case by_writer
  with assms(2) show ?thesis by (rule applied_writer [rotated])
next
  case by_pusher
  then show ?thesis
    using assms(2) by cases (auto simp: applied_send, auto simp: applied_to_def w_wake_eq)
qed (use assms(2) in \<open>auto simp: applied_to_def\<close>)

lemma writes_opened: "write_opened db s \<Longrightarrow> flowing s \<and> applied_to D db s"
  by (simp add: write_opened_def flowing_def applied_to_def)

interpretation writes: step_invariant "write_opened db" "write_step D spur" "\<lambda>s. flowing s \<and> applied_to D db s"
  for D :: "('o, 'db) driver" and spur db
  by unfold_locales (auto simp: writes_opened intro: flowing_step applied_step)

section \<open>Waiting and waking\<close>

text \<open>
  Without spurious wake-ups and with a positive limit: a woken thread finds what it waits for,
  the writing thread waits only on an empty deque and the io thread only on a full one.
\<close>

definition steady :: "('o, 'db) wsys \<Rightarrow> bool" where
  "steady s \<longleftrightarrow> 0 < w_limit s \<and> length (w_deque s) \<le> w_limit s \<and> upc s \<noteq> U_undefined \<and>
     (upc s = U_woken \<longrightarrow> w_deque s \<noteq> []) \<and> (upc s = U_wait \<longrightarrow> w_deque s = []) \<and>
     (\<forall>docs. ppc s = P_wait docs \<longrightarrow> w_limit s \<le> length (w_deque s)) \<and>
     (\<forall>docs. ppc s \<in> {P_lock docs, P_wait docs, P_woken docs} \<longrightarrow> docs \<noteq> []) \<and>
     (m_do_exit (wb s) \<longleftrightarrow> ppc s = P_join) \<and> (upc s = U_done \<longrightarrow> ppc s \<in> {P_join, P_closed})"

lemma woken_pusher_cases:
  "woken_pusher p = P_lock docs \<longleftrightarrow> p = P_lock docs"
  "woken_pusher p = P_woken docs \<longleftrightarrow> p = P_woken docs \<or> p = P_wait docs"
  "woken_writer u = U_woken \<longleftrightarrow> u = U_woken \<or> u = U_wait"
  by (auto simp: woken_pusher_def woken_writer_def split: pusher_pc.splits writer_pc.splits)

lemma steady_send:
  assumes "steady s" "ppc s = P_lock docs \<or> ppc s = P_woken docs"
  shows "steady (do_send docs s)"
proof -
  obtain xs rest where m: "move_back (w_limit s) (w_deque s) docs = (xs, rest)" by fastforce
  from assms have "docs \<noteq> []" "0 < w_limit s" "length (w_deque s) \<le> w_limit s" by (auto simp: steady_def)
  with m have "length xs \<le> w_limit s" "xs \<noteq> []"
    by (auto simp: move_back_eq Let_def min_def split: if_splits)
  with assms show ?thesis by (auto simp: steady_def do_send_fields [OF m])
qed

lemma steady_take:
  assumes "steady s" "w_deque s \<noteq> []"
  shows "steady (do_take s)"
proof -
  obtain x xs where d: "w_deque s = x # xs" using assms(2) by (cases "w_deque s") auto
  with assms(1) show ?thesis by (auto simp: steady_def do_take_fields [OF d] woken_pusher_cases)
qed

lemma steady_step:
  assumes "write_step D False s s'" "steady s"
  shows "steady s'"
  using assms(1)
proof cases
  case by_writer
  then show ?thesis
    using assms(2)
  proof cases
    case u_woken
    moreover from this assms(2) have "w_deque s \<noteq> []" by (simp add: steady_def)
    ultimately show ?thesis using assms(2) by (simp add: steady_take)
  next
    case u_empty
    with assms(2) show ?thesis by (auto simp: steady_def w_wake_eq woken_pusher_cases)
  next
    case (u_apply json b db)
    with assms(2) apply_update_frame [OF u_apply(3)] show ?thesis by (auto simp: steady_def)
  next
    case (u_fail json e b db)
    with assms(2) apply_update_frame [OF u_fail(3)] show ?thesis by (auto simp: steady_def)
  qed (use assms(2) in \<open>simp_all add: steady_take, auto simp: steady_def\<close>)
next
  case by_pusher
  then show ?thesis
    using assms(2)
  proof cases
    case (p_full docs)
    with assms(2) show ?thesis by (auto simp: steady_def w_wake_eq woken_pusher_cases)
  qed (use assms(2) in \<open>simp_all add: steady_send, auto simp: steady_def\<close>)
qed simp_all

lemma steady_opened: "write_opened db s \<Longrightarrow> 0 < w_limit s \<Longrightarrow> steady s"
  by (auto simp: write_opened_def steady_def)

lemma w_limit_take: "w_limit (do_take s) = w_limit s"
  by (cases "w_deque s") (simp_all add: do_take_fields)

lemma w_limit_send: "w_limit (do_send docs s) = w_limit s"
  by (cases "move_back (w_limit s) (w_deque s) docs") (simp add: do_send_fields)

lemma w_limit_step:
  assumes "write_step D spur s s'"
  shows "w_limit s' = w_limit s"
  using assms
proof cases
  case by_writer
  then show ?thesis by cases (auto simp: w_wake_eq w_limit_take dest: frame)
next
  case by_pusher
  then show ?thesis by cases (auto simp: w_wake_eq w_limit_send)
qed auto

lemma write_runs_positive:
  assumes "write_runs D spur db s" "0 < w_limit s"
  shows "reachable (\<lambda>s. write_opened db s \<and> 0 < w_limit s) (write_step D spur) s"
  using assms
proof (induction rule: reachable.induct)
  case (start s)
  then show ?case by (auto intro: reachable.start)
next
  case (next_state s s')
  then show ?case using w_limit_step [OF next_state.hyps(2)] by (auto intro: reachable.next_state)
qed

section \<open>A waiting client is served, and the thread ends\<close>

definition writer_over :: "('o, 'db) wsys \<Rightarrow> bool" where
  "writer_over s \<longleftrightarrow> upc s = U_done \<or> (\<exists>x e. upc s = U_crashed x e)"

definition blocked :: "('o, 'db) wsys \<Rightarrow> bool" where
  "blocked s \<longleftrightarrow> (\<exists>docs. ppc s = P_wait docs)"

text \<open>Steps of the writing thread until it pops; in \<open>P_join\<close> until it ends.\<close>

definition serving_rank :: "('o, 'db) wsys \<Rightarrow> nat" where
  "serving_rank s = (if \<not> blocked s then 0 else case upc s of U_apply x \<Rightarrow> 2 | U_timeout \<Rightarrow> 2 | U_pop \<Rightarrow> 1
     | U_woken \<Rightarrow> 1 | U_wait \<Rightarrow> 3 | _ \<Rightarrow> 0)"

definition ending_rank :: "('o, 'db) wsys \<Rightarrow> nat" where
  "ending_rank s = (case upc s of U_pop \<Rightarrow> 2 * length (w_deque s) + 3 | U_apply x \<Rightarrow> 2 * length (w_deque s) + 4
     | U_woken \<Rightarrow> 2 * length (w_deque s) + 3 | U_wait \<Rightarrow> 2 | U_timeout \<Rightarrow> 1 | _ \<Rightarrow> 0)"

lemma blocked_take: "w_deque s \<noteq> [] \<Longrightarrow> \<not> blocked (do_take s)"
  by (cases "w_deque s") (simp_all add: blocked_def do_take_fields)

lemma serving_step:
  assumes "steady s" "blocked s" "writer_step D s s'"
  shows "serving_rank s' < serving_rank s"
  using assms(3)
proof cases
  case u_take
  with assms(2) show ?thesis by (simp add: serving_rank_def blocked_take)
next
  case u_woken
  moreover from this assms(1) have "w_deque s \<noteq> []" by (simp add: steady_def)
  ultimately show ?thesis using assms(2) by (simp add: serving_rank_def blocked_take)
next
  case u_exit
  with assms(1,2) show ?thesis by (auto simp: steady_def blocked_def)
next
  case u_empty
  with assms(2) show ?thesis by (auto simp: serving_rank_def blocked_def w_wake_eq)
qed (use assms(2) in \<open>auto simp: serving_rank_def blocked_def\<close>)

lemma writer_can_step:
  assumes "steady s" "\<not> writer_over s"
  shows "\<exists>s'. writer_step D s s'"
proof (cases "upc s")
  case (U_apply json)
  obtain r b db where "apply_update D json (wb s, wdb s) = (r, (b, db))" by (rule prod_cases3)
  with U_apply show ?thesis by (cases r) (auto intro: u_apply u_fail)
next
  case U_pop
  then show ?thesis by (cases "w_deque s = []") (auto intro: u_take u_empty)
qed (use assms in \<open>auto simp: steady_def writer_over_def intro: u_take u_empty u_deadline u_woken u_exit u_again\<close>)

interpretation serving: ranked_thread "\<lambda>s. write_opened db s \<and> 0 < w_limit s" "write_step D False" steady
    "\<lambda>s s'. blocked s \<and> writer_step D s s'" "\<lambda>_. True" "\<lambda>s. \<not> blocked s \<or> writer_over s" serving_rank
  for D :: "('o, 'db) driver" and db
  by unfold_locales
    (auto intro: steady_opened steady_step by_writer serving_step dest: writer_can_step [where D = D])

lemma steady_runs: "write_runs D False db s \<Longrightarrow> 0 < w_limit s \<Longrightarrow> steady s"
  by (rule serving.reachable_holds [where D = D]) (rule write_runs_positive)

lemma ending_step:
  assumes "steady s" "ppc s = P_join" "writer_step D s s'"
  shows "ppc s' = P_join \<and> ending_rank s' < ending_rank s"
  using assms(3)
proof cases
  case u_take
  then show ?thesis using assms(2) by (cases "w_deque s") (simp_all add: ending_rank_def do_take_fields)
next
  case u_woken
  then show ?thesis using assms(1,2)
    by (cases "w_deque s") (simp_all add: ending_rank_def do_take_fields steady_def)
next
  case u_again
  with assms(1,2) show ?thesis by (simp add: steady_def)
qed (use assms(2) in \<open>auto simp: ending_rank_def w_wake_eq dest: frame\<close>)

interpretation ending: ranked_thread "\<lambda>s. write_opened db s \<and> 0 < w_limit s" "write_step D False" steady
    "writer_step D" "\<lambda>s. ppc s = P_join" writer_over ending_rank
  for D :: "('o, 'db) driver" and db
  by unfold_locales (auto intro: steady_opened steady_step by_writer writer_can_step dest: ending_step)

section \<open>The shutdown without a race\<close>

text \<open>Once the io thread waits for the end, an empty deque at the last test stays empty.\<close>

definition winding_up :: "('o, 'db) wsys \<Rightarrow> bool" where
  "winding_up s \<longleftrightarrow> ppc s \<in> {P_join, P_closed} \<and> (upc s \<in> {U_timeout, U_done} \<longrightarrow> w_deque s = []) \<and>
     (ppc s = P_closed \<longrightarrow> upc s = U_done)"

lemma winding_up_step:
  assumes "write_step D False s s'" "steady s" "winding_up s"
  shows "winding_up s'"
  using assms(1)
proof cases
  case by_writer
  then show ?thesis
    using assms(2,3)
  proof cases
    case u_take
    with assms(3) show ?thesis by (cases "w_deque s") (auto simp: winding_up_def do_take_fields)
  next
    case u_woken
    with assms(2,3) show ?thesis
      by (cases "w_deque s") (auto simp: winding_up_def do_take_fields steady_def)
  next
    case u_deadline
    with assms(2,3) show ?thesis by (auto simp: winding_up_def steady_def)
  qed (auto simp: winding_up_def w_wake_eq)
next
  case by_pusher
  then show ?thesis using assms(3) by cases (auto simp: winding_up_def)
qed simp_all

lemma winding_up_run:
  "(write_step D False)\<^sup>*\<^sup>* s s' \<Longrightarrow> steady s \<Longrightarrow> winding_up s \<Longrightarrow> winding_up s'"
  by (induction rule: converse_rtranclp_induct) (auto intro: winding_up_step steady_step)

section \<open>Sample runs\<close>

text \<open>A driver that parses a text to an update with a document of that id, and inserts it.\<close>

definition sample_writer_driver :: "(bson, bson list) driver" where
  "sample_writer_driver = sample_driver\<lparr>fromjson := \<lambda>s. Inr [(''doc'', VObj [(''_id'', VOid s)])]\<rparr>"

definition sample_wsys :: "size_t \<Rightarrow> (bson, bson list) wsys" where
  "sample_wsys lim = \<lparr>wb = (new_broker sample_driver)\<lparr>m_inited := True, m_connected := True,
       m_queue := \<lparr>m_limit_size = lim, m_deque = [], m_signals = [], m_sched = []\<rparr>\<rparr>,
     wdb = [], upc = U_pop, ppc = P_idle, requests = [], received = []\<rparr>"

lemma sample_write_runs:
  assumes "write_schedule sample_writer_driver ms (sample_wsys lim) = Some s"
  shows "write_runs sample_writer_driver spur [] s"
proof -
  have "write_opened [] (sample_wsys lim)"
    by (simp add: write_opened_def sample_wsys_def w_deque_def new_broker_def reset_def)
  then show ?thesis using assms by (blast intro: write_schedule_runs reachable.start)
qed

lemmas write_run_simps = sample_wsys_def w_deque_def w_limit_def
  do_send_def do_take_def wake_writer_def wake_pusher_def move_back_eq take_front_def notify_one_def
  apply_update_def sample_writer_driver_def sample_driver_simps sample_obj_def Let_def set_exit_def
  new_broker_def reset_def default_broker_def close_broker_def

lemma sample_blocked_run:
  "\<exists>s. write_schedule sample_writer_driver
       [Some (Serve_write [''a'', ''b'']), Some Continue, Some Continue, Some Continue, Some Continue] (sample_wsys 1) = Some s \<and>
     ppc s = P_wait [''a''] \<and> upc s = U_pop \<and> w_deque s = [''b''] \<and> w_limit s = 1 \<and> requests s = [[''a'', ''b'']]"
  by (simp add: write_run_simps del: w_update_simps)

lemma sample_written_run:
  "\<exists>s. write_schedule sample_writer_driver
       [Some (Serve_write [''a'']), Some Continue, Some Continue, Some Continue] (sample_wsys 1) = Some s \<and>
     ppc s = P_idle \<and> upc s = U_pop \<and> w_deque s = [''a''] \<and> w_limit s = 1 \<and>
     write_schedule sample_writer_driver [None, None, None, None, None, Some Continue]
       (s\<lparr>wb := set_exit (wb s), ppc := P_join\<rparr>) =
       Some (s\<lparr>wb := close_broker ((wb s)\<lparr>m_update_count := 1, m_queue := (m_queue (wb s))\<lparr>m_deque := [],
           m_signals := [Notified Can_push]\<rparr>\<rparr>),
         wdb := [[(''_id'', VOid ''a'')]], upc := U_done, ppc := P_closed, received := [''a'']\<rparr>)"
  by (simp add: write_run_simps del: w_update_simps)

lemma sample_joining_run:
  "\<exists>s. write_schedule sample_writer_driver
       [Some (Serve_write [''a'']), Some Continue, Some Continue, Some Continue, Some Terminate_writing] (sample_wsys 1) = Some s \<and>
     ppc s = P_join \<and> upc s = U_pop \<and> w_deque s = [''a''] \<and> w_limit s = 1"
  by (simp add: write_run_simps del: w_update_simps)

lemma sample_lost_run:
  "\<exists>s. write_schedule sample_writer_driver
       [None, None, Some (Serve_write [''a'']), Some Continue, Some Continue, Some Continue,
        Some Terminate_writing, None, Some Continue] (sample_wsys 1) = Some s \<and>
     ppc s = P_closed \<and> upc s = U_done \<and> w_deque s = [''a''] \<and> w_limit s = 1 \<and> requests s = [[''a'']] \<and>
     wdb s = []"
  by (simp add: write_run_simps del: w_update_simps)

section \<open>Properties\<close>

text \<open>
  C6: Every document of every write request is accounted for, in every run of the io thread and
  the writing thread, spurious wake-ups included: in the order in which they are pushed (each
  request from its end) the documents are those the writing thread has popped, those in the
  queue and those still to be pushed; and the database is the initial one with all popped
  requests applied in that order, up to the one the writing thread is at or failed with.
\<close>

theorem writes_accounted:
  assumes "write_runs D spur db s"
  shows "concat (map rev (requests s)) = received s @ w_deque s @ rev (unsent (ppc s)) \<and>
    (\<exists>ys. received s = ys @ in_hand (upc s) \<and> apply_requests D (m_docset (wb s)) ys db = Inr (wdb s))"
  using writes.reachable_holds [where D = D, OF assms] by (simp add: flowing_def applied_to_def)

theorem writes_accounted_witness:
  "\<exists>s. write_runs sample_writer_driver False [] s \<and> requests s = [[''a'', ''b'']] \<and>
     received s = [] \<and> w_deque s = [''b''] \<and> ppc s = P_wait [''a'']"
proof -
  obtain s where s: "write_runs sample_writer_driver False [] s" "requests s = [[''a'', ''b'']]"
      "w_deque s = [''b'']" "ppc s = P_wait [''a'']"
    using sample_blocked_run sample_write_runs by blast
  from writes_accounted [OF s(1)] s have "received s = []" by simp
  with s show ?thesis by blast
qed

text \<open>
  C8: A client whose write request waits for room in the queue is served. With a positive limit and
  no spurious wake-ups, after at most two steps of its own the writing thread has woken the io
  thread, or it has ended with an exception because the database rejects the request in its hand
  (or the request does not parse).
\<close>

theorem blocked_write_served:
  assumes "write_runs D False db s" "0 < w_limit s" "ppc s = P_wait docs"
  shows "\<exists>n s'. n \<le> 2 \<and> (writer_step D ^^ n) s s' \<and> (\<not> blocked s' \<or>
    (\<exists>x e. upc s' = U_crashed x e \<and> apply_request D (m_docset (wb s')) x (wdb s') = Inl e))"
proof -
  have st: "steady s" using steady_runs [OF assms(1,2)] .
  with assms(3) have r: "serving_rank s \<le> 2"
    by (auto simp: steady_def serving_rank_def split: writer_pc.splits)
  from serving.run_to_finish [where D = D, OF st] obtain n s' where
    n: "n \<le> serving_rank s" "((\<lambda>s s'. blocked s \<and> writer_step D s s') ^^ n) s s'" "\<not> blocked s' \<or> writer_over s'"
    by blast
  have w: "(writer_step D ^^ n) s s'" using n(2) by (rule relpowp_mono [rotated]) simp
  then have "(write_step D False)\<^sup>*\<^sup>* s s'"
    by (intro relpowp_imp_rtranclp [of n] relpowp_mono [OF _ w]) (rule by_writer)
  from writes.reachable_holds [where D = D, OF reachable_run [OF assms(1) this]]
  have "\<forall>x e. upc s' = U_crashed x e \<longrightarrow> apply_request D (m_docset (wb s')) x (wdb s') = Inl e"
    by (simp add: applied_to_def)
  moreover have "\<not> (blocked s' \<and> upc s' = U_done)"
    using serving.bounded_run [where D = D, OF st _ n(2)] by (auto simp: steady_def blocked_def)
  ultimately show ?thesis
    using n(1,3) r w by (intro exI [of _ n] exI [of _ s']) (auto simp: writer_over_def)
qed

theorem blocked_write_served_witness:
  "\<exists>s. write_runs sample_writer_driver False [] s \<and> ppc s = P_wait [''a''] \<and>
     (\<exists>n s'. n \<le> 2 \<and> (writer_step sample_writer_driver ^^ n) s s' \<and>
       (\<not> blocked s' \<or>
         (\<exists>x e. upc s' = U_crashed x e \<and> apply_request sample_writer_driver (m_docset (wb s')) x (wdb s') = Inl e)))"
proof -
  obtain s where s: "write_runs sample_writer_driver False [] s" "ppc s = P_wait [''a'']" "w_limit s = 1"
    using sample_blocked_run sample_write_runs by blast
  from blocked_write_served [OF s(1) _ s(2)] s show ?thesis by (intro exI [of _ s]) simp
qed

text \<open>
  C9: With a positive limit and no spurious wake-ups, \<open>term\<close> waits for the writing thread only as
  long as it has requests to apply: from the moment the io thread waits, the writing thread is
  never stuck and ends, or fails on a request, after at most two steps for each queued request
  and four more.
\<close>

theorem writer_join_terminates:
  assumes "write_runs D False db s" "0 < w_limit s" "ppc s = P_join"
  shows "(\<exists>n s'. (writer_step D ^^ n) s s' \<and> writer_over s') \<and>
    (\<forall>n s'. (writer_step D ^^ n) s s' \<longrightarrow> n \<le> 2 * length (w_deque s) + 4)"
proof -
  have st: "steady s" using steady_runs [OF assms(1,2)] .
  have "ending_rank s \<le> 2 * length (w_deque s) + 4" by (simp add: ending_rank_def split: writer_pc.splits)
  with ending.run_to_finish [where D = D, OF st assms(3)] ending.bounded_run [where D = D, OF st assms(3)]
  show ?thesis by (meson add_leD1 le_trans)
qed

theorem writer_join_terminates_witness:
  "\<exists>s. write_runs sample_writer_driver False [] s \<and> ppc s = P_join \<and> w_deque s = [''a''] \<and>
     (\<exists>n s'. (writer_step sample_writer_driver ^^ n) s s' \<and> writer_over s')"
proof -
  obtain s where s: "write_runs sample_writer_driver False [] s" "ppc s = P_join" "w_limit s = 1" "w_deque s = [''a'']"
    using sample_joining_run sample_write_runs by blast
  from writer_join_terminates [OF s(1) _ s(2)] s show ?thesis by (intro exI [of _ s]) simp
qed

text \<open>
  C7: A clean shutdown loses no write. With a positive limit and no spurious wake-ups, if the io thread sets the exit flag while the writing
  thread is not between a timeout and its test of the flag with documents in the queue, then
  when \<open>term\<close> is through the queue is empty and the database is the initial one with all
  documents of all write requests applied.
\<close>

theorem shutdown_applies_all:
  assumes "write_runs D False db s" "0 < w_limit s" "ppc s = P_idle" "\<not> (upc s = U_timeout \<and> w_deque s \<noteq> [])"
    and "(write_step D False)\<^sup>*\<^sup>* (s\<lparr>wb := set_exit (wb s), ppc := P_join\<rparr>) s'" "ppc s' = P_closed"
  shows "w_deque s' = [] \<and>
    apply_requests D (m_docset (wb s')) (concat (map rev (requests s'))) db = Inr (wdb s')"
proof -
  let ?s = "s\<lparr>wb := set_exit (wb s), ppc := P_join\<rparr>"
  have "write_step D False s ?s" using assms(3) by (blast intro: p_exit by_pusher)
  then have run: "write_runs D False db ?s" using assms(1) by (rule reachable.next_state [rotated])
  have st: "steady s" using steady_runs [OF assms(1,2)] .
  with assms(3,4) have "winding_up ?s" by (auto simp: winding_up_def steady_def)
  moreover have "steady ?s" using \<open>write_step D False s ?s\<close> st by (rule steady_step)
  ultimately have "winding_up s'" using winding_up_run [OF assms(5)] by blast
  then have e: "w_deque s' = []" "upc s' = U_done" using assms(6) by (auto simp: winding_up_def)
  from writes.reachable_holds [where D = D, OF reachable_run [OF run assms(5)]] e assms(6)
  show ?thesis by (auto simp: flowing_def applied_to_def)
qed

theorem shutdown_applies_all_witness:
  "\<exists>s'. write_runs sample_writer_driver False [] s' \<and> ppc s' = P_closed \<and> w_deque s' = [] \<and>
     wdb s' = [[(''_id'', VOid ''a'')]] \<and>
     apply_requests sample_writer_driver (m_docset (wb s')) (concat (map rev (requests s'))) [] = Inr (wdb s')"
proof -
  obtain s s' where s: "write_runs sample_writer_driver False [] s" "ppc s = P_idle" "upc s = U_pop" "w_limit s = 1"
      "(write_step sample_writer_driver False)\<^sup>*\<^sup>* (s\<lparr>wb := set_exit (wb s), ppc := P_join\<rparr>) s'"
      "ppc s' = P_closed" "wdb s' = [[(''_id'', VOid ''a'')]]"
    using sample_written_run sample_write_runs write_schedule_steps
    by (smt (verit) wsys.select_convs wsys.surjective wsys.update_convs)
  have "write_step sample_writer_driver False s (s\<lparr>wb := set_exit (wb s), ppc := P_join\<rparr>)"
    using s(2) by (blast intro: p_exit by_pusher)
  then have "write_runs sample_writer_driver False [] s'"
    using s(1,5) by (blast intro: reachable_run reachable.next_state)
  with shutdown_applies_all [OF s(1) _ s(2) _ s(5,6)] s show ?thesis by (intro exI [of _ s']) simp
qed

text \<open>
  C38: The race at shutdown is real. There is a run in which a client's document is queued behind
  the timeout of the writing thread and before its test of the exit flag: the thread ends, \<open>term\<close>
  comes through, the processor is closed, and the document was never applied.
\<close>

theorem shutdown_loses_write:
  "\<exists>s. write_runs sample_writer_driver False [] s \<and> 0 < w_limit s \<and> ppc s = P_closed \<and> upc s = U_done \<and>
     requests s = [[''a'']] \<and> w_deque s = [''a''] \<and> wdb s = []"
proof -
  obtain s where "write_runs sample_writer_driver False [] s" "ppc s = P_closed" "upc s = U_done"
      "w_deque s = [''a'']" "w_limit s = 1" "requests s = [[''a'']]" "wdb s = []"
    using sample_lost_run sample_write_runs by blast
  then show ?thesis by (intro exI [of _ s]) simp
qed

end
