(* ===== verification/Writer_Views.thy ===== *)
theory Writer_Views
  imports Writer_Facts Processor_Facts Call_Views
begin

text \<open>
  The write requests of the interleaved writing thread and io thread are calls of \<open>do_write\<close> in one
  piece under some schedule of interference, as the batches in \<open>Reader_Views\<close> are of \<open>do_read\<close>.
\<close>

section \<open>The rest of a write request\<close>

text \<open>What is seen of it: what it leaves in the queue.\<close>

fun write_end :: "('o broker, 'a) outcome \<Rightarrow> string list option" where
  "write_end (Inl e, b) = None"
| "write_end (Inr _, b) = Some (m_deque (m_queue b))"

definition after_room :: "string list \<Rightarrow> (string sized_queue, unit) outcome \<Rightarrow> 'o broker \<Rightarrow> string list option" where
  "after_room docs r b = (case r of
     (Inl e, q) \<Rightarrow> None
   | (Inr _, q) \<Rightarrow> (let (xs, rest) = move_back (unat (m_limit_size q)) (m_deque q) docs
       in write_end (write_loop rest (b\<lparr>m_queue := notify_one Can_pop (q\<lparr>m_deque := xs\<rparr>)\<rparr>))))"

lemma after_room_queue [simp]:
  "after_room docs r (signalled sg b) = after_room docs r b"
  "after_room docs r (b\<lparr>m_queue := q\<rparr>) = after_room docs r b"
  by (simp_all add: after_room_def split: prod.split sum.split)

lemma write_loop_begin:
  assumes "m_inited b" "m_connected b" "docs \<noteq> []"
  shows "write_end (write_loop docs b) = after_room docs (wait_for_room 0 (lock (m_queue b))) b"
  using assms
  by (subst write_loop.simps)
    (auto simp: broker_push_def on_queue_def push_all_def after_room_def andthen_def Let_def split: prod.splits sum.splits)

fun resume_write :: "'o broker \<Rightarrow> string interference list \<Rightarrow> pusher_pc \<Rightarrow> string list \<Rightarrow> string list option" where
  "resume_write b es (P_push docs) d = write_end (write_loop docs (b\<lparr>m_queue := with_queue d es (m_queue b)\<rparr>))"
| "resume_write b es (P_lock docs) d = write_end (write_loop docs (b\<lparr>m_queue := with_queue d es (m_queue b)\<rparr>))"
| "resume_write b es (P_wait docs) d =
     after_room docs (wait_cond Can_push 0 ''no consumer'' (with_queue d es (m_queue b))) b"
| "resume_write b es (P_woken docs) d = after_room docs (Inr (), lock (with_queue d es (m_queue b))) b"
| "resume_write b es _ d = Some d"

definition wsituated :: "'o broker \<times> pusher_pc \<times> string list \<Rightarrow> string interference list \<Rightarrow> string list option" where
  "wsituated x es = (case x of (b, pc, d) \<Rightarrow> if nothing_added es then resume_write b es pc d else None)"

abbreviation wprecedes :: "'o broker \<times> pusher_pc \<times> string list \<Rightarrow> 'o broker \<times> pusher_pc \<times> string list \<Rightarrow> bool" where
  "wprecedes x x' \<equiv> covers (wsituated x) (wsituated x')"

lemma wprecedesI:
  assumes "\<And>es. nothing_added es \<Longrightarrow> nothing_added (f es)"
    "\<And>es r. resume_write b' es pc' d' = Some r \<Longrightarrow> resume_write b (f es) pc d = Some r"
  shows "wprecedes (b, pc, d) (b', pc', d')"
  by (rule coversI [of _ _ f]) (use assms in \<open>auto simp: wsituated_def split: if_splits\<close>)

text \<open>The places of a write request up to its last test for documents that are left.\<close>

fun writing :: "pusher_pc \<Rightarrow> bool" where
  "writing (P_push docs) \<longleftrightarrow> docs \<noteq> []"
| "writing (P_lock docs) \<longleftrightarrow> docs \<noteq> []"
| "writing (P_wait docs) \<longleftrightarrow> docs \<noteq> []"
| "writing (P_woken docs) \<longleftrightarrow> docs \<noteq> []"
| "writing _ = False"

lemma writer_took:
  assumes "writing pc" "m_inited b" "m_connected b" "k \<le> length d"
  shows "wprecedes (b, pc, d) (b, pc, drop k d)"
proof -
  have l: "lock (with_queue d (absorb [] k es) q) = lock (with_queue (drop k d) es q)" for es and q :: "string sized_queue"
    using lock_absorb [OF assms(4), of "[]" es q] by simp
  show ?thesis
  proof (cases pc)
    case (P_wait docs)
    show ?thesis
    proof (rule wprecedesI [of "absorb [] k"])
      show "resume_write b es pc (drop k d) = Some r \<Longrightarrow> resume_write b (absorb [] k es) pc d = Some r" for es r
        using wait_absorb [OF assms(4), of es Can_push 0 "''no consumer''" "[]" "m_queue b"] P_wait
        by (cases "es = []") (simp_all add: wait_no_schedule after_room_def)
    qed simp
  qed (rule wprecedesI [of "absorb [] k"], simp, use assms l in \<open>simp add: write_loop_begin\<close>)+
qed

lemma writer_woke: "\<exists>sg. wprecedes (b, pc, d) (signalled sg b, woken_pusher pc, d)"
proof (cases pc)
  case (P_wait docs)
  have "wprecedes (b, pc, d) (signalled [Waited Can_push] b, woken_pusher pc, d)"
    by (rule wprecedesI [of "as_woken True"]) (simp_all add: P_wait woken_pusher_def wait_woken)
  then show ?thesis ..
qed (rule exI [of _ "[]"], simp add: woken_pusher_def signalled_def covers_refl)+

definition stands_for :: "'o broker \<Rightarrow> ('o, 'db) wsys \<Rightarrow> bool" where
  "stands_for b s \<longleftrightarrow> m_inited b \<and> m_connected b \<and> unat (m_limit_size (m_queue b)) = w_limit s"

abbreviation write_over :: "('o, 'db) wsys \<Rightarrow> bool" where
  "write_over s \<equiv> ppc s = P_push []"

definition wsituation :: "'o broker \<Rightarrow> ('o, 'db) wsys \<Rightarrow> 'o broker \<times> pusher_pc \<times> string list" where
  "wsituation b s = (b, ppc s, w_deque s)"

lemma apply_limit: "apply_update D json (b, db) = (r, (b', db')) \<Longrightarrow> m_queue b' = m_queue b"
  by (drule apply_update_frame) simp

lemma writer_effect:
  assumes "writer_step D s s'"
  shows "(\<exists>k \<le> length (w_deque s). w_deque s' = drop k (w_deque s)) \<and> w_limit s' = w_limit s \<and>
    ppc s' \<in> {ppc s, woken_pusher (ppc s)}"
proof -
  have t: "(\<exists>k \<le> length (w_deque s). w_deque (do_take s) = drop k (w_deque s)) \<and>
      ppc (do_take s) \<in> {ppc s, woken_pusher (ppc s)}"
    by (cases "w_deque s") (auto simp: do_take_fields intro!: exI [of _ 1])
  have z: "\<exists>k \<le> length xs. xs = drop k xs" for xs :: "string list" by (intro exI [of _ 0]) simp
  from assms show ?thesis
    by cases (use t z in \<open>auto simp: w_limit_take w_wake_eq dest: apply_limit\<close>)
qed

lemma other_wprecedes:
  assumes "stands_for b s" "writing (ppc s)" "k \<le> length (w_deque s)" "w_deque s' = drop k (w_deque s)"
    "w_limit s' = w_limit s" "ppc s' \<in> {ppc s, woken_pusher (ppc s)}"
  shows "\<exists>b'. stands_for b' s' \<and> wprecedes (wsituation b s) (wsituation b' s')"
proof -
  have st: "stands_for (signalled sg b) s'" for sg
    using assms(1,5) by (simp add: stands_for_def)
  have took: "wprecedes (wsituation b s) (b, ppc s, w_deque s')"
    unfolding wsituation_def assms(4) using assms(1-3) by (intro writer_took) (simp_all add: stands_for_def)
  have b: "signalled [] b = b" by (simp add: signalled_def)
  have "\<exists>sg. wprecedes (b, ppc s, w_deque s') (wsituation (signalled sg b) s')"
    using assms(6) writer_woke [of b "ppc s"] covers_refl [of "wsituated (wsituation b s')"] b
    unfolding wsituation_def by (metis insertE singletonD)
  with st covers_trans [OF took] show ?thesis by blast
qed

lemma sent_precedes:
  assumes "stands_for b s" "writing (ppc s)"
    "\<And>es. resume_write b (absorb [] 0 [] @ es) (ppc s) (w_deque s) =
      after_room docs (Inr (), with_queue (w_deque s) es (m_queue b)) b"
  shows "stands_for (signalled [Notified Can_pop] b) (do_send docs s) \<and>
    wprecedes (wsituation b s) (wsituation (signalled [Notified Can_pop] b) (do_send docs s))"
proof -
  obtain xs rest where m: "move_back (w_limit s) (w_deque s) docs = (xs, rest)" by fastforce
  have "wprecedes (wsituation b s) (wsituation (signalled [Notified Can_pop] b) (do_send docs s))"
    unfolding wsituation_def
    by (rule wprecedesI [of "\<lambda>es. absorb [] 0 [] @ es"])
      (use assms(1) m in \<open>simp_all add: assms(3) do_send_fields [OF m] after_room_def stands_for_def notify_one_def del: absorb.simps\<close>)
  with assms(1) show ?thesis by (simp add: stands_for_def w_limit_send)
qed

lemma write_precedes:
  assumes "stands_for b s" "writing (ppc s)" "write_step D spur s s'" "writing (ppc s') \<or> write_over s'"
  shows "\<exists>b'. stands_for b' s' \<and> wprecedes (wsituation b s) (wsituation b' s')"
  using assms(3)
proof cases
  case by_writer
  from writer_effect [OF this] other_wprecedes [OF assms(1,2)] show ?thesis by blast
next
  case (spurious_pusher docs)
  then show ?thesis by (intro other_wprecedes [OF assms(1,2), of 0]) (simp_all add: woken_pusher_def)
next
  case spurious_writer
  then show ?thesis by (intro other_wprecedes [OF assms(1,2), of 0]) simp_all
next
  case by_pusher
  then show ?thesis
  proof cases
    case (p_loop docs)
    then have "wprecedes (wsituation b s) (wsituation b s')"
      unfolding wsituation_def by (intro wprecedesI [of id]) simp_all
    with p_loop assms(1) show ?thesis by (auto simp: stands_for_def)
  next
    case (p_room docs)
    have "resume_write b (absorb [] 0 [] @ es) (ppc s) (w_deque s) =
        after_room docs (Inr (), with_queue (w_deque s) es (m_queue b)) b" for es
      using p_room assms(1,2) by (simp add: write_loop_begin lock_skip wait_for_room_def stands_for_def del: absorb.simps)
    from sent_precedes [OF assms(1,2) this] p_room show ?thesis by blast
  next
    case (p_woken docs)
    have "resume_write b (absorb [] 0 [] @ es) (ppc s) (w_deque s) =
        after_room docs (Inr (), with_queue (w_deque s) es (m_queue b)) b" for es
      using p_woken by (simp add: lock_skip del: absorb.simps)
    from sent_precedes [OF assms(1,2) this] p_woken show ?thesis by blast
  next
    case (p_full docs)
    have "wprecedes (wsituation b s) (wsituation (signalled [Notified Can_pop] b) s')"
      unfolding wsituation_def
      by (rule wprecedesI [of "\<lambda>es. absorb [] 0 [] @ es"])
        (use p_full assms(1,2) in \<open>simp_all add: write_loop_begin lock_skip wait_for_room_def stands_for_def
          w_wake_eq notify_one_def del: absorb.simps\<close>)
    moreover have "stands_for (signalled [Notified Can_pop] b) s'"
      using p_full assms(1) by (simp add: stands_for_def w_wake_eq)
    ultimately show ?thesis by blast
  qed (use assms(2) in simp_all)
qed

interpretation request: call_view "write_step D spur" "\<lambda>s. writing (ppc s)" write_over stands_for
    "\<lambda>b es s. wsituated (wsituation b s) es" w_deque
  for D :: "('o, 'db) driver" and spur
proof
  show "\<exists>es. wsituated (wsituation b s) es = Some (w_deque s)" if "write_over s" for b :: "'o broker" and s :: "('o, 'db) wsys"
    by (rule exI [of _ "[]"])
      (use that in \<open>simp add: wsituated_def wsituation_def write_loop.simps\<close>)
  show "\<exists>b'. stands_for b' s' \<and> wprecedes (wsituation b s) (wsituation b' s')"
    if "stands_for b s" "writing (ppc s)" "write_step D spur s s'" "writing (ppc s') \<or> write_over s'"
    for b :: "'o broker" and s s' :: "('o, 'db) wsys"
    by (rule write_precedes [OF that])
qed

text \<open>Until it is closed the broker stays open.\<close>

definition w_open :: "('o, 'db) wsys \<Rightarrow> bool" where
  "w_open s \<longleftrightarrow> ppc s \<noteq> P_closed \<longrightarrow> m_inited (wb s) \<and> m_connected (wb s)"

lemma apply_open: "apply_update D json (b, db) = (r, (b', db')) \<Longrightarrow> m_inited b' = m_inited b \<and> m_connected b' = m_connected b"
  by (auto simp: apply_update_eq split: sum.splits)

lemma w_moves_open:
  "m_inited (wb (do_take s)) = m_inited (wb s)" "m_connected (wb (do_take s)) = m_connected (wb s)"
  "m_inited (wb (do_send docs s)) = m_inited (wb s)" "m_connected (wb (do_send docs s)) = m_connected (wb s)"
  by (simp_all add: do_take_def do_send_def w_wake_eq split: prod.split sum.split)

interpretation w_opens: step_invariant "write_opened db" "write_step D spur" w_open
  for D :: "('o, 'db) driver" and spur db
proof
  show "w_open s" if "write_opened db s" for s :: "('o, 'db) wsys" using that by (simp add: write_opened_def w_open_def)
  show "w_open s'" if "w_open s" "write_step D spur s s'" for s s' :: "('o, 'db) wsys"
    using that(2)
  proof cases
    case by_writer
    have "m_inited (wb s') = m_inited (wb s) \<and> m_connected (wb s') = m_connected (wb s)"
      using by_writer by cases (auto simp: w_moves_open w_wake_eq dest: apply_open)
    moreover have "ppc s' = P_closed \<longleftrightarrow> ppc s = P_closed" using writer_effect [OF by_writer]
      by (auto simp: eq_commute [of P_closed])
    ultimately show ?thesis using that(1) by (simp add: w_open_def)
  next
    case by_pusher
    then show ?thesis
      by cases (use that(1) in \<open>auto simp: w_open_def w_moves_open w_wake_eq set_exit_def\<close>)
  qed (use that(1) in \<open>auto simp: w_open_def\<close>)
qed

section \<open>Schedules inside a call\<close>

fun write_schedule_in ::
  "('o, 'db) driver \<Rightarrow> (('o, 'db) wsys \<Rightarrow> bool) \<Rightarrow> pusher_choice option list \<Rightarrow> ('o, 'db) wsys \<Rightarrow> ('o, 'db) wsys option" where
  "write_schedule_in D P [] s = Some s"
| "write_schedule_in D P (m # ms) s =
     (if P s then (case write_schedule D [m] s of Some t \<Rightarrow> write_schedule_in D P ms t | None \<Rightarrow> None) else None)"

lemma write_schedule_one:
  assumes "write_schedule D [m] s = Some t"
  shows "write_step D spur s t"
proof (cases m)
  case None
  with assms have "writer_next D s = Some t" by (simp del: writer_next.simps split: option.splits)
  then have "writer_step D s t" by (simp only: writer_next_iff)
  then show ?thesis by (rule by_writer)
next
  case (Some c)
  with assms have "pusher_next c s = Some t" by (simp del: pusher_next.simps split: option.splits)
  then have "pusher_step s t" by (auto simp only: pusher_next_iff)
  then show ?thesis by (rule by_pusher)
qed

lemma write_schedule_in_run:
  "write_schedule_in D P ms s = Some s' \<Longrightarrow> (\<lambda>s s'. P s \<and> write_step D spur s s')\<^sup>*\<^sup>* s s'"
proof (induction ms arbitrary: s)
  case (Cons m ms)
  then obtain t where "P s" "write_schedule D [m] s = Some t" "write_schedule_in D P ms t = Some s'"
    by (auto simp del: write_schedule.simps split: if_splits option.splits)
  with Cons.IH [of t] write_schedule_one show ?case by (metis (mono_tags, lifting) converse_rtranclp_into_rtranclp)
qed simp

lemma sample_request_run:
  "\<exists>s t. write_schedule sample_writer_driver [Some (Serve_write [''a'', ''b''])] (sample_wsys 1) = Some s \<and>
     ppc s = P_push [''a'', ''b''] \<and>
     write_schedule_in sample_writer_driver (\<lambda>s. writing (ppc s))
       [Some Continue, Some Continue, Some Continue, Some Continue, None, Some Continue] s = Some t \<and>
     write_over t \<and> w_deque t = [''a'']"
  by (simp add: write_run_simps del: w_update_simps)

section \<open>Properties\<close>

text \<open>
  C12: A write request between the threads is \<open>do_write\<close>. In every run of the writing thread and the io
  thread, when the io thread serves a write request and gets through its loop, whatever the writing
  thread takes meanwhile, there is a schedule in which others only take from the queue, under which
  \<open>do_write\<close> as a single call answers OK and leaves the same queue.
\<close>

theorem write_request_refines:
  assumes "write_runs D spur db s" "ppc s = P_push (map (jsonString D) (objVals D (getObjectField D upd ''docs'')))"
    "(\<lambda>s s'. writing (ppc s) \<and> write_step D spur s s')\<^sup>*\<^sup>* s s'" "write_over s'"
  shows "\<exists>es p'. nothing_added es \<and> do_write D packet upd
      (p\<lparr>m_write_broker := (wb s)\<lparr>m_queue := (m_queue (wb s))\<lparr>m_sched := es\<rparr>\<rparr>\<rparr>) =
      (pack_response D packet OK ''do_write'' None, p') \<and>
    m_deque (m_queue (m_write_broker p')) = w_deque s'"
proof -
  let ?docs = "map (jsonString D) (objVals D (getObjectField D upd ''docs''))"
  let ?b = "\<lambda>es. (wb s)\<lparr>m_queue := (m_queue (wb s))\<lparr>m_sched := es\<rparr>\<rparr>"
  have "w_open s" by (rule w_opens.reachable_holds [OF assms(1)])
  then have "stands_for (wb s) s" using assms(2) by (simp add: stands_for_def w_open_def w_limit_def)
  from request.run_is_call [OF assms(3,4) this] obtain es where es: "nothing_added es"
      "write_end (write_loop ?docs (?b es)) = Some (w_deque s')"
    using assms(2) by (auto simp: wsituated_def wsituation_def with_queue_def w_deque_def split: if_splits)
  obtain r b' where w: "write_loop ?docs (?b es) = (r, b')" by fastforce
  with es(2) have "r = Inr ()" "m_deque (m_queue b') = w_deque s'" by (cases r; simp)+
  with w es(1) show ?thesis
    by (intro exI [of _ es]) (simp add: do_write_def on_write_def Let_def)
qed

theorem write_request_refines_witness:
  "\<exists>(s :: (bson, bson list) wsys) es p'. nothing_added es \<and> do_write sample_writer_driver new_out_packet
       [(''docs'', VObj [(''0'', VObj [(''_id'', VOid ''a'')]), (''1'', VObj [(''_id'', VOid ''b'')])])]
       ((sample_processor 1 (sample_open [] []) (sample_open [] []))
         \<lparr>m_write_broker := (wb s)\<lparr>m_queue := (m_queue (wb s))\<lparr>m_sched := es\<rparr>\<rparr>\<rparr>) =
       (pack_response sample_writer_driver new_out_packet OK ''do_write'' None, p') \<and>
     m_deque (m_queue (m_write_broker p')) = [''a'']"
proof -
  let ?upd = "[(''docs'', VObj [(''0'', VObj [(''_id'', VOid ''a'')]), (''1'', VObj [(''_id'', VOid ''b'')])])]"
  obtain s t where s: "write_schedule sample_writer_driver [Some (Serve_write [''a'', ''b''])] (sample_wsys 1) = Some s"
      "ppc s = P_push [''a'', ''b'']" "write_over t" "w_deque t = [''a'']"
      "write_schedule_in sample_writer_driver (\<lambda>s. writing (ppc s))
        [Some Continue, Some Continue, Some Continue, Some Continue, None, Some Continue] s = Some t"
    using sample_request_run by blast
  have "ppc s = P_push (map (jsonString sample_writer_driver) (objVals sample_writer_driver
      (getObjectField sample_writer_driver ?upd ''docs'')))"
    using s(2) by (simp add: sample_writer_driver_def sample_driver_simps sample_vals_def sample_obj_def sample_oid_def)
  from write_request_refines [OF sample_write_runs [OF s(1)] this write_schedule_in_run [OF s(5)] s(3),
      where packet = new_out_packet and p = "sample_processor 1 (sample_open [] []) (sample_open [] [])"]
  show ?thesis unfolding s(4) by (intro exI [of _ s])
qed

end
