(* ===== verification/Update_Views.thy ===== *)
theory Update_Views
  imports Writer_Views
begin

text \<open>
  The run of the interleaved writing thread is \<open>broker::update\<close> in one piece under some schedule of
  interference.
\<close>

section \<open>The rest of \<open>update\<close>\<close>

text \<open>
  What is seen of it: how it ends, the database, and what is left in the queue if it returns. A schedule comes with
  a number of rounds. The call has the exit flag set from the start: as long as the flag is not set in
  the system, a wait that times out is a longer wait.
\<close>

type_synonym 'db update_view = "((fault + unit) \<times> 'db \<times> string list) option"

definition update_end :: "('o broker \<times> 'db, unit) outcome option \<Rightarrow> 'db update_view" where
  "update_end = map_option (\<lambda>(r, (b, db)). (r, db, case r of Inl e \<Rightarrow> [] | Inr _ \<Rightarrow> m_deque (m_queue b)))"

definition after_apply :: "nat \<Rightarrow> ('o, 'db) driver \<Rightarrow> ('o broker \<times> 'db, unit) outcome \<Rightarrow> 'db update_view" where
  "after_apply n D r = update_end (case r of (Inl e, s) \<Rightarrow> Some (Inl e, s) | (Inr _, s) \<Rightarrow> update n D s)"

definition after_take :: "nat \<Rightarrow> ('o, 'db) driver \<Rightarrow> (string sized_queue, string) outcome \<Rightarrow> 'o broker \<Rightarrow> 'db \<Rightarrow> 'db update_view" where
  "after_take n D r b db = (case r of
     (Inr json, q) \<Rightarrow> after_apply n D (apply_update D json (b\<lparr>m_queue := q\<rparr>, db))
   | (Inl (Broker_exception m), q) \<Rightarrow> Some (Inr (), db, m_deque q)
   | (Inl e, q) \<Rightarrow> Some (Inl e, db, []))"

lemma after_take_queue: "after_take n D r (b\<lparr>m_queue := q\<rparr>) db = after_take n D r b db"
  by (simp add: after_take_def split: prod.split sum.split fault.split)

lemma update_begin:
  assumes "m_do_exit b"
  shows "update_end (update (Suc n) D (b, db)) = after_take n D (pop 3 (m_queue b)) b db"
  using assms
  by (auto simp: update_round_def on_queue_def after_take_def after_apply_def update_end_def andthen_def Let_def
      split: prod.splits sum.splits fault.splits)

fun resume_update :: "('o, 'db) driver \<Rightarrow> 'o broker \<Rightarrow> nat \<times> string interference list \<Rightarrow> bool \<Rightarrow> writer_pc \<Rightarrow> 'db \<Rightarrow>
    string list \<Rightarrow> 'db update_view" where
  "resume_update D b (n, es) x U_pop db d = after_take n D (pop 3 (with_queue d es (m_queue b))) b db"
| "resume_update D b (n, es) x U_wait db d = after_take n D
     (andthen (wait_cond Can_pop 3 ''no more items'' (with_queue d es (m_queue b))) (\<lambda>_. take_front)) b db"
| "resume_update D b (n, es) x U_woken db d = after_take n D (take_front (lock (with_queue d es (m_queue b)))) b db"
| "resume_update D b (n, es) x (U_apply json) db d =
     after_apply n D (apply_update D json (b\<lparr>m_queue := with_queue d es (m_queue b)\<rparr>, db))"
| "resume_update D b (n, es) x U_timeout db d =
     (if x then Some (Inr (), db, d) else after_take n D
       (andthen (wait_cond Can_pop 3 ''no more items'' (with_queue d es (m_queue b))) (\<lambda>_. take_front)) b db)"
| "resume_update D b (n, es) x U_done db d = Some (Inr (), db, d)"
| "resume_update D b (n, es) x (U_crashed json e) db d = Some (Inl e, db, [])"
| "resume_update D b (n, es) x U_undefined db d = None"

text \<open>Signals do not matter to \<open>update\<close>.\<close>

lemma pop_signals: "\<exists>y. pop t (q\<lparr>m_signals := x\<rparr>) = (fst (pop t q), (snd (pop t q))\<lparr>m_signals := y\<rparr>)"
proof -
  have l: "lock (q\<lparr>m_signals := x\<rparr>) = (lock q)\<lparr>m_signals := x\<rparr>" by (simp add: lock_def split: list.split)
  show ?thesis
    by (rule exI [of _ "m_signals (snd (pop t (q\<lparr>m_signals := x\<rparr>)))"])
      (auto simp: pop_def l notify_one_def wait_cond_def take_front_def andthen_def Let_def split: list.split prod.split sum.split)
qed

lemma after_take_cong:
  assumes "\<And>b x db. m_do_exit b \<Longrightarrow> update_end (update n D (b\<lparr>m_queue := q\<lparr>m_signals := x\<rparr>\<rparr>, db)) =
      update_end (update n D (b\<lparr>m_queue := q\<rparr>, db))"
    and "m_do_exit b"
  shows "after_take n D (r, q\<lparr>m_signals := x\<rparr>) b db = after_take n D (r, q) b db"
proof -
  have c: "b\<lparr>m_queue := q, m_update_count := k\<rparr> = b\<lparr>m_update_count := k, m_queue := q\<rparr>" for q k by simp
  have "m_do_exit (b\<lparr>m_update_count := k\<rparr>)" for k using assms(2) by simp
  from assms(1) [OF this] show ?thesis
    by (auto simp: after_take_def after_apply_def apply_update_eq c update_end_def split: sum.split fault.split)
qed

lemma update_signals:
  "m_do_exit b \<Longrightarrow> update_end (update n D (b\<lparr>m_queue := q\<lparr>m_signals := x\<rparr>\<rparr>, db)) = update_end (update n D (b\<lparr>m_queue := q\<rparr>, db))"
proof (induction n arbitrary: b q x db)
  case (Suc n)
  obtain y where "pop 3 (q\<lparr>m_signals := x\<rparr>) = (fst (pop 3 q), (snd (pop 3 q))\<lparr>m_signals := y\<rparr>)"
    using pop_signals by blast
  with after_take_cong [where q = "snd (pop 3 q)" and x = y and r = "fst (pop 3 q)", OF Suc.IH Suc.prems] show ?case
    using update_begin [of "b\<lparr>m_queue := q\<lparr>m_signals := x\<rparr>\<rparr>" n D db] update_begin [of "b\<lparr>m_queue := q\<rparr>" n D db] Suc.prems
    by (simp del: update.simps add: after_take_queue)
qed (simp add: update_end_def)

lemma after_take_signals:
  assumes "m_do_exit b"
  shows "after_take n D (r, q\<lparr>m_signals := x\<rparr>) b db = after_take n D (r, q) b db"
  by (rule after_take_cong [OF update_signals assms])

lemma after_take_same:
  assumes "m_do_exit b" "fst r = fst r'" "(snd r)\<lparr>m_signals := []\<rparr> = (snd r')\<lparr>m_signals := []\<rparr>"
  shows "after_take n D r b db = after_take n D r' b db"
  using after_take_signals [OF assms(1), where r = "fst r" and q = "snd r" and x = "[]"]
    after_take_signals [OF assms(1), where r = "fst r'" and q = "snd r'" and x = "[]"] assms(2,3)
  by (metis prod.collapse)

lemma fault_signals [simp]:
  "after_take n D (Inl e, with_queue d es (q\<lparr>m_signals := x\<rparr>)) b db = after_take n D (Inl e, with_queue d es q) b db"
  by (simp add: after_take_def split: fault.split)

lemma front_signals [simp]:
  assumes "m_do_exit b"
  shows "after_take n D (take_front (with_queue d es (q\<lparr>m_signals := x\<rparr>))) b db =
      after_take n D (take_front (with_queue d es q)) b db"
    "after_take n D (take_front (lock (with_queue d es (q\<lparr>m_signals := x\<rparr>)))) b db =
      after_take n D (take_front (lock (with_queue d es q))) b db"
proof -
  have f: "after_take n D (take_front (with_queue d es (q\<lparr>m_signals := x\<rparr>))) b db =
      after_take n D (take_front (with_queue d es q)) b db" for d es
    by (rule after_take_same [OF assms]) (simp_all add: take_front_def with_queue_def notify_one_def split: list.split)
  then show "after_take n D (take_front (with_queue d es (q\<lparr>m_signals := x\<rparr>))) b db =
      after_take n D (take_front (with_queue d es q)) b db" .
  show "after_take n D (take_front (lock (with_queue d es (q\<lparr>m_signals := x\<rparr>)))) b db =
      after_take n D (take_front (lock (with_queue d es q))) b db"
    using f by (cases es) (simp_all add: lock_def)
qed

lemma wait_signals [simp]:
  assumes "m_do_exit b"
  shows "after_take n D (andthen (wait_cond c t m (with_queue d es (q\<lparr>m_signals := x\<rparr>))) (\<lambda>_. take_front)) b db =
    after_take n D (andthen (wait_cond c t m (with_queue d es q)) (\<lambda>_. take_front)) b db"
  by (cases es) (simp_all add: wait_cond_def Let_def assms)

section \<open>The rest of \<open>update\<close> from each place\<close>

type_synonym ('o, 'db) update_situation = "'o broker \<times> bool \<times> writer_pc \<times> 'db \<times> string list"

definition usituated :: "('o, 'db) driver \<Rightarrow> ('o, 'db) update_situation \<Rightarrow> nat \<times> string interference list \<Rightarrow> 'db update_view" where
  "usituated D x e = (case x of (b, ex, pc, db, d) \<Rightarrow>
     if nothing_taken (snd e) then resume_update D b e ex pc db d else None)"

abbreviation uprecedes :: "('o, 'db) driver \<Rightarrow> ('o, 'db) update_situation \<Rightarrow> ('o, 'db) update_situation \<Rightarrow> bool" where
  "uprecedes D x x' \<equiv> covers (usituated D x) (usituated D x')"

lemma uprecedesI:
  assumes "\<And>es. nothing_taken es \<Longrightarrow> nothing_taken (f es)"
    "\<And>n es r. resume_update D b' (n, es) ex' pc' db' d' = Some r \<Longrightarrow> resume_update D b (g n, f es) ex pc db d = Some r"
  shows "uprecedes D (b, ex, pc, db, d) (b', ex', pc', db', d')"
  by (rule coversI [of _ _ "map_prod g f"]) (use assms in \<open>auto simp: usituated_def split: if_splits\<close>)

fun updating :: "writer_pc \<Rightarrow> bool" where
  "updating U_done = False"
| "updating (U_crashed json e) = False"
| "updating U_undefined = False"
| "updating _ = True"

lemma after_apply_eq:
  "after_apply n D (apply_update D json (b\<lparr>m_queue := q\<rparr>, db)) =
    (case apply_request D (m_docset b) json db of
       Inl e \<Rightarrow> Some (Inl e, db, [])
     | Inr db' \<Rightarrow> update_end (update n D (b\<lparr>m_update_count := m_update_count b + 1, m_queue := q\<rparr>, db')))"
proof -
  have c: "b\<lparr>m_queue := q, m_update_count := k\<rparr> = b\<lparr>m_update_count := k, m_queue := q\<rparr>" for k by simp
  show ?thesis by (simp add: after_apply_def apply_update_eq update_end_def c split: sum.split)
qed

lemma update_lock:
  assumes "m_do_exit b" "lock q = lock q'"
  shows "update_end (update n D (b\<lparr>m_queue := q\<rparr>, db)) = update_end (update n D (b\<lparr>m_queue := q'\<rparr>, db))"
proof (cases n)
  case (Suc k)
  have "pop 3 q = pop 3 q'" using assms(2) by (simp add: pop_def)
  with assms(1) show ?thesis
    using update_begin [of "b\<lparr>m_queue := q\<rparr>" k D db] update_begin [of "b\<lparr>m_queue := q'\<rparr>" k D db]
    unfolding Suc by (simp del: update.simps add: after_take_queue)
qed (simp add: update_end_def)

subsection \<open>Steps of the io thread\<close>

lemma wait_added:
  assumes "after_take n D (andthen (wait_cond Can_pop 3 m (with_queue (d @ ys) es q)) (\<lambda>_. take_front)) b db = Some r"
  shows "after_take n D (andthen (wait_cond Can_pop 3 m
      (with_queue d (if es = [] then as_woken False (absorb ys 0 es) else absorb ys 0 es) q)) (\<lambda>_. take_front)) b db = Some r"
  using assms wait_absorb [of 0 d es Can_pop _ _ ys q]
  by (cases es) (auto simp: wait_cond_def as_woken_def interfere_def Let_def)

lemma pusher_added:
  assumes "updating pc" "m_do_exit b" "ex \<longrightarrow> ys = []"
  shows "uprecedes D (b, ex, pc, db, d) (b, ex, pc, db, d @ ys)"
proof (cases "ys = []")
  case False
  have l: "lock (with_queue d (absorb ys 0 es) q) = lock (with_queue (d @ ys) es q)" for es and q :: "string sized_queue"
    using lock_absorb [of 0 d ys es q] by simp
  have nt: "nothing_taken es \<Longrightarrow> nothing_taken (if es = [] then as_woken False (absorb ys 0 es) else absorb ys 0 es)" for es :: "string interference list"
    by (simp del: absorb.simps)
  show ?thesis
  proof (cases pc)
    case U_wait
    show ?thesis
      by (rule uprecedesI [OF nt, where g = id]) (simp_all only: U_wait resume_update.simps id_apply, erule wait_added)
  next
    case U_timeout
    have "\<not> ex" using assms(3) False by simp
    then show ?thesis
      by (intro uprecedesI [OF nt, where g = id]) (simp_all only: U_timeout resume_update.simps if_False id_apply, erule wait_added)
  next
    case (U_apply json)
    show ?thesis
    proof (rule uprecedesI [of "absorb ys 0" D b ex pc db "d @ ys" b id ex pc db d])
      fix n es r
      assume "resume_update D b (n, es) ex pc db (d @ ys) = Some r"
      with U_apply assms(2) show "resume_update D b (id n, absorb ys 0 es) ex pc db d = Some r"
        by (simp add: after_apply_eq update_lock [OF _ l] split: sum.splits)
    qed simp
  qed (rule uprecedesI [of "absorb ys 0", where g = id], simp, use assms(1) l in \<open>simp add: pop_def\<close>)+
qed (simp add: covers_refl)

lemma pusher_woke:
  assumes "m_do_exit b"
  shows "uprecedes D (b, ex, pc, db, d) (b, ex, woken_writer pc, db, d)"
proof (cases pc)
  case U_wait
  show ?thesis
    by (rule uprecedesI [of "as_woken True", where g = id])
      (use assms in \<open>simp_all add: U_wait woken_writer_def wait_woken\<close>)
qed (simp_all add: woken_writer_def covers_refl)

lemma exit_set: "uprecedes D (b, False, pc, db, d) (b, ex, pc, db, d)"
proof (cases "ex \<and> pc = U_timeout")
  case True
  show ?thesis
    by (rule uprecedesI [of "\<lambda>es. as_woken False [] @ es", where g = id])
      (use True in \<open>simp_all add: wait_deadline after_take_def\<close>)
next
  case False
  then have "resume_update D b e False pc db d = resume_update D b e ex pc db d" for e
    by (cases e; cases pc) auto
  then show ?thesis by (auto simp: covers_def usituated_def)
qed

definition updates_for :: "'o broker \<Rightarrow> ('o, 'db) wsys \<Rightarrow> bool" where
  "updates_for b s \<longleftrightarrow> m_do_exit b \<and> m_docset b = m_docset (wb s) \<and>
     (m_do_exit (wb s) \<longrightarrow> ppc s \<in> {P_join, P_closed})"

definition usituation :: "'o broker \<Rightarrow> ('o, 'db) wsys \<Rightarrow> ('o, 'db) update_situation" where
  "usituation b s = (b, m_do_exit (wb s), upc s, wdb s, w_deque s)"

abbreviation update_over :: "('o, 'db) wsys \<Rightarrow> bool" where
  "update_over s \<equiv> upc s = U_done \<or> (\<exists>json e. upc s = U_crashed json e)"

text \<open>How the writing thread has ended.\<close>

definition update_result :: "('o, 'db) wsys \<Rightarrow> (fault + unit) \<times> 'db \<times> string list" where
  "update_result s = (case upc s of U_crashed json e \<Rightarrow> (Inl e, wdb s, []) | _ \<Rightarrow> (Inr (), wdb s, w_deque s))"

lemma other_uprecedes:
  assumes "updates_for b s" "updating (upc s)" "w_deque s' = w_deque s @ ys" "m_do_exit (wb s) \<longrightarrow> ys = []"
    "wdb s' = wdb s" "m_docset (wb s') = m_docset (wb s)" "upc s' \<in> {upc s, woken_writer (upc s)}"
    "m_do_exit (wb s) \<longrightarrow> m_do_exit (wb s')" "m_do_exit (wb s') \<longrightarrow> ppc s' \<in> {P_join, P_closed}"
  shows "updates_for b s' \<and> uprecedes D (usituation b s) (usituation b s')"
proof -
  have b: "m_do_exit b" using assms(1) by (simp add: updates_for_def)
  have "uprecedes D (usituation b s) (b, m_do_exit (wb s), upc s, wdb s, w_deque s')"
    unfolding usituation_def assms(3) by (rule pusher_added [OF assms(2) b assms(4)])
  moreover have "uprecedes D (b, m_do_exit (wb s), upc s, wdb s, w_deque s') (b, m_do_exit (wb s'), upc s, wdb s, w_deque s')"
    using assms(8) by (cases "m_do_exit (wb s)") (simp_all add: covers_refl exit_set)
  moreover have "uprecedes D (b, m_do_exit (wb s'), upc s, wdb s, w_deque s') (usituation b s')"
    using assms(7) pusher_woke [OF b] by (auto simp: usituation_def assms(5) covers_refl)
  ultimately have "uprecedes D (usituation b s) (usituation b s')" by (blast intro: covers_trans)
  moreover have "updates_for b s'" using assms(1,6,9) by (simp add: updates_for_def)
  ultimately show ?thesis by (rule conjI [rotated])
qed

lemma pusher_uprecedes:
  assumes "updates_for b s" "updating (upc s)" "pusher_step s s'"
  shows "updates_for b s' \<and> uprecedes D (usituation b s) (usituation b s')"
proof -
  have p: "m_do_exit (wb s) \<longrightarrow> ppc s \<in> {P_join, P_closed}" using assms(1) by (simp add: updates_for_def)
  have send: "updates_for b (do_send docs s) \<and> uprecedes D (usituation b s) (usituation b (do_send docs s))"
    if "ppc s \<notin> {P_join, P_closed}" for docs
  proof -
    obtain xs rest where m: "move_back (w_limit s) (w_deque s) docs = (xs, rest)" by fastforce
    then obtain ys where "xs = w_deque s @ ys" by (auto simp: move_back_eq Let_def)
    with that p show ?thesis by (intro other_uprecedes [OF assms(1,2), of _ ys]) (simp_all add: do_send_fields [OF m])
  qed
  have own: "updates_for b t \<and> uprecedes D (usituation b s) (usituation b t)"
    if "wb t = wb s" "wdb t = wdb s" "upc t \<in> {upc s, woken_writer (upc s)}" "\<not> m_do_exit (wb s)" for t
    using that by (intro other_uprecedes [OF assms(1,2), of _ "[]"]) (simp_all add: w_deque_def)
  from assms(3) show ?thesis
  proof cases
    case p_join
    with assms(2) show ?thesis by simp
  next
    case p_exit
    then show ?thesis by (intro other_uprecedes [OF assms(1,2), of _ "[]"]) simp_all
  qed (use send own p in \<open>simp_all add: w_wake_eq\<close>)
qed

subsection \<open>Steps of the writing thread\<close>

lemma update_queue_signals:
  "m_do_exit b \<Longrightarrow> update_end (update n D (b\<lparr>m_queue := with_queue d es (q\<lparr>m_signals := x\<rparr>)\<rparr>, db)) =
    update_end (update n D (b\<lparr>m_queue := with_queue d es q\<rparr>, db))"
  using update_signals [where q = "with_queue d es q" and x = x] by simp

text \<open>A wait that timed out and began again is one longer wait.\<close>

lemma again_uprecedes:
  assumes "m_do_exit b"
  shows "uprecedes D (b, False, U_timeout, db, d) (b, False, U_pop, db, d)"
  unfolding covers_def
proof (intro allI impI)
  fix e r assume r: "usituated D (b, False, U_pop, db, d) e = Some r"
  obtain n es where e: "e = (n, es)" by (cases e)
  with r have nt: "nothing_taken es" and p: "after_take n D (pop 3 (with_queue d es (m_queue b))) b db = Some r"
    by (auto simp: usituated_def split: if_splits)
  let ?l = "lock (with_queue d es (m_queue b))"
  have "\<exists>es'. nothing_taken es' \<and> after_take n D
      (andthen (wait_cond Can_pop 3 ''no more items'' (with_queue d es' (m_queue b))) (\<lambda>_. take_front)) b db = Some r"
  proof (cases "m_deque ?l = []")
    case True
    have l: "?l = with_queue [] (tl es) (m_queue b)" "d = []"
      using True nt by (cases es; auto simp: lock_def interfere_def nothing_taken_def)+
    have "nothing_taken (tl es)" using nt by (cases es) (auto simp: nothing_taken_def)
    with p l assms show ?thesis by (intro exI [of _ "tl es"]) (simp add: pop_def notify_one_def)
  next
    case False
    with p have "after_take n D (take_front ?l) b db = Some r" by (simp add: pop_def)
    with nt assms show ?thesis by (intro exI [of _ "as_woken True es"]) (simp add: wait_woken)
  qed
  then obtain es' where "nothing_taken es'" "after_take n D
      (andthen (wait_cond Can_pop 3 ''no more items'' (with_queue d es' (m_queue b))) (\<lambda>_. take_front)) b db = Some r"
    by blast
  then show "\<exists>e. usituated D (b, False, U_timeout, db, d) e = Some r"
    by (intro exI [of _ "(n, es')"]) (simp add: usituated_def)
qed

lemma taken_uprecedes:
  assumes "updates_for b s" "w_deque s = x # xs"
    "\<And>n es. resume_update D b (n, absorb [] 0 [] @ es) ex (upc s) db (x # xs) =
      after_take n D (take_front (with_queue (x # xs) es (m_queue b))) b db"
  shows "updates_for b (do_take s) \<and> uprecedes D (b, ex, upc s, db, w_deque s) (b, ex, U_apply x, db, xs)"
proof -
  have b: "m_do_exit b" using assms(1) by (simp add: updates_for_def)
  have c: "(m_queue b)\<lparr>m_signals := m_signals (m_queue b) @ [Notified Can_push]\<rparr> = notify_one Can_push (m_queue b)"
    by (simp add: notify_one_def)
  have "after_take n D (take_front (with_queue (x # xs) es (m_queue b))) b db =
      after_apply n D (apply_update D x (b\<lparr>m_queue := with_queue xs es (m_queue b)\<rparr>, db))" for n es
    by (simp add: take_front_def after_take_def after_apply_eq notify_one_def b update_queue_signals split: sum.split)
  then have "uprecedes D (b, ex, upc s, db, w_deque s) (b, ex, U_apply x, db, xs)"
    by (intro uprecedesI [of "\<lambda>es. absorb [] 0 [] @ es", where g = id])
      (simp_all add: assms(2,3) del: absorb.simps)
  with assms(1,2) show ?thesis
    by (simp add: updates_for_def do_take_fields)
qed

lemma applied_uprecedes:
  assumes "updates_for b s" "upc s = U_apply json" "apply_update D json (wb s, wdb s) = (Inr (), (b1, db))"
  defines "s' \<equiv> s\<lparr>wb := b1, wdb := db, upc := U_pop\<rparr>"
  shows "\<exists>b'. updates_for b' s' \<and> uprecedes D (usituation b s) (usituation b' s')"
proof -
  have b: "m_do_exit b" "m_docset (wb s) = m_docset b" using assms(1) by (simp_all add: updates_for_def)
  let ?b = "b\<lparr>m_update_count := m_update_count b + 1\<rparr>"
  have a: "apply_request D (m_docset b) json (wdb s) = Inr db"
    using assms(3) b(2) by (auto simp: apply_update_eq split: sum.splits)
  have "uprecedes D (usituation b s) (usituation ?b s')"
    unfolding usituation_def
  proof (rule uprecedesI [of id, where g = Suc])
    fix n es r
    let ?c = "?b\<lparr>m_queue := with_queue (w_deque s) es (m_queue b)\<rparr>"
    show "resume_update D ?b (n, es) (m_do_exit (wb s')) (upc s') (wdb s') (w_deque s') = Some r \<Longrightarrow>
        resume_update D b (Suc n, id es) (m_do_exit (wb s)) (upc s) (wdb s) (w_deque s) = Some r"
      using assms(2) s'_def a b(1) update_begin [of ?c n D db] apply_update_frame [OF assms(3)]
      by (simp add: after_apply_eq after_take_queue del: update.simps)
  qed simp
  moreover have "updates_for ?b s'"
    using assms(2) s'_def apply_update_frame [OF assms(3)] assms(1) by (auto simp: updates_for_def)
  ultimately show ?thesis by blast
qed

lemma failed_uprecedes:
  assumes "updates_for b s" "upc s = U_apply json" "apply_update D json (wb s, wdb s) = (Inl e, (b1, db))"
  defines "s' \<equiv> s\<lparr>wb := b1, wdb := db, upc := U_crashed json e\<rparr>"
  shows "\<exists>b'. updates_for b' s' \<and> uprecedes D (usituation b s) (usituation b' s')"
proof -
  have b: "m_do_exit b" "m_docset (wb s) = m_docset b" using assms(1) by (simp_all add: updates_for_def)
  have a: "apply_request D (m_docset b) json (wdb s) = Inl e" "db = wdb s"
    using assms(3) b(2) by (auto simp: apply_update_eq split: sum.splits)
  have "uprecedes D (usituation b s) (usituation b s')"
    unfolding usituation_def
    by (rule uprecedesI [of id, where g = id]) (use assms(2,3) s'_def a in \<open>simp_all add: after_apply_eq\<close>)
  moreover have "updates_for b s'"
    using assms(2) s'_def apply_update_frame [OF assms(3)] assms(1) by (auto simp: updates_for_def)
  ultimately show ?thesis by blast
qed

lemma writer_uprecedes:
  assumes "updates_for b s" "updating (upc s)" "writer_step D s s'" "updating (upc s') \<or> update_over s'"
  shows "\<exists>b'. updates_for b' s' \<and> uprecedes D (usituation b s) (usituation b' s')"
proof -
  have b: "m_do_exit b" "m_docset (wb s) = m_docset b" using assms(1) by (simp_all add: updates_for_def)
  have take: ?thesis if s': "s' = do_take s" "w_deque s \<noteq> []" and r: "\<And>n es x xs. w_deque s = x # xs \<Longrightarrow>
      resume_update D b (n, absorb [] 0 [] @ es) (m_do_exit (wb s)) (upc s) (wdb s) (x # xs) =
      after_take n D (take_front (with_queue (x # xs) es (m_queue b))) b (wdb s)"
  proof -
    obtain x xs where d: "w_deque s = x # xs" using s'(2) by (cases "w_deque s") auto
    from taken_uprecedes [OF assms(1) d r [OF d]] s'(1) d show ?thesis
      by (auto simp: usituation_def do_take_fields)
  qed
  have keep: "updates_for b t" if "wb t = wb s" "ppc t \<in> {ppc s, woken_pusher (ppc s)}" for t
    using that assms(1) by (auto simp: updates_for_def)
  from assms(3) show ?thesis
  proof cases
    case u_take
    then show ?thesis by (intro take) (simp_all add: pop_def lock_skip del: absorb.simps)
  next
    case u_woken
    moreover have "w_deque s \<noteq> []" using u_woken assms(4) by auto
    ultimately show ?thesis by (intro take) (simp_all add: lock_skip del: absorb.simps)
  next
    case u_empty
    have "uprecedes D (usituation b s) (usituation b s')"
      unfolding usituation_def
      by (rule uprecedesI [of "\<lambda>es. absorb [] 0 [] @ es", where g = id])
        (use u_empty b in \<open>simp_all add: pop_def lock_skip w_wake_eq notify_one_def del: absorb.simps\<close>)
    moreover have "updates_for b s'" by (rule keep) (use u_empty in \<open>simp_all add: w_wake_eq\<close>)
    ultimately show ?thesis by blast
  next
    case u_deadline
    have "uprecedes D (usituation b s) (usituation b s')"
      unfolding usituation_def
      by (rule uprecedesI [of "\<lambda>es. if m_do_exit (wb s) then as_woken False [] @ es else es", where g = id])
        (use u_deadline in \<open>auto simp: wait_deadline after_take_def\<close>)
    moreover have "updates_for b s'" by (rule keep) (use u_deadline in simp_all)
    ultimately show ?thesis by blast
  next
    case u_exit
    have "uprecedes D (usituation b s) (usituation b s')"
      unfolding usituation_def by (rule uprecedesI [of id, where g = id]) (use u_exit in simp_all)
    moreover have "updates_for b s'" by (rule keep) (use u_exit in simp_all)
    ultimately show ?thesis by blast
  next
    case u_again
    have "uprecedes D (usituation b s) (usituation b s')"
      using again_uprecedes [OF b(1)] u_again by (simp add: usituation_def)
    moreover have "updates_for b s'" by (rule keep) (use u_again in simp_all)
    ultimately show ?thesis by blast
  next
    case (u_apply json b1 db)
    then show ?thesis using applied_uprecedes [OF assms(1) u_apply(2,3)] by simp
  next
    case (u_fail json e b1 db)
    then show ?thesis using failed_uprecedes [OF assms(1) u_fail(2,3)] by simp
  qed
qed

lemma update_precedes:
  assumes "updates_for b s" "updating (upc s)" "write_step D spur s s'" "updating (upc s') \<or> update_over s'"
  shows "\<exists>b'. updates_for b' s' \<and> uprecedes D (usituation b s) (usituation b' s')"
  using assms(3)
proof cases
  case by_writer
  then show ?thesis by (rule writer_uprecedes [OF assms(1,2) _ assms(4)])
next
  case by_pusher
  then show ?thesis using pusher_uprecedes [OF assms(1,2)] by blast
next
  case spurious_writer
  have "updates_for b s' \<and> uprecedes D (usituation b s) (usituation b s')"
    by (rule other_uprecedes [OF assms(1,2), of _ "[]"])
      (use spurious_writer assms(1) in \<open>simp_all add: updates_for_def woken_writer_def\<close>)
  then show ?thesis by blast
next
  case (spurious_pusher docs)
  have "updates_for b s' \<and> uprecedes D (usituation b s) (usituation b s')"
    by (rule other_uprecedes [OF assms(1,2), of _ "[]"])
      (use spurious_pusher assms(1) in \<open>auto simp: updates_for_def\<close>)
  then show ?thesis by blast
qed

interpretation updating: call_view "write_step D spur" "\<lambda>s. updating (upc s)" update_over updates_for
    "\<lambda>b e s. usituated D (usituation b s) e" update_result
  for D :: "('o, 'db) driver" and spur
proof
  show "\<exists>e. usituated D (usituation b s) e = Some (update_result s)" if "update_over s"
    for b :: "'o broker" and s :: "('o, 'db) wsys"
    by (rule exI [of _ "(0, [])"]) (use that in \<open>auto simp: usituated_def usituation_def update_result_def\<close>)
  show "\<exists>b'. updates_for b' s' \<and> uprecedes D (usituation b s) (usituation b' s')"
    if "updates_for b s" "updating (upc s)" "write_step D spur s s'" "updating (upc s') \<or> update_over s'"
    for b :: "'o broker" and s s' :: "('o, 'db) wsys"
    by (rule update_precedes [OF that])
qed


section \<open>Properties\<close>



end
