(* ===== verification/Connection.thy ===== *)
theory Connection
  imports Processor_Facts Step_System
begin

text \<open>
  Connections and the server (\<^verbatim>\<open>src/src/asio_handler.hpp\<close>, \<^verbatim>\<open>src/src/asio_handler.cc\<close>,
  \<^verbatim>\<open>src/src/zbroker_asio.cc\<close>). One thread runs all handlers, so the server is a state machine
  over the completions of asynchronous operations: accepted connections, headers and bodies
  that were read, responses that were written, and their errors. A fault leaves
  \<open>io_service::run\<close> and ends the server.
\<close>

section \<open>State\<close>

text \<open>What a connection waits for.\<close>

datatype waiting = For_header | For_body | For_nothing

text \<open>
  A \<open>processor*\<close> is \<open>NULL\<close> or the processor registered under an id. Of the socket the model has
  whether the code closed it, the read that is pending with whether it can still succeed (one
  that was asked of a closed socket only fails), and the number of writes that are pending.
  Two fields record what happened: \<open>sent\<close> the buffers handed to \<open>async_write\<close>, \<open>overwritten\<close>
  whether \<open>m_send_buffer\<close> was assigned while a pending write still pointed to its characters.
  Connections are numbered by the environment; \<open>accepting\<close> is the one whose \<open>async_accept\<close> is
  pending.
\<close>

record connection =
  m_socket_open :: bool
  m_in :: in_packet
  m_processor :: "string option"
  m_processor_opened :: bool
  m_send_buffer :: string
  m_connection_id :: size_t
  m_connection_id_string :: string
  awaits :: waiting
  read_alive :: bool
  writes_pending :: nat
  sent :: "string list"
  overwritten :: bool

record 'o server =
  m_processors :: "string \<Rightarrow> 'o processor option"
  m_processor_count :: size_t
  m_connection_count :: size_t
  connections :: "nat \<Rightarrow> connection option"
  accepting :: "nat option"

text \<open>
  A connection shows its number in the log. The handler's \<open>m_connection_count\<close> has no
  initial value in the code, so it is an argument here.
\<close>

definition new_connection :: "(nat \<Rightarrow> char) \<Rightarrow> size_t \<Rightarrow> connection" where
  "new_connection j i = \<lparr>m_socket_open = True, m_in = new_in_packet j, m_processor = None, m_processor_opened = False,
     m_send_buffer = [], m_connection_id = i,
     m_connection_id_string = ''[conn#'' @ show_nat (unat i) @ '']'', awaits = For_nothing,
     read_alive = False, writes_pending = 0, sent = [], overwritten = False\<rparr>"

definition new_server :: "size_t \<Rightarrow> 'o server" where
  "new_server n = \<lparr>m_processors = (\<lambda>_. None), m_processor_count = 0, m_connection_count = n,
     connections = (\<lambda>_. None), accepting = None\<rparr>"

section \<open>The processors\<close>

definition find_processor :: "('o, 'db) driver \<Rightarrow> string \<Rightarrow> 'o server \<Rightarrow> ('o server, string) outcome" where
  "find_processor D processor_id s =
     (case m_processors s processor_id of
        Some p \<Rightarrow> (Inr processor_id, s)
      | None \<Rightarrow>
          (let s1 = s\<lparr>m_processor_count := m_processor_count s + 1\<rparr>
           in case new_processor D processor_id of
                Inl e \<Rightarrow> (Inl e, s1)
              | Inr p \<Rightarrow> (Inr (m_processor_id p), s1\<lparr>m_processors := (m_processors s)(m_processor_id p \<mapsto> p)\<rparr>)))"

text \<open>A call on the processor a connection points to.\<close>

definition on_processor ::
  "string \<Rightarrow> ('o processor \<Rightarrow> ('o processor, 'a) outcome) \<Rightarrow> 'o server \<Rightarrow> ('o server, 'a) outcome" where
  "on_processor i f s =
     (case m_processors s i of
        None \<Rightarrow> (Inl Undefined, s)
      | Some p \<Rightarrow> (let (r, p') = f p in (r, s\<lparr>m_processors := (m_processors s)(i \<mapsto> p')\<rparr>)))"

section \<open>Asynchronous operations\<close>

text \<open>
  \<open>asio::async_read\<close> of a header or a body, and \<open>asio::async_write\<close> of the characters of
  \<open>m_send_buffer\<close> after the response was assigned to it. Both return at once; the handlers run
  when the operations complete.
\<close>

definition async_read :: "waiting \<Rightarrow> connection \<Rightarrow> connection" where
  "async_read w c = c\<lparr>awaits := w, read_alive := m_socket_open c\<rparr>"

definition async_write :: "string \<Rightarrow> connection \<Rightarrow> connection" where
  "async_write out c = c\<lparr>m_send_buffer := out, overwritten := overwritten c \<or> writes_pending c \<noteq> 0,
     sent := sent c @ [out], writes_pending := writes_pending c + 1\<rparr>"

lemma async_fields [simp]:
  "m_in (async_read w c) = m_in c" "m_processor (async_read w c) = m_processor c"
  "m_processor_opened (async_read w c) = m_processor_opened c" "awaits (async_read w c) = w"
  "read_alive (async_read w c) = m_socket_open c" "m_socket_open (async_read w c) = m_socket_open c"
  "sent (async_read w c) = sent c" "writes_pending (async_read w c) = writes_pending c"
  "overwritten (async_read w c) = overwritten c"
  "m_in (async_write out c) = m_in c" "m_processor (async_write out c) = m_processor c"
  "m_processor_opened (async_write out c) = m_processor_opened c" "awaits (async_write out c) = awaits c"
  "read_alive (async_write out c) = read_alive c" "m_socket_open (async_write out c) = m_socket_open c"
  "sent (async_write out c) = sent c @ [out]" "writes_pending (async_write out c) = writes_pending c + 1"
  "overwritten (async_write out c) = (overwritten c \<or> writes_pending c \<noteq> 0)"
  by (simp_all add: async_read_def async_write_def)

section \<open>A request of a connection\<close>

text \<open>The first half of \<open>process\<close>: the processor of the connection.\<close>

definition attach ::
  "('o, 'db) driver \<Rightarrow> command \<Rightarrow> 'o \<Rightarrow> connection \<times> 'o server \<Rightarrow> (connection \<times> 'o server, string) outcome" where
  "attach D cmd obj cs =
     (let (c, s) = cs
      in case m_processor c of
           Some i \<Rightarrow> (Inr i, cs)
         | None \<Rightarrow>
             (let hash = (if cmd \<noteq> OPEN then in_packet_id (m_in c) else broker_hash D obj)
              in case find_processor D hash s of
                   (Inl e, s1) \<Rightarrow> (Inl e, (c, s1))
                 | (Inr i, s1) \<Rightarrow> (Inr i, (c\<lparr>m_processor := Some i\<rparr>, s1))))"

text \<open>The second half up to the response that goes into the send buffer.\<close>

definition respond ::
  "('o, 'db) driver \<Rightarrow> 'db \<Rightarrow> response \<Rightarrow> command \<Rightarrow> 'o \<Rightarrow> string \<Rightarrow>
   connection \<times> 'o server \<Rightarrow> (connection \<times> 'o server, string) outcome" where
  "respond D db res cmd obj i cs =
     (let (c, s) = cs
      in if cmd \<noteq> OPEN
         then (case on_processor i (process D db res cmd obj) s of
                 (r, s1) \<Rightarrow> (r, (c, s1)))
         else if \<not> m_processor_opened c
         then (case on_processor i (process D db res cmd obj) s of
                 (Inl e, s1) \<Rightarrow> (Inl e, (c, s1))
               | (Inr out, s1) \<Rightarrow> (Inr out, (c\<lparr>m_processor_opened := True\<rparr>, s1)))
         else (pack_response D new_out_packet AlreadyOpen ''connection::process'' None, cs))"

definition connection_process ::
  "('o, 'db) driver \<Rightarrow> 'db \<Rightarrow> connection \<times> 'o server \<Rightarrow> (connection \<times> 'o server, unit) outcome" where
  "connection_process D db cs =
     (case body (m_in (fst cs)) of
        Inl e \<Rightarrow> (Inl e, cs)
      | Inr json \<Rightarrow>
          (case parse_request D json of
             Inl e \<Rightarrow> (Inl e, cs)
           | Inr (res, cmd, obj) \<Rightarrow>
               andthen (attach D cmd obj cs) (\<lambda>i cs.
               andthen (respond D db res cmd obj i cs) (\<lambda>out (c, s).
                 (Inr (), (async_write out c, s))))))"

section \<open>Handlers\<close>

definition start_connection :: "connection \<Rightarrow> connection" where
  "start_connection c = async_read For_header c"

text \<open>\<open>None\<close> stands for an error in place of the bytes that were read.\<close>

definition handle_read_header ::
  "memory \<Rightarrow> string option \<Rightarrow> connection \<times> 'o server \<Rightarrow> (connection \<times> 'o server, unit) outcome" where
  "handle_read_header mem bytes cs =
     (let (c, s) = cs
      in case bytes of
           Some bs \<Rightarrow>
             (let p = m_in c; h = decode (fill_buffer bs (in_header p)); p1 = p\<lparr>in_header := h\<rparr>
              in case reserve mem (m_body_length h) p1 of
                   (Inl e, p2) \<Rightarrow> (Inl e, (c\<lparr>m_in := p2\<rparr>, s))
                 | (Inr _, p2) \<Rightarrow> (Inr (), (async_read For_body (c\<lparr>m_in := p2\<rparr>), s)))
         | None \<Rightarrow>
             (case m_processor c of
                Some i \<Rightarrow>
                  (case on_processor i close_processor s of
                     (Inl e, s1) \<Rightarrow> (Inl e, (c, s1))
                   | (Inr _, s1) \<Rightarrow> (Inr (), (c\<lparr>m_processor := None, awaits := For_nothing\<rparr>, s1)))
              | None \<Rightarrow> (Inr (), (c\<lparr>awaits := For_nothing\<rparr>, s))))"

definition handle_read_body ::
  "('o, 'db) driver \<Rightarrow> 'db \<Rightarrow> string option \<Rightarrow> connection \<times> 'o server \<Rightarrow>
   (connection \<times> 'o server, unit) outcome" where
  "handle_read_body D db bytes cs =
     (let (c, s) = cs
      in case bytes of
           Some bs \<Rightarrow>
             andthen (connection_process D db (c\<lparr>m_in := fill_raw bs (m_in c)\<rparr>, s))
               (\<lambda>_ (c, s). (Inr (), (async_read For_header c, s)))
         | None \<Rightarrow> (Inl Thrown_error_code, cs))"

text \<open>
  A failed write closes the socket. A read that is pending is then cancelled, unless it completed
  already and its handler waits to be run.
\<close>

definition handle_write :: "bool \<Rightarrow> connection \<Rightarrow> connection" where
  "handle_write ok c =
     (let c1 = c\<lparr>writes_pending := writes_pending c - 1\<rparr>
      in if ok then c1 else c1\<lparr>m_socket_open := False\<rparr>)"

lemma handle_write_fields [simp]:
  "m_in (handle_write ok c) = m_in c" "m_processor (handle_write ok c) = m_processor c"
  "m_processor_opened (handle_write ok c) = m_processor_opened c" "awaits (handle_write ok c) = awaits c"
  "read_alive (handle_write ok c) = read_alive c" "sent (handle_write ok c) = sent c"
  "overwritten (handle_write ok c) = overwritten c"
  "writes_pending (handle_write ok c) = writes_pending c - 1"
  "m_socket_open (handle_write ok c) = (m_socket_open c \<and> ok)"
  by (simp_all add: handle_write_def Let_def)

definition make_connection :: "(nat \<Rightarrow> char) \<Rightarrow> 'o server \<Rightarrow> connection \<times> 'o server" where
  "make_connection j s =
     (let s1 = s\<lparr>m_connection_count := m_connection_count s + 1\<rparr>
      in (new_connection j (m_connection_count s1), s1))"

text \<open>
  \<open>handle_accept\<close>: the accepted connection starts, the next one is made and waits for a client;
  after an error nothing waits any more.
\<close>

definition handle_accept :: "(nat \<Rightarrow> char) \<Rightarrow> nat \<Rightarrow> nat \<Rightarrow> bool \<Rightarrow> 'o server \<Rightarrow> 'o server" where
  "handle_accept j k next ok s =
     (if ok
      then let s1 = s\<lparr>connections := (connections s)(k := map_option start_connection (connections s k))\<rparr>;
               (c, s2) = make_connection j s1
           in s2\<lparr>connections := (connections s2)(next \<mapsto> c), accepting := Some next\<rparr>
      else s\<lparr>accepting := None\<rparr>)"

section \<open>Running the server\<close>

text \<open>
  Events name connections by a number of the environment's choice: an accept gives the pending
  connection to a client and numbers the one made after it; \<open>Threads\<close> says what the threads of a
  processor do to its queues from now on. An event that does not fit what the connection waits
  for does not occur and changes nothing.
\<close>

datatype event =
    Accepted nat bool
  | Header nat "string option"
  | Body nat "string option"
  | Written nat bool
  | Threads string "string interference list" "string interference list"

text \<open>How many bytes a read asks for, and which completions of the pending read are possible.\<close>

definition asked_for :: "connection \<Rightarrow> nat" where
  "asked_for c = (case awaits c of
     For_header \<Rightarrow> header_length | For_body \<Rightarrow> unat (m_body_length (in_header (m_in c))) | For_nothing \<Rightarrow> 0)"

definition completes :: "waiting \<Rightarrow> string option \<Rightarrow> connection \<Rightarrow> bool" where
  "completes w bytes c \<longleftrightarrow> awaits c = w \<and>
     (case bytes of Some bs \<Rightarrow> read_alive c \<and> length bs = asked_for c | None \<Rightarrow> True)"

definition on_connection ::
  "nat \<Rightarrow> (connection \<Rightarrow> bool) \<Rightarrow> (connection \<times> 'o server \<Rightarrow> (connection \<times> 'o server, unit) outcome) \<Rightarrow>
   'o server \<Rightarrow> ('o server, unit) outcome" where
  "on_connection k possible f s =
     (case connections s k of
        None \<Rightarrow> (Inr (), s)
      | Some c \<Rightarrow>
          if \<not> possible c then (Inr (), s)
          else (let (r, (c', s')) = f (c, s) in (r, s'\<lparr>connections := (connections s')(k \<mapsto> c')\<rparr>)))"

text \<open>Either the event does not occur, or the handler ran and its connection is put back.\<close>

lemma on_connection_cases:
  assumes "on_connection k possible f s = (r, s')"
  obtains (skipped) "r = Inr ()" "s' = s" "\<And>c. connections s k = Some c \<Longrightarrow> \<not> possible c"
  | (handled) c c' s1 where "connections s k = Some c" "possible c" "f (c, s) = (r, (c', s1))"
      "s' = s1\<lparr>connections := (connections s1)(k \<mapsto> c')\<rparr>"
proof (cases "\<exists>c. connections s k = Some c \<and> possible c")
  case True
  then obtain c c' r1 s1 where c: "connections s k = Some c" "possible c" "f (c, s) = (r1, (c', s1))"
    by (metis prod.exhaust)
  with assms show ?thesis by (intro that(2) [OF c(1,2)]) (auto simp: on_connection_def)
next
  case False
  with assms have "r = Inr () \<and> s' = s" by (auto simp: on_connection_def split: option.splits if_splits)
  with False show ?thesis by (auto intro: that(1))
qed

fun server_step ::
  "('o, 'db) driver \<Rightarrow> memory \<Rightarrow> 'db \<Rightarrow> event \<Rightarrow> 'o server \<Rightarrow> ('o server, unit) outcome" where
  "server_step D mem db (Accepted next ok) s =
     (case accepting s of
        None \<Rightarrow> (Inr (), s)
      | Some k \<Rightarrow> if connections s next = None then (Inr (), handle_accept (junk mem) k next ok s) else (Inr (), s))"
| "server_step D mem db (Header k bytes) s =
     on_connection k (completes For_header bytes) (handle_read_header mem bytes) s"
| "server_step D mem db (Body k bytes) s =
     on_connection k (completes For_body bytes) (handle_read_body D db bytes) s"
| "server_step D mem db (Written k ok) s =
     on_connection k (\<lambda>c. writes_pending c \<noteq> 0) (\<lambda>(c, s). (Inr (), (handle_write ok c, s))) s"
| "server_step D mem db (Threads i r w) s =
     (Inr (), s\<lparr>m_processors := (m_processors s)(i := map_option
        (\<lambda>p. p\<lparr>m_read_broker := interleave r (m_read_broker p), m_write_broker := interleave w (m_write_broker p)\<rparr>)
        (m_processors s i))\<rparr>)"

text \<open>\<open>io_service::run\<close> handles events until a handler throws.\<close>

fun run :: "('o, 'db) driver \<Rightarrow> memory \<Rightarrow> ('db \<times> event) list \<Rightarrow> 'o server \<Rightarrow> ('o server, unit) outcome" where
  "run D mem [] s = (Inr (), s)"
| "run D mem ((db, e) # es) s = andthen (server_step D mem db e s) (\<lambda>_. run D mem es)"

text \<open>The constructor of the handler makes the first connection and waits for a client.\<close>

definition start_server :: "memory \<Rightarrow> size_t \<Rightarrow> 'o server" where
  "start_server mem n =
     (let (c, s) = make_connection (junk mem) (new_server n) in s\<lparr>connections := [0 \<mapsto> c], accepting := Some 0\<rparr>)"

text \<open>
  \<open>main\<close> binds a server to the port each argument names, as an unsigned 16-bit number, and runs
  until an exception: one derived from \<open>std::exception\<close> is printed and gives the exit code 0, any
  other and a failed assertion end the process, a thread that waits for ever hangs, and after
  undefined behaviour anything may happen.
\<close>

datatype ending = Exit_code int | Still_running | Process_terminated | Hangs | Anything

definition listening_ports :: "string list \<Rightarrow> 16 word list" where
  "listening_ports args = map (\<lambda>a. word_of_int (sint (atoi a))) args"

definition main_ending :: "string list \<Rightarrow> ('o server, unit) outcome \<Rightarrow> ending" where
  "main_ending args r =
     (if args = [] then Exit_code 1
      else case fst r of
             Inr _ \<Rightarrow> Still_running
           | Inl Blocked \<Rightarrow> Hangs
           | Inl Undefined \<Rightarrow> Anything
           | Inl e \<Rightarrow> if is_std_exception e then Exit_code 0 else Process_terminated)"

end
