(* ===== verification/Threads.thy ===== *)
theory Threads
  imports Processor_Facts Reader_System Broker_Updates Connection
begin

text \<open>
  The start routines of the two threads of a processor (\<^verbatim>\<open>write_thread\<close> and \<^verbatim>\<open>read_thread\<close> in
  \<^verbatim>\<open>src/src/asio_processor.hpp\<close>), and what a fault in them means for the server process.
\<close>

section \<open>Start routines\<close>

text \<open>
  No caller can catch what leaves a start routine: whatever is thrown, also an exception that \<open>main\<close>
  would print, ends the process, as a failed assertion does. A thread that ends or waits leaves the
  process running.
\<close>

fun thread_ending :: "fault + unit \<Rightarrow> ending" where
  "thread_ending (Inr _) = Still_running"
| "thread_ending (Inl Blocked) = Still_running"
| "thread_ending (Inl Undefined) = Anything"
| "thread_ending (Inl e) = Process_terminated"

text \<open>The writing thread calls \<open>update\<close>, for at most \<open>n\<close> rounds here.\<close>

definition write_thread ::
  "nat \<Rightarrow> ('o, 'db) driver \<Rightarrow> 'o broker \<times> 'db \<Rightarrow> (ending \<times> 'o broker \<times> 'db) option" where
  "write_thread n D s = map_option (\<lambda>(r, s). (thread_ending r, s)) (update n D s)"

text \<open>The reading thread calls \<open>read\<close>: the ending at a place of it.\<close>

definition read_thread :: "'o reader_pc \<Rightarrow> ending" where
  "read_thread pc = (case pc of R_crashed e \<Rightarrow> thread_ending (Inl e) | _ \<Rightarrow> Still_running)"

section \<open>Faults of a thread\<close>

lemma thread_ending_thrown: "e \<noteq> Blocked \<Longrightarrow> e \<noteq> Undefined \<Longrightarrow> thread_ending (Inl e) = Process_terminated"
  by (cases e) simp_all

lemma write_thread_eq: "update n D s = Some (r, s') \<Longrightarrow> write_thread n D s = Some (thread_ending r, s')"
  by (simp add: write_thread_def)

text \<open>A query that throws ends the process with the reading thread.\<close>

lemma failed_query_ends_process:
  assumes "rpc s = R_head" "\<not> m_do_exit (rb s)" "query_begin D db Asc (rb s) = (Inl e, b)"
    "e \<noteq> Blocked" "e \<noteq> Undefined"
  shows "\<exists>s'. reader_step D s s' \<and> read_thread (rpc s') = Process_terminated"
  using reader_step.r_query_throws [OF assms(1-3)] assms(4,5)
  by (auto simp: read_thread_def thread_ending_thrown)

text \<open>
  C35: A write request with a document that does not parse or that the database rejects, whose documents
  fit into the empty queue of a write broker that nobody else uses, is answered with \<open>OK\<close>. The writing thread applies the documents behind it in the request, fails at that document, and
  its exception terminates the server process, whatever other clients are connected; the documents
  before it in the request stay in the queue and are lost.
\<close>

theorem bad_write_ends_process:
  assumes "quiet (m_write_broker p)" "m_deque (m_queue (m_write_broker p)) = []"
    "length (objVals D (getObjectField D upd ''docs'')) \<le> unat (m_limit_size (m_queue (m_write_broker p)))"
    "map (jsonString D) (objVals D (getObjectField D upd ''docs'')) = before @ bad # behind"
    "apply_requests D (m_docset (m_write_broker p)) (rev behind) db = Inr db'"
    "apply_request D (m_docset (m_write_broker p)) bad db' = Inl e" "e \<noteq> Blocked" "e \<noteq> Undefined"
    "length behind < n"
  shows "\<exists>p' b'. do_write D packet upd p = (pack_response D packet OK ''do_write'' None, p') \<and>
    write_thread n D (m_write_broker p', db) = Some (Process_terminated, (b', db')) \<and>
    m_deque (m_queue b') = rev before"
proof -
  let ?docs = "before @ bad # behind" and ?b = "m_write_broker p"
  have "length ?docs \<le> unat (m_limit_size (m_queue ?b))"
    using assms(3) unfolding assms(4) [symmetric] by simp
  then obtain b where b: "write_loop ?docs ?b = (Inr (), b)" "m_deque (m_queue b) = rev behind @ bad # rev before"
      "settings b = settings ?b" "quiet b"
    using write_loop_quiet [OF assms(1), of ?docs] assms(2) by auto
  have d: "m_docset b = m_docset ?b" using settings_fields(7) [OF b(3)] .
  then obtain b' where "update n D (b, db) = Some (Inl e, (b', db'))" "m_deque (m_queue b') = rev before"
    using update_stops_at_failure [of b "rev behind" bad "rev before" D db db' e n] b(2,4) assms(5,6,9)
    by (auto simp: quiet_def)
  with b(1) assms(4,7,8) show ?thesis
    by (simp add: do_write_def on_write_def Let_def write_thread_eq thread_ending_thrown)
qed

theorem bad_write_ends_process_witness:
  "\<exists>p' b'. do_write (sample_driver\<lparr>fromjson := \<lambda>s. if s = ''x'' then Inl (Std_exception []) else Inr []\<rparr>) new_out_packet
        [(''docs'', VObj [(''0'', VObj [(''_id'', VOid ''x'')]), (''1'', VObj [(''_id'', VOid ''y'')])])]
        (sample_processor 1 (sample_open [] []) (sample_open [] [])) =
      (pack_response (sample_driver\<lparr>fromjson := \<lambda>s. if s = ''x'' then Inl (Std_exception []) else Inr []\<rparr>)
         new_out_packet OK ''do_write'' None, p') \<and>
    write_thread 3 (sample_driver\<lparr>fromjson := \<lambda>s. if s = ''x'' then Inl (Std_exception []) else Inr []\<rparr>)
      (m_write_broker p', []) = Some (Process_terminated, (b', [[]])) \<and>
    m_deque (m_queue b') = rev []"
  by (rule bad_write_ends_process [where bad = "''x''" and behind = "[''y'']" and e = "Std_exception []"])
    (simp_all add: quiet_def apply_request_def sample_driver_simps sample_vals_def sample_obj_def sample_oid_def)

end
