(* ===== verification/Connection_Facts.thy ===== *)
theory Connection_Facts
  imports Connection
begin

text \<open>
  Correctness of the server: the invariant of all its runs, the requests that end it, and how
  connections and processors account for their users.
\<close>

section \<open>Processors keep their id\<close>

lemma andthen_response [simp]: "snd (andthen x (\<lambda>_ p. (f, p))) = snd x"
  by (auto simp: andthen_def split: prod.splits sum.splits)

lemma processor_id_kept [simp]:
  "m_processor_id (snd (open_processor D db pu obj p)) = m_processor_id p"
  "m_processor_id (snd (term_processor p)) = m_processor_id p"
  "m_processor_id (snd (close_processor p)) = m_processor_id p"
  "m_processor_id (snd (do_read D packet p)) = m_processor_id p"
  "m_processor_id (snd (do_write D packet upd p)) = m_processor_id p"
  "m_processor_id (snd (do_rewind p)) = m_processor_id p"
  "m_processor_id (snd (process D db res cmd obj p)) = m_processor_id p"
proof -
  show o: "m_processor_id (snd (open_processor D db pu obj p)) = m_processor_id p"
    by (auto simp: open_processor_def andthen_def on_read_def on_write_def set_purpose_name_def
        split: purpose.split prod.splits sum.splits)
  have t: "m_processor_id (snd (term_processor p)) = m_processor_id p" for p :: "'o processor"
    by (auto simp: term_processor_def andthen_def on_read_def on_write_def split: prod.splits sum.splits)
  show "m_processor_id (snd (term_processor p)) = m_processor_id p" by (rule t)
  show c: "m_processor_id (snd (close_processor p)) = m_processor_id p"
    by (simp add: close_processor_def t)
  show r: "m_processor_id (snd (do_read D packet p)) = m_processor_id p" for packet
    by (auto simp: do_read_def Let_def split: prod.splits sum.splits)
  show w: "m_processor_id (snd (do_write D packet upd p)) = m_processor_id p" for packet upd
    by (auto simp: do_write_def on_write_def andthen_def Let_def split: prod.splits sum.splits)
  show d: "m_processor_id (snd (do_rewind p)) = m_processor_id p"
    by (simp add: do_rewind_def)
  show "m_processor_id (snd (process D db res cmd obj p)) = m_processor_id p"
    by (cases cmd) (simp_all add: process_def Let_def c r w d,
        auto simp: open_processor_def andthen_def on_read_def on_write_def set_purpose_name_def
        split: purpose.split prod.splits sum.splits)
qed

section \<open>The server's invariant\<close>

definition processors_ok :: "'o server \<Rightarrow> bool" where
  "processors_ok s \<longleftrightarrow> (\<forall>i p. m_processors s i = Some p \<longrightarrow> m_processor_id p = i \<and> processor_ok broker_inv p)"

definition known :: "'o server \<Rightarrow> string \<Rightarrow> bool" where
  "known s i \<longleftrightarrow> m_processors s i \<noteq> None"

definition connection_ok :: "'o server \<Rightarrow> connection \<Rightarrow> bool" where
  "connection_ok s c \<longleftrightarrow> in_packet_id (m_in c) = [] \<and> (\<forall>i. m_processor c = Some i \<longrightarrow> known s i)"

definition server_ok :: "'o server \<Rightarrow> bool" where
  "server_ok s \<longleftrightarrow> processors_ok s \<and> (\<forall>k c. connections s k = Some c \<longrightarrow> connection_ok s c) \<and>
     finite (dom (connections s))"

lemma connection_ok_mono:
  "connection_ok s c \<Longrightarrow> \<forall>i. known s i \<longrightarrow> known s' i \<Longrightarrow> connection_ok s' c"
  by (auto simp: connection_ok_def)

lemma ok_connections [simp]:
  "processors_ok (s\<lparr>accepting := y\<rparr>) = processors_ok s"
  "connection_ok (s\<lparr>accepting := y\<rparr>) c = connection_ok s c"
  "processors_ok (s\<lparr>connections := x\<rparr>) = processors_ok s"
  "connection_ok (s\<lparr>connections := x\<rparr>) c = connection_ok s c"
  by (simp_all add: processors_ok_def connection_ok_def known_def)

text \<open>What a handler of one connection may do to it and to the server.\<close>

definition allowed :: "connection \<times> 'o server \<Rightarrow> connection \<times> 'o server \<Rightarrow> bool" where
  "allowed cs cs' \<longleftrightarrow> connections (snd cs') = connections (snd cs) \<and> accepting (snd cs') = accepting (snd cs) \<and> processors_ok (snd cs') \<and>
     connection_ok (snd cs') (fst cs') \<and> (\<forall>i. known (snd cs) i \<longrightarrow> known (snd cs') i)"

lemma allowed_trans: "allowed cs cs' \<Longrightarrow> allowed cs' cs'' \<Longrightarrow> allowed cs cs''"
  by (auto simp: allowed_def)

lemma allowed_refl: "processors_ok s \<Longrightarrow> connection_ok s c \<Longrightarrow> allowed (c, s) (c, s)"
  by (simp add: allowed_def)

lemma on_processor_ok:
  assumes "on_processor i f s = (r, s')" "processors_ok s"
    "\<And>p. processor_ok broker_inv p \<Longrightarrow> processor_ok broker_inv (snd (f p))"
    "\<And>p. m_processor_id (snd (f p)) = m_processor_id p"
  shows "processors_ok s' \<and> connections s' = connections s \<and> accepting s' = accepting s \<and> (\<forall>i. known s' i = known s i)"
proof (cases "m_processors s i")
  case (Some p)
  then have "s' = s\<lparr>m_processors := (m_processors s)(i \<mapsto> snd (f p))\<rparr>"
    using assms(1) by (auto simp: on_processor_def split: prod.splits)
  with Some assms(2) assms(3) [of p] assms(4) [of p] show ?thesis
    by (auto simp: processors_ok_def known_def)
qed (use assms in \<open>auto simp: on_processor_def\<close>)

lemma attach_allowed:
  assumes "processors_ok s" "connection_ok s c" "attach D cmd obj (c, s) = (r, cs')"
  shows "allowed (c, s) cs' \<and> (\<forall>i. r = Inr i \<longrightarrow> m_processor (fst cs') = Some i) \<and>
    m_processor_opened (fst cs') = m_processor_opened c"
proof (cases "m_processor c")
  case (Some i)
  with assms show ?thesis by (auto simp: attach_def allowed_def)
next
  case None
  let ?h = "if cmd \<noteq> OPEN then in_packet_id (m_in c) else broker_hash D obj"
  obtain r1 s1 where f: "find_processor D ?h s = (r1, s1)" by fastforce
  have s1: "processors_ok s1 \<and> connections s1 = connections s \<and> accepting s1 = accepting s \<and> (\<forall>i. known s i \<longrightarrow> known s1 i) \<and>
      (\<forall>i. r1 = Inr i \<longrightarrow> known s1 i)"
    using f assms(1) brokers.new_processor_ok [of D ?h]
    by (auto simp: find_processor_def processors_ok_def known_def Let_def split: option.splits sum.splits if_splits)
  with None f assms(2,3) show ?thesis
    by (cases r1) (auto simp: attach_def allowed_def connection_ok_def Let_def)
qed

lemma respond_allowed:
  assumes "processors_ok s" "connection_ok s c" "respond D db res cmd obj i (c, s) = (r, cs')"
  shows "allowed (c, s) cs' \<and> m_processor (fst cs') = m_processor c"
proof -
  obtain r1 s1 where o: "on_processor i (process D db res cmd obj) s = (r1, s1)" by fastforce
  from on_processor_ok [OF o assms(1) brokers.process_ok processor_id_kept(7)]
  have "processors_ok s1 \<and> connections s1 = connections s \<and> accepting s1 = accepting s \<and> (\<forall>i. known s1 i = known s i)"
    by auto
  with o assms show ?thesis
    by (auto simp: respond_def allowed_def connection_ok_def split: if_splits sum.splits) 
qed

lemma connection_process_allowed:
  assumes "processors_ok s" "connection_ok s c" "connection_process D db (c, s) = (r, cs')"
  shows "allowed (c, s) cs'"
proof -
  have same: "allowed (c, s) (c, s)" using assms(1,2) by (simp add: allowed_def)
  show ?thesis
  proof (cases "body (m_in c)")
    case (Inr json)
    note b = Inr
    show ?thesis
    proof (cases "parse_request D json")
      case (Inr x)
      obtain res cmd obj where x: "x = (res, cmd, obj)" by (metis prod.exhaust)
      obtain r1 c1 s1 where at: "attach D cmd obj (c, s) = (r1, (c1, s1))" by (metis prod.exhaust)
      have a: "allowed (c, s) (c1, s1)" using attach_allowed [OF assms(1,2) at] by simp
      show ?thesis
      proof (cases r1)
        case (Inr i)
        from a have ok: "processors_ok s1" "connection_ok s1 c1" by (auto simp: allowed_def)
        obtain r2 c2 s2 where e: "respond D db res cmd obj i (c1, s1) = (r2, (c2, s2))" by (metis prod.exhaust)
        from respond_allowed [OF ok e] have "allowed (c1, s1) (c2, s2)" by simp
        then have "allowed (c1, s1) cs'"
          using assms(3) b x at e Inr \<open>parse_request D json = Inr x\<close>
          by (cases r2) (auto simp: connection_process_def allowed_def connection_ok_def)
        with a show ?thesis by (rule allowed_trans)
      qed (use assms(3) b x at a \<open>parse_request D json = Inr x\<close> in \<open>auto simp: connection_process_def\<close>)
    qed (use assms(3) same b in \<open>auto simp: connection_process_def\<close>)
  qed (use assms(3) same in \<open>auto simp: connection_process_def\<close>)
qed

lemma in_packet_id_kept:
  "reserve mem sz p = (r, p') \<Longrightarrow> in_packet_id p' = in_packet_id p"
  "in_packet_id (fill_raw bs p) = in_packet_id p"
  by (auto simp: reserve_def fill_raw_def Let_def split: if_splits)

lemma handle_read_header_allowed:
  assumes "processors_ok s" "connection_ok s c" "handle_read_header mem bytes (c, s) = (r, cs')"
  shows "allowed (c, s) cs'"
proof (cases bytes)
  case (Some bs)
  with assms show ?thesis
    by (auto simp: handle_read_header_def allowed_def connection_ok_def Let_def
        dest: in_packet_id_kept(1) split: prod.splits sum.splits)
next
  case None
  show ?thesis
  proof (cases "m_processor c")
    case (Some i)
    obtain r1 s1 where o: "on_processor i close_processor s = (r1, s1)" by fastforce
    from on_processor_ok [OF o assms(1) brokers.close_ok processor_id_kept(3)]
    have "processors_ok s1 \<and> connections s1 = connections s \<and> accepting s1 = accepting s \<and> (\<forall>i. known s1 i = known s i)"
      by auto
    with o None Some assms show ?thesis
      by (cases r1) (auto simp: handle_read_header_def allowed_def connection_ok_def)
  qed (use None assms in \<open>auto simp: handle_read_header_def allowed_def connection_ok_def\<close>)
qed

lemma handle_read_body_allowed:
  assumes "processors_ok s" "connection_ok s c" "handle_read_body D db bytes (c, s) = (r, cs')"
  shows "allowed (c, s) cs'"
proof (cases bytes)
  case None
  with assms show ?thesis by (auto simp: handle_read_body_def allowed_def)
next
  case (Some bs)
  let ?c = "c\<lparr>m_in := fill_raw bs (m_in c)\<rparr>"
  have c: "connection_ok s ?c" using assms(2) by (simp add: connection_ok_def in_packet_id_kept)
  obtain r1 c1 s1 where p: "connection_process D db (?c, s) = (r1, (c1, s1))" by (metis prod.exhaust)
  from connection_process_allowed [OF assms(1) c p] have "allowed (?c, s) (c1, s1)" .
  with Some p assms(3) show ?thesis
    by (cases r1) (auto simp: handle_read_body_def allowed_def connection_ok_def)
qed

lemma handle_write_allowed:
  assumes "processors_ok s" "connection_ok s c"
    "(case (c, s) of (c, s) \<Rightarrow> (Inr (), (handle_write ok c, s))) = (r, cs')"
  shows "allowed (c, s) cs'"
  using assms by (auto simp: allowed_def connection_ok_def)

lemma on_connection_ok:
  assumes "server_ok s" "on_connection k possible f s = (r, s')"
    "\<And>c r cs'. processors_ok s \<Longrightarrow> connection_ok s c \<Longrightarrow> f (c, s) = (r, cs') \<Longrightarrow> allowed (c, s) cs'"
  shows "server_ok s'"
  using assms(2)
proof (cases rule: on_connection_cases)
  case (handled c c' s1)
  have "processors_ok s" "connection_ok s c" using assms(1) handled(1) by (auto simp: server_ok_def)
  from assms(3) [OF this handled(3)] have a: "allowed (c, s) (c', s1)" .
  then have "connection_ok s1 c" if "connection_ok s c" for c
    using that connection_ok_mono by (auto simp: allowed_def)
  with a show ?thesis using assms(1) by (auto simp: handled(4) server_ok_def allowed_def ok_connections)
qed (use assms(1) in simp)

lemma threads_ok:
  "processor_ok broker_inv p \<Longrightarrow> processor_ok broker_inv
     (p\<lparr>m_read_broker := interleave r (m_read_broker p), m_write_broker := interleave w (m_write_broker p)\<rparr>)"
  by (simp add: processor_ok_def broker_inv_interleave interleave_connected)

lemma server_step_ok:
  assumes "server_ok s" "server_step D mem db e s = (r, s')"
  shows "server_ok s'"
proof (cases e)
  case (Accepted j ok)
  with assms show ?thesis
    by (auto simp: server_ok_def handle_accept_def make_connection_def new_connection_def
        start_connection_def processors_ok_def connection_ok_def known_def new_in_packet_def Let_def
        split: if_splits option.splits)
next
  case (Header k bytes)
  with assms show ?thesis by (auto intro: on_connection_ok [OF _ _ handle_read_header_allowed])
next
  case (Body k bytes)
  with assms show ?thesis by (auto intro: on_connection_ok [OF _ _ handle_read_body_allowed])
next
  case (Written k ok)
  with assms show ?thesis by (auto intro: on_connection_ok [OF _ _ handle_write_allowed])
next
  case (Threads i x w)
  with assms show ?thesis
    by (auto simp: server_ok_def processors_ok_def connection_ok_def known_def threads_ok split: if_splits)
qed

section \<open>Runs of the server\<close>

definition server_moves :: "('o, 'db) driver \<Rightarrow> memory \<Rightarrow> 'o server \<Rightarrow> 'o server \<Rightarrow> bool" where
  "server_moves D mem s s' \<longleftrightarrow> (\<exists>db e r. server_step D mem db e s = (r, s'))"

lemma server_ok_start: "server_ok (start_server mem n)"
  by (simp add: server_ok_def start_server_def make_connection_def new_server_def new_connection_def
      new_in_packet_def processors_ok_def connection_ok_def Let_def)

interpretation server: step_invariant "\<lambda>s. \<exists>n. s = start_server mem n" "server_moves D mem" server_ok
  for D :: "('o, 'db) driver" and mem
  by unfold_locales (auto simp: server_ok_start server_moves_def intro: server_step_ok)

lemma run_reachable:
  assumes "run D mem es s = (r, s')" "reachable ini (server_moves D mem) s"
  shows "reachable ini (server_moves D mem) s'"
  using assms
proof (induction D mem es s rule: run.induct)
  case (2 D mem db e es s)
  obtain r1 s1 where s1: "server_step D mem db e s = (r1, s1)" by fastforce
  then have "server_moves D mem s s1" by (auto simp: server_moves_def)
  with 2(3) have "reachable ini (server_moves D mem) s1" by (rule reachable.next_state)
  with 2(1,2) s1 show ?case by (cases r1) auto
qed simp

lemma run_ok: "run D mem es (start_server mem n) = (r, s) \<Longrightarrow> server_ok s"
  by (rule server.reachable_holds, erule run_reachable, rule reachable.start) blast
text \<open>
  C14: Whatever clients send and whatever fails, in every run of the server from its start: each
  registered processor is registered under its own, non-empty id and is consistent, and a
  connection only ever points to a registered processor.
\<close>

theorem server_always_consistent:
  assumes "run D mem es (start_server mem n) = (r, s)"
  shows "(\<forall>i p. m_processors s i = Some p \<longrightarrow> i \<noteq> [] \<and> m_processor_id p = i \<and> processor_ok broker_inv p) \<and>
    (\<forall>k c i. connections s k = Some c \<and> m_processor c = Some i \<longrightarrow> m_processors s i \<noteq> None)"
  using run_ok [OF assms]
  by (auto simp: server_ok_def processors_ok_def connection_ok_def known_def processor_ok_def)

definition sample_memory :: memory where
  "sample_memory = \<lparr>junk = (\<lambda>_. NUL), can_alloc = (\<lambda>n. unat n < 1000)\<rparr>"

theorem server_always_consistent_witness:
  "\<exists>s. run sample_driver sample_memory [([], Accepted 1 True)] (start_server sample_memory 0) = (Inr (), s) \<and>
     (\<forall>k c i. connections s k = Some c \<and> m_processor c = Some i \<longrightarrow> m_processors s i \<noteq> None)"
proof -
  let ?s = "snd (run sample_driver sample_memory [([], Accepted 1 True)] (start_server sample_memory 0))"
  have r: "run sample_driver sample_memory [([], Accepted 1 True)] (start_server sample_memory 0) = (Inr (), ?s)"
    by (simp add: start_server_def make_connection_def new_server_def Let_def)
  from server_always_consistent [OF r] r show ?thesis by blast
qed

section \<open>Which requests end the server\<close>

lemma run_append: "run D mem (es @ es') s = andthen (run D mem es s) (\<lambda>_. run D mem es')"
proof (induction es arbitrary: s)
  case (Cons x es)
  have "run D mem (es @ es') = (\<lambda>s. andthen (run D mem es s) (\<lambda>_. run D mem es'))"
    by (rule ext) (rule Cons)
  then show ?case by (cases x) (simp add: andthen_assoc)
qed simp

text \<open>One client that has sent the header of a packet of 34 bytes.\<close>

lemma sample_header_run:
  "\<exists>c s. run D sample_memory [([], Accepted 1 True), ([], Header 0 (Some (pad_left 16 (show_nat 34))))]
       (start_server sample_memory 0) = (Inr (), s) \<and>
     connections s 0 = Some c \<and> awaits c = For_body \<and> m_processor c = None \<and> \<not> m_processor_opened c \<and>
     m_processors s = (\<lambda>_. None) \<and> (\<forall>k. k \<noteq> 0 \<longrightarrow> connections s k = None \<or> k = 1) \<and>
     (\<forall>c. connections s 1 = Some c \<longrightarrow> m_processor c = None) \<and>
     m_body_length (in_header (m_in c)) = 34 \<and> (\<exists>raw. m_raw (m_in c) = Some (raw @ [NUL]) \<and> length raw = 34) \<and>
     sent c = [] \<and> m_socket_open c \<and> read_alive c \<and> writes_pending c = 0"
proof -
  have l: "length (pad_left 16 (show_nat 34)) = header_length"
    using length_show_nat [of 34 10] by (simp add: header_length_def)
  have d: "decode (fill_buffer (pad_left 16 (show_nat 34)) (new_packet_header j)) =
      \<lparr>m_header = pad_left 16 (show_nat 34) @ [NUL], m_body_length = 34\<rparr>" for j
    using announced_padded [of 34 16] by (simp add: decode_filled [OF _ l] size_of_nat_def)
  have r: "reserve sample_memory 34 p = (Inr (), p\<lparr>m_raw := Some (map (\<lambda>_. NUL) [0..<34] @ [NUL])\<rparr>)" for p
    using reserve_ok [of sample_memory 34 p] by (simp add: sample_memory_def)
  show ?thesis
    using l by (simp add: start_server_def make_connection_def new_server_def new_connection_def handle_accept_def
        start_connection_def on_connection_def handle_read_header_def new_in_packet_def d r Let_def completes_def asked_for_def del: upt.simps)
qed

text \<open>
  C36: The first request of a connection must be \<open>OPEN\<close>. Any other known command makes
  \<open>connection::process\<close> look for the packet's id, which no handler ever reads from the packet,
  and the processor for the empty id fails its assertion: the server ends, whoever else is
  connected.
\<close>

theorem first_request_must_open:
  assumes "run D mem es (start_server mem n) = (Inr (), s)" "connections s k = Some c"
    "completes For_body (Some bs) c" "m_processor c = None"
    "body (fill_raw bs (m_in c)) = Inr json" "parse_request D json = Inr (res, cmd, obj)" "cmd \<noteq> OPEN"
  shows "fst (run D mem (es @ [(db, Body k (Some bs))]) (start_server mem n)) = Inl Assertion_failed"
proof -
  have ok: "server_ok s" using run_ok [OF assms(1)] .
  with assms(2) have "in_packet_id (m_in c) = []" by (auto simp: server_ok_def connection_ok_def)
  moreover have "m_processors s [] = None"
    using ok by (cases "m_processors s []") (fastforce simp: server_ok_def processors_ok_def processor_ok_def)+
  ultimately have "fst (server_step D mem db (Body k (Some bs)) s) = Inl Assertion_failed"
    using assms(2-7)
    by (simp add: on_connection_def handle_read_body_def connection_process_def attach_def
        find_processor_def new_processor_def reset_processor_def in_packet_id_kept Let_def split: prod.split)
  then obtain s' where e: "server_step D mem db (Body k (Some bs)) s = (Inl Assertion_failed, s')"
    by (metis prod.collapse)
  show ?thesis unfolding run_append using assms(1) e by (simp del: server_step.simps)
qed

theorem first_request_must_open_witness:
  "fst (run (sample_driver\<lparr>fromjson := \<lambda>_. Inr [(''cmd'', VInt 102)]\<rparr>) sample_memory
     ([([], Accepted 1 True), ([], Header 0 (Some (pad_left 16 (show_nat 34))))] @
      [([], Body 0 (Some (replicate 32 CHR '' '' @ ''{}'')))]) (start_server sample_memory 0)) = Inl Assertion_failed"
proof -
  let ?D = "sample_driver\<lparr>fromjson := \<lambda>_. Inr [(''cmd'', VInt 102)]\<rparr>"
  let ?es = "[([], Accepted 1 True), ([], Header 0 (Some (pad_left 16 (show_nat 34))))]"
  obtain c s where r: "run ?D sample_memory ?es (start_server sample_memory 0) = (Inr (), s)"
      "connections s 0 = Some c" "awaits c = For_body" "read_alive c" "m_processor c = None"
      "m_body_length (in_header (m_in c)) = 34" "\<exists>raw. m_raw (m_in c) = Some (raw @ [NUL]) \<and> length raw = 34"
    using sample_header_run [of ?D] by blast
  have b: "body (fill_raw (replicate 32 CHR '' '' @ ''{}'') (m_in c)) = Inr ''{}''"
    using r(7) by (auto simp: body_def fill_raw_def c_str_at_def c_str_def packet_id_length_def)
  have "parse_request ?D ''{}'' = Inr (OK, READ, [])"
    by (simp add: parse_request_def sample_driver_simps sample_int_def command_of_int_def MaxCmd_def MinCmd_def
        sample_obj_def Let_def)
  from first_request_must_open [OF r(1,2) _ r(5) b this] r(3,4,6) show ?thesis
    by (simp add: completes_def asked_for_def)
qed

text \<open>
  A second \<open>OPEN\<close> of a connection is answered with "already open" and changes nothing in the
  server: neither the users of its processor nor its brokers.
\<close>

theorem second_open_refused:
  assumes "m_processor_opened c" "m_processor c = Some i"
    "body (m_in c) = Inr json" "parse_request D json = Inr (res, OPEN, obj)"
    "pack_response D new_out_packet AlreadyOpen ''connection::process'' None = Inr out"
  shows "connection_process D db (c, s) = (Inr (), (async_write out c, s))"
  using assms by (simp add: connection_process_def attach_def respond_def)

definition sample_connection :: "string option \<Rightarrow> bool \<Rightarrow> string \<Rightarrow> connection" where
  "sample_connection i opened json = (new_connection (\<lambda>_. NUL) 1)\<lparr>m_processor := i, m_processor_opened := opened,
     m_in := (new_in_packet (\<lambda>_. NUL))\<lparr>m_raw := Some (replicate 32 CHR '' '' @ json @ [NUL])\<rparr>\<rparr>"

lemma sample_connection_fields [simp]:
  "m_processor (sample_connection i opened json) = i" "m_processor_opened (sample_connection i opened json) = opened"
  "m_send_buffer (sample_connection i opened json) = []" "sent (sample_connection i opened json) = []"
  "body (m_in (sample_connection i opened json)) = c_str_at (replicate 32 CHR '' '' @ json @ [NUL]) 32"
  by (simp_all add: sample_connection_def new_connection_def body_def packet_id_length_def)

theorem second_open_refused_witness:
  "\<exists>out. connection_process (sample_driver\<lparr>fromjson := \<lambda>_. Inr [(''cmd'', VInt 100)]\<rparr>) []
      (sample_connection (Some ''id'') True ''{}'', new_server 0) =
    (Inr (), (async_write out (sample_connection (Some ''id'') True ''{}''), new_server 0))"
proof -
  let ?D = "sample_driver\<lparr>fromjson := \<lambda>_. Inr [(''cmd'', VInt 100)]\<rparr>"
  have b: "body (m_in (sample_connection (Some ''id'') True ''{}'')) = Inr ''{}''"
    by (simp add: c_str_at_def c_str_def)
  have p: "parse_request ?D ''{}'' = Inr (OK, OPEN, [])"
    by (simp add: parse_request_def sample_driver_simps sample_int_def command_of_int_def MaxCmd_def MinCmd_def
        sample_obj_def Let_def)
  obtain out where "pack_response ?D new_out_packet AlreadyOpen ''connection::process'' None = Inr out"
    using pack_frame [of "set_body [] new_out_packet"]
    by (auto simp: pack_response_def get_response_string_def init_response_builder_def sample_driver_simps
        sample_oid_def new_out_packet_def set_body_def max_body_length_def c_str_def Let_def)
  from second_open_refused [OF _ _ b p this] show ?thesis by auto
qed

text \<open>
  C39: Closing twice. When a client closes its processor and then disconnects, two users are taken
  off the count: with one other user the processor is shut down under it, its read broker
  disconnected, and the other client's next read fails an assertion.
\<close>

theorem close_then_disconnect:
  assumes "m_processors s i = Some p" "unat (m_refcount p) = 2" "m_processor c = Some i"
    "m_read_thread p = m_connected (m_read_broker p)" "m_write_thread p = m_connected (m_write_broker p)"
    "respond D db OK CLOSE obj i (c, s) = (Inr out, (c1, s1))"
    "handle_read_header mem None (c1, s1) = (Inr (), (c2, s2))"
  shows "\<exists>p2. m_processors s2 i = Some p2 \<and> m_refcount p2 = 0 \<and>
    \<not> m_connected (m_read_broker p2) \<and> \<not> m_connected (m_write_broker p2) \<and>
    fst (process D db OK READ obj p2) = Inl Assertion_failed"
proof -
  have "m_refcount p \<noteq> 0" using assms(2) by auto
  then have "unat (m_refcount p - 1) = 1" using assms(2) by (simp add: unat_minus_one)
  then have n: "m_refcount p > 1" "\<not> m_refcount p - 1 > 1"
    using assms(2) by (simp_all add: word_less_nat_alt)
  let ?p = "p\<lparr>m_refcount := m_refcount p - 1\<rparr>"
  have c1: "c1 = c" "m_processors s1 i = Some ?p"
    using assms(1,6) n(1)
    by (auto simp: respond_def on_processor_def process_def close_processor_def Let_def)
  obtain p2 where t: "term_processor (?p\<lparr>m_refcount := 0\<rparr>) = (Inr (), p2)" and s2: "m_processors s2 i = Some p2"
    using assms(3,7) c1 n(2)
    by (auto simp: handle_read_header_def on_processor_def close_processor_def split: prod.splits sum.splits)
  from term_processor_closed [OF t] assms(4,5) s2 show ?thesis
    by (simp add: process_def Let_def)
qed

theorem close_then_disconnect_witness:
  "\<exists>c1 s1 out c2 s2 p2. respond sample_driver [] OK CLOSE [] ''id'' (sample_connection (Some ''id'') True ''{}'',
        (new_server 0)\<lparr>m_processors := [''id'' \<mapsto> sample_processor 2 (sample_open [''a''] []) (new_broker sample_driver)]\<rparr>) =
      (Inr out, (c1, s1)) \<and>
    handle_read_header sample_memory None (c1, s1) = (Inr (), (c2, s2)) \<and> m_processors s2 ''id'' = Some p2 \<and>
    fst (process sample_driver [] OK READ [] p2) = Inl Assertion_failed"
proof -
  let ?p = "sample_processor 2 (sample_open [''a''] []) (new_broker sample_driver)"
  let ?s = "(new_server 0)\<lparr>m_processors := [''id'' \<mapsto> ?p]\<rparr>"
  let ?c = "sample_connection (Some ''id'') True ''{}''"
  let ?s1 = "?s\<lparr>m_processors := [''id'' \<mapsto> sample_processor 1 (sample_open [''a''] []) (new_broker sample_driver)]\<rparr>"
  have "\<exists>out. pack_response sample_driver (set_packet_id ''id'' new_out_packet) OK ''Close Action'' None = Inr out"
    using pack_frame [of "set_body [] (set_packet_id ''id'' new_out_packet)"]
    by (auto simp: pack_response_def get_response_string_def init_response_builder_def sample_driver_simps
        sample_oid_def max_body_length_def c_str_def Let_def)
  then obtain out where a: "respond sample_driver [] OK CLOSE [] ''id'' (?c, ?s) = (Inr out, (?c, ?s1))"
    by (auto simp: respond_def on_processor_def process_def close_processor_def sample_processor_def Let_def)
  obtain b where b: "stop_reading (sample_open [''a''] []) = (Inr (), b)" using stop_reading_sample by blast
  then obtain c2 s2 where h: "handle_read_header sample_memory None (?c, ?s1) = (Inr (), (c2, s2))"
    by (simp add: handle_read_header_def on_processor_def close_processor_def term_processor_def
        sample_processor_def on_read_def new_broker_connected)
  from close_then_disconnect [OF _ _ _ _ _ a h, of ?p] a h show ?thesis
    by (auto simp: sample_processor_def)
qed

section \<open>Accepting clients\<close>

text \<open>Only an accept makes a connection or changes which one is pending.\<close>

lemma on_connection_same:
  assumes "server_ok s" "on_connection k possible f s = (r, s')"
    "\<And>c r cs'. processors_ok s \<Longrightarrow> connection_ok s c \<Longrightarrow> f (c, s) = (r, cs') \<Longrightarrow> allowed (c, s) cs'"
  shows "dom (connections s') = dom (connections s) \<and> accepting s' = accepting s"
  using assms(2)
proof (cases rule: on_connection_cases)
  case (handled c c' s1)
  have "processors_ok s" "connection_ok s c" using assms(1) handled(1) by (auto simp: server_ok_def)
  from assms(3) [OF this handled(3)] handled(1,4) show ?thesis by (auto simp: allowed_def)
qed simp

lemma server_step_same:
  assumes "server_ok s" "server_step D mem db e s = (r, s')" "\<not> (\<exists>j ok. e = Accepted j ok)"
  shows "dom (connections s') = dom (connections s) \<and> accepting s' = accepting s"
proof (cases e)
  case (Header k bytes)
  with assms(2) have "on_connection k (completes For_header bytes) (handle_read_header mem bytes) s = (r, s')" by simp
  then show ?thesis by (rule on_connection_same [OF assms(1) _ handle_read_header_allowed])
next
  case (Body k bytes)
  with assms(2) have "on_connection k (completes For_body bytes) (handle_read_body D db bytes) s = (r, s')" by simp
  then show ?thesis by (rule on_connection_same [OF assms(1) _ handle_read_body_allowed])
next
  case (Written k ok)
  with assms(2) have "on_connection k (\<lambda>c. writes_pending c \<noteq> 0) (\<lambda>(c, s). (Inr (), (handle_write ok c, s))) s = (r, s')" by simp
  then show ?thesis by (rule on_connection_same [OF assms(1) _ handle_write_allowed])
qed (use assms(2,3) in auto)

lemma run_without_accept:
  "run D mem es s = (r, s') \<Longrightarrow> server_ok s \<Longrightarrow> accepting s = None \<Longrightarrow>
    dom (connections s') = dom (connections s) \<and> accepting s' = None"
proof (induction D mem es s rule: run.induct)
  case (2 D mem db e es s)
  obtain r1 s1 where s1: "server_step D mem db e s = (r1, s1)" by fastforce
  have "server_ok s1" "dom (connections s1) = dom (connections s) \<and> accepting s1 = None"
    using server_step_ok [OF 2(3) s1] server_step_same [OF 2(3) s1] s1 2(4) by (cases e; simp)+
  with 2(1,2) s1 show ?case by (cases r1) (auto simp del: server_step.simps)
qed simp

text \<open>
  One failed accept closes the server to new clients for ever: \<open>handle_accept\<close> asks for the next
  connection only after a success, so after an error no event makes a connection any more.
\<close>

theorem failed_accept_is_final:
  assumes "run D mem es (start_server mem n) = (Inr (), s)" "connections s j = None"
    "run D mem ((db, Accepted j False) # es') s = (r, s')"
  shows "dom (connections s') = dom (connections s) \<and> accepting s' = None"
proof -
  have ok: "server_ok s" using run_ok [OF assms(1)] .
  obtain s1 where s1: "server_step D mem db (Accepted j False) s = (Inr (), s1)"
      "connections s1 = connections s" "accepting s1 = None"
    using assms(2) by (cases "accepting s") (auto simp: handle_accept_def)
  from run_without_accept [of D mem es' s1 r s'] server_step_ok [OF ok s1(1)] s1 assms(3)
  show ?thesis by (simp del: server_step.simps)
qed

theorem failed_accept_is_final_witness:
  "dom (connections (snd (run sample_driver sample_memory [([], Accepted 1 False), ([], Accepted 1 True)]
     (start_server sample_memory 0)))) = dom (connections (start_server sample_memory 0 :: bson server))"
proof -
  have c: "connections (start_server sample_memory 0 :: bson server) (Suc 0) = None"
    by (simp add: start_server_def make_connection_def Let_def new_server_def)
  have i: "run sample_driver sample_memory [] (start_server sample_memory 0) = (Inr (), start_server sample_memory 0)"
    by simp
  obtain r s where r: "run sample_driver sample_memory [([], Accepted (Suc 0) False), ([], Accepted 1 True)]
      (start_server sample_memory 0) = (r, s)" by fastforce
  from failed_accept_is_final [OF i c r] r show ?thesis by (simp del: run.simps server_step.simps)
qed

section \<open>Options that end the server\<close>

text \<open>
  A client that opens a broker without naming a host ends the server for everybody: the
  exception leaves the handler and \<open>io_service::run\<close>, \<open>main\<close> prints it and returns 0.
\<close>

theorem missing_host_ends_server:
  assumes "run D mem es (start_server mem n) = (Inr (), s)" "connections s k = Some c"
    "completes For_body (Some bs) c" "m_processor c = None" "\<not> m_processor_opened c"
    "body (fill_raw bs (m_in c)) = Inr json" "parse_request D json = Inr (OK, OPEN, obj)"
    "m_processors s (broker_hash D obj) = None" "broker_hash D obj \<noteq> []"
    "purpose_of_int (getIntField D obj ''purpose'') = Read" "getStringField D obj ''host'' = []"
  shows "main_ending [port] (run D mem (es @ [(db, Body k (Some bs))]) (start_server mem n)) = Exit_code 0"
proof -
  obtain p where p: "new_processor D (broker_hash D obj) = Inr p" "m_processor_id p = broker_hash D obj"
      "m_read_broker p = new_broker D"
    using assms(9) by (auto simp: new_processor_def reset_processor_def Let_def)
  have "\<not> m_inited (new_broker D)" by (simp add: new_broker_def reset_def)
  then have "fst (init D (Some obj) (new_broker D)) = Inl (Broker_exception ''host must not be empty'')"
    using assms(11) by (simp add: init_def load_options_def Let_def)
  then have "fst (open_broker D db (Some obj) (new_broker D)) = Inl (Broker_exception ''host must not be empty'')"
    by (auto simp: open_broker_def andthen_def split: prod.split sum.split)
  then have "\<exists>b. open_broker D db (Some obj) (new_broker D) = (Inl (Broker_exception ''host must not be empty''), b)"
    by (metis prod.collapse)
  with p assms(10) have "\<exists>p'. process D db OK OPEN obj p = (Inl (Broker_exception ''host must not be empty''), p')"
    by (auto simp: process_def open_processor_def on_read_def new_broker_connected Let_def)
  then obtain s' where "server_step D mem db (Body k (Some bs)) s =
      (Inl (Broker_exception ''host must not be empty''), s')"
    using assms(2-8) p
    by (auto simp: on_connection_def handle_read_body_def connection_process_def attach_def
        find_processor_def respond_def on_processor_def Let_def)
  then show ?thesis unfolding run_append using assms(1) by (simp add: main_ending_def del: server_step.simps)
qed

theorem missing_host_ends_server_witness:
  "main_ending [''8000''] (run (sample_driver\<lparr>fromjson := \<lambda>_. Inr [(''cmd'', VInt 100),
       (''body'', VObj [(''collection'', VStr ''c''), (''purpose'', VInt 1)])]\<rparr>) sample_memory
     ([([], Accepted 1 True), ([], Header 0 (Some (pad_left 16 (show_nat 34))))] @
      [([], Body 0 (Some (replicate 32 CHR '' '' @ ''{}'')))]) (start_server sample_memory 0)) = Exit_code 0"
proof -
  let ?o = "[(''collection'', VStr ''c''), (''purpose'', VInt 1)]"
  let ?D = "sample_driver\<lparr>fromjson := \<lambda>_. Inr [(''cmd'', VInt 100), (''body'', VObj ?o)]\<rparr>"
  let ?es = "[([], Accepted 1 True), ([], Header 0 (Some (pad_left 16 (show_nat 34))))]"
  obtain c s where r: "run ?D sample_memory ?es (start_server sample_memory 0) = (Inr (), s)"
      "connections s 0 = Some c" "awaits c = For_body" "read_alive c" "m_processor c = None" "\<not> m_processor_opened c"
      "m_processors s = (\<lambda>_. None)"
      "m_body_length (in_header (m_in c)) = 34" "\<exists>raw. m_raw (m_in c) = Some (raw @ [NUL]) \<and> length raw = 34"
    using sample_header_run [of ?D] by blast
  have b: "body (fill_raw (replicate 32 CHR '' '' @ ''{}'') (m_in c)) = Inr ''{}''"
    using r(9) by (auto simp: body_def fill_raw_def c_str_at_def c_str_def packet_id_length_def)
  have p: "parse_request ?D ''{}'' = Inr (OK, OPEN, ?o)"
    by (simp add: parse_request_def sample_driver_simps sample_int_def command_of_int_def MaxCmd_def MinCmd_def
        sample_obj_def Let_def)
  have "broker_hash ?D ?o \<noteq> []" "purpose_of_int (getIntField ?D ?o ''purpose'') = Read" "getStringField ?D ?o ''host'' = []"
    by (simp_all add: broker_hash_def sample_driver_simps sample_str_def sample_int_def purpose_of_int_def)
  then show ?thesis
    using r(3,4,7,8) by (intro missing_host_ends_server [OF r(1,2) _ r(5,6) b p]) (simp_all add: completes_def asked_for_def)
qed

section \<open>Disconnecting\<close>

text \<open>
  C37: A client that disconnects between the header and the end of the body of a packet, or whose
  network fails there, ends the server for everybody: the handler throws the error code, which is
  not a \<open>std::exception\<close>, so \<open>main\<close> does not catch it and the process is terminated.
\<close>

theorem disconnect_in_body_terminates:
  assumes "run D mem es (start_server mem n) = (Inr (), s)" "connections s k = Some c" "awaits c = For_body"
  shows "main_ending [port] (run D mem (es @ [(db, Body k None)]) (start_server mem n)) = Process_terminated"
proof -
  obtain s' where "server_step D mem db (Body k None) s = (Inl Thrown_error_code, s')"
    using assms(2,3) by (auto simp: on_connection_def handle_read_body_def completes_def)
  then show ?thesis unfolding run_append using assms(1) by (simp add: main_ending_def del: server_step.simps)
qed

theorem disconnect_in_body_terminates_witness:
  "main_ending [''8000''] (run sample_driver sample_memory
     ([([], Accepted 1 True), ([], Header 0 (Some (pad_left 16 (show_nat 34))))] @ [([], Body 0 None)])
     (start_server sample_memory 0)) = Process_terminated"
proof -
  let ?es = "[([], Accepted 1 True), ([], Header 0 (Some (pad_left 16 (show_nat 34))))]"
  obtain c s where "run sample_driver sample_memory ?es (start_server sample_memory 0) = (Inr (), s)"
      "connections s 0 = Some c" "awaits c = For_body"
    using sample_header_run [of sample_driver] by blast
  then show ?thesis by (rule disconnect_in_body_terminates)
qed

end
