(* ===== verification/User_Counts.thy ===== *)
theory User_Counts
  imports Connection_Facts
begin

text \<open>
  How connections and processors account for their users: in runs without a \<open>CLOSE\<close> request a
  processor's reference count is the number of connections that use it.
\<close>

section \<open>Counting users\<close>

definition refs :: "'o server \<Rightarrow> string \<Rightarrow> size_t" where
  "refs s i = (case m_processors s i of None \<Rightarrow> 0 | Some p \<Rightarrow> m_refcount p)"

definition uses :: "connection \<Rightarrow> string \<Rightarrow> nat" where
  "uses c i = (if m_processor c = Some i then 1 else 0)"

definition users :: "'o server \<Rightarrow> string \<Rightarrow> nat" where
  "users s i = card {k. \<exists>c. connections s k = Some c \<and> m_processor c = Some i}"

text \<open>
  A connection that can still get requests has a processor exactly if it has opened it; one that
  waits for a body has reserved the announced bytes.
\<close>

definition tidy :: "connection \<Rightarrow> bool" where
  "tidy c \<longleftrightarrow> (m_processor c \<noteq> None \<longrightarrow> m_processor_opened c) \<and>
     (awaits c \<noteq> For_nothing \<longrightarrow> (m_processor_opened c \<longleftrightarrow> m_processor c \<noteq> None)) \<and>
     (awaits c = For_body \<longrightarrow> (\<exists>xs. m_raw (m_in c) = Some (xs @ [NUL]) \<and>
        length xs = unat (m_body_length (in_header (m_in c)))))"

text \<open>A successful step of a handler moves users and counts together (as words).\<close>

definition balanced :: "connection \<times> 'o server \<Rightarrow> connection \<times> 'o server \<Rightarrow> bool" where
  "balanced cs cs' \<longleftrightarrow> (\<forall>i. refs (snd cs') i + word_of_nat (uses (fst cs) i) =
     refs (snd cs) i + word_of_nat (uses (fst cs') i))"

lemma open_counts:
  "open_processor D db pu obj p = (Inr (), p') \<Longrightarrow> m_refcount p' = m_refcount p + 1"
  by (auto simp: open_processor_def andthen_def on_read_def on_write_def set_purpose_name_def
      split: purpose.splits prod.splits sum.splits if_splits)

lemma term_refcount: "term_processor p = (r, p') \<Longrightarrow> m_refcount p' = m_refcount p"
  by (auto simp: term_processor_def andthen_def on_read_def on_write_def split: prod.splits sum.splits if_splits)

lemma process_counts:
  assumes "process D db res cmd obj p = (Inr out, p')" "cmd \<noteq> CLOSE"
  shows "m_refcount p' = m_refcount p + (if cmd = OPEN then 1 else 0)"
proof (cases cmd)
  case OPEN
  with assms(1) open_counts show ?thesis
    by (auto simp: process_def andthen_def Let_def split: prod.splits sum.splits if_splits)
next
  case READ
  with assms(1) show ?thesis
    by (auto simp: process_def do_read_def Let_def split: prod.splits sum.splits if_splits)
next
  case WRITE
  with assms(1) show ?thesis
    by (auto simp: process_def do_write_def on_write_def andthen_def Let_def split: prod.splits sum.splits if_splits)
next
  case REWIND
  with assms(1) show ?thesis by (auto simp: process_def do_rewind_def Let_def split: if_splits)
qed (use assms in \<open>auto simp: process_def Let_def split: if_splits\<close>)

lemma refs_on_processor:
  assumes "on_processor i f s = (Inr x, s')" "\<And>p p'. f p = (Inr x, p') \<Longrightarrow> m_refcount p' = m_refcount p + n"
  shows "refs s' j = refs s j + (if j = i then n else 0)"
  using assms(1) by (auto simp: on_processor_def refs_def assms(2) split: option.splits prod.splits)

lemma attach_balanced:
  assumes "attach D cmd obj (c, s) = (Inr i, (c', s'))"
  shows "(\<forall>j. refs s' j = refs s j) \<and> m_processor c' = Some i \<and>
    (m_processor c = Some i \<or> m_processor c = None) \<and>
    m_processor_opened c' = m_processor_opened c \<and> awaits c' = awaits c"
proof (cases "m_processor c")
  case (Some i)
  with assms show ?thesis by (auto simp: attach_def)
next
  case None
  have "new_processor D h = Inr p \<Longrightarrow> m_refcount p = 0 \<and> m_processor_id p = h" for h p
    by (auto simp: new_processor_def reset_processor_def Let_def split: if_splits)
  with None assms show ?thesis
    by (auto simp: attach_def find_processor_def refs_def Let_def split: option.splits sum.splits prod.splits if_splits)
qed

lemma respond_balanced:
  assumes "respond D db res cmd obj i (c, s) = (Inr out, (c', s'))" "cmd \<noteq> CLOSE" "m_processor c = Some i"
  shows "refs s' j = refs s j + (if j = i \<and> cmd = OPEN \<and> \<not> m_processor_opened c then 1 else 0)"
    and "m_processor c' = m_processor c" "awaits c' = awaits c"
    "m_processor_opened c' = (m_processor_opened c \<or> cmd = OPEN)"
proof -
  have "on_processor i (process D db res cmd obj) s = (Inr out, s') \<Longrightarrow>
      refs s' j = refs s j + (if j = i then if cmd = OPEN then 1 else 0 else 0)"
    by (erule refs_on_processor) (rule process_counts [OF _ assms(2)])
  with assms(1) show "refs s' j = refs s j + (if j = i \<and> cmd = OPEN \<and> \<not> m_processor_opened c then 1 else 0)"
    by (auto simp: respond_def split: if_splits prod.splits sum.splits)
  show "m_processor c' = m_processor c" "awaits c' = awaits c"
    "m_processor_opened c' = (m_processor_opened c \<or> cmd = OPEN)"
    using assms(1) by (auto simp: respond_def split: if_splits prod.splits sum.splits)
qed

text \<open>Requests that close.\<close>

definition closing :: "('o, 'db) driver \<Rightarrow> string \<Rightarrow> bool" where
  "closing D json \<longleftrightarrow> (\<exists>res obj. parse_request D json = Inr (res, CLOSE, obj))"

fun closing_event :: "('o, 'db) driver \<Rightarrow> event \<Rightarrow> bool" where
  "closing_event D (Body k (Some bs)) = closing D (c_str (drop packet_id_length bs))"
| "closing_event D _ = False"

lemma connection_process_balanced:
  assumes "connection_process D db (c, s) = (Inr (), (c', s'))" "tidy c" "awaits c = For_body"
    "in_packet_id (m_in c) = []" "m_processors s [] = None" "\<And>json. body (m_in c) = Inr json \<Longrightarrow> \<not> closing D json"
  shows "balanced (c, s) (c', s') \<and> m_processor_opened c' \<and> m_processor c' \<noteq> None \<and> awaits c' = For_body"
proof -
  obtain json res cmd obj where j: "body (m_in c) = Inr json" "parse_request D json = Inr (res, cmd, obj)"
    using assms(1) by (auto simp: connection_process_def split: sum.splits)
  obtain i c1 s1 where a: "attach D cmd obj (c, s) = (Inr i, (c1, s1))"
    using assms(1) j by (auto simp: connection_process_def andthen_def split: prod.splits sum.splits)
  obtain out c2 where e: "respond D db res cmd obj i (c1, s1) = (Inr out, (c2, s'))"
    and c': "c' = async_write out c2"
    using assms(1) j a by (auto simp: connection_process_def andthen_def split: prod.splits sum.splits)
  have ncl: "cmd \<noteq> CLOSE" using assms(6) [OF j(1)] j(2) by (auto simp: closing_def)
  note a' = attach_balanced [OF a]
  note e' = respond_balanced [OF e ncl]
  have first: "cmd = OPEN" if "m_processor c = None"
  proof (rule ccontr)
    assume "cmd \<noteq> OPEN"
    with that a assms(4,5) show False
      by (auto simp: attach_def find_processor_def new_processor_def reset_processor_def Let_def)
  qed
  have t: "m_processor_opened c = (m_processor c \<noteq> None)" using assms(2,3) by (simp add: tidy_def)
  show ?thesis
    using a' e'(2-4) c' assms(3) t first
    by (auto simp: balanced_def uses_def e'(1))
qed

lemma handle_read_body_balanced:
  assumes "handle_read_body D db (Some bs) (c, s) = (Inr (), (c', s'))" "tidy c" "awaits c = For_body"
    "in_packet_id (m_in c) = []" "m_processors s [] = None"
    "length bs = unat (m_body_length (in_header (m_in c)))" "\<not> closing_event D (Body k (Some bs))"
  shows "balanced (c, s) (c', s') \<and> tidy c'"
proof -
  let ?c = "c\<lparr>m_in := fill_raw bs (m_in c)\<rparr>"
  obtain c1 where p: "connection_process D db (?c, s) = (Inr (), (c1, s'))" and c': "c' = async_read For_header c1"
    using assms(1) by (auto simp: handle_read_body_def andthen_def split: prod.splits sum.splits)
  have raw: "m_raw (m_in ?c) = Some (bs @ [NUL])"
    using assms(2,3,6) by (auto simp: tidy_def fill_raw_def)
  then have b: "body (m_in ?c) = Inr json \<Longrightarrow> json = c_str (drop packet_id_length bs)" for json
    by (auto simp: body_terminated split: if_splits)
  have "tidy ?c" using raw assms(2,6) by (auto simp: tidy_def fill_raw_def)
  then have "balanced (?c, s) (c1, s') \<and> m_processor_opened c1 \<and> m_processor c1 \<noteq> None \<and> awaits c1 = For_body"
    using b assms(3-5,7)
    by (intro connection_process_balanced [OF p]) (auto simp: in_packet_id_kept)
  then show ?thesis by (auto simp: c' balanced_def uses_def tidy_def)
qed

lemma handle_read_header_balanced:
  assumes "handle_read_header mem bytes (c, s) = (Inr (), (c', s'))" "tidy c" "awaits c = For_header"
    "\<And>i. m_processor c = Some i \<Longrightarrow> refs s i \<noteq> 0 \<and> m_processors s i \<noteq> None"
  shows "balanced (c, s) (c', s') \<and> tidy c'"
proof (cases bytes)
  case (Some bs)
  let ?h = "decode (fill_buffer bs (in_header (m_in c)))"
  obtain p where r: "reserve mem (m_body_length ?h) ((m_in c)\<lparr>in_header := ?h\<rparr>) = (Inr (), p)"
    and c': "c' = async_read For_body (c\<lparr>m_in := p\<rparr>)" "s' = s"
    using assms(1) Some by (auto simp: handle_read_header_def Let_def split: prod.splits sum.splits)
  have "\<exists>xs. m_raw p = Some (xs @ [NUL]) \<and> length xs = unat (m_body_length (in_header p))"
    using r by (auto simp: reserve_def Let_def split: if_splits)
  with c' assms(2,3) show ?thesis by (auto simp: balanced_def uses_def tidy_def)
next
  case None
  show ?thesis
  proof (cases "m_processor c")
    case (Some i)
    have o: "on_processor i close_processor s = (Inr (), s')" and c': "c' = c\<lparr>m_processor := None, awaits := For_nothing\<rparr>"
      using assms(1) None Some by (auto simp: handle_read_header_def split: prod.splits sum.splits)
    have n: "m_refcount p \<noteq> 0 \<Longrightarrow> close_processor p = (Inr x, p') \<Longrightarrow> m_refcount p' = m_refcount p + (- 1)" for p p' x
    proof -
      assume a: "m_refcount p \<noteq> 0" "close_processor p = (Inr x, p')"
      show "m_refcount p' = m_refcount p + (- 1)"
      proof (cases "m_refcount p > 1")
        case False
        then have "m_refcount p = 1" using a(1) by unat_arith
        with a(2) False show ?thesis by (auto simp: close_processor_def term_refcount)
      qed (use a(2) in \<open>auto simp: close_processor_def\<close>)
    qed
    obtain p where p: "m_processors s i = Some p" "m_refcount p \<noteq> 0"
      using assms(4) [OF Some] by (auto simp: refs_def split: option.splits)
    with o n [OF p(2)] have "refs s' j = refs s j + (if j = i then - 1 else 0)" for j
      by (auto simp: on_processor_def refs_def split: prod.splits)
    with Some c' show ?thesis by (auto simp: balanced_def uses_def tidy_def)
  qed (use assms(1,2) None in \<open>auto simp: handle_read_header_def balanced_def uses_def tidy_def\<close>)
qed

definition counted :: "'o server \<Rightarrow> bool" where
  "counted s \<longleftrightarrow> server_ok s \<and> (\<forall>k c. connections s k = Some c \<longrightarrow> tidy c) \<and>
     (\<forall>k c. accepting s = Some k \<and> connections s k = Some c \<longrightarrow>
        m_processor c = None \<and> \<not> m_processor_opened c \<and> awaits c = For_nothing) \<and>
     (\<forall>i. refs s i = word_of_nat (users s i))"

lemma users_update:
  assumes "finite (dom (connections s))" "connections s k = Some c"
    "connections s' = (connections s)(k \<mapsto> c')"
  shows "users s' i + uses c i = users s i + uses c' i"
proof -
  let ?A = "{j. j \<noteq> k \<and> (\<exists>c. connections s j = Some c \<and> m_processor c = Some i)}"
  have fin: "finite ?A" by (rule finite_subset [OF _ assms(1)]) auto
  have "{j. \<exists>c. connections s j = Some c \<and> m_processor c = Some i} =
      (if m_processor c = Some i then insert k ?A else ?A)"
    using assms(2) by auto
  then have "users s i = card ?A + uses c i" using fin by (simp add: users_def uses_def)
  moreover have "{j. \<exists>c. connections s' j = Some c \<and> m_processor c = Some i} =
      (if m_processor c' = Some i then insert k ?A else ?A)"
    using assms(3) by auto
  then have "users s' i = card ?A + uses c' i" using fin by (simp add: users_def uses_def)
  ultimately show ?thesis by simp
qed

lemma users_positive:
  assumes "server_ok s" "connections s k = Some c" "m_processor c = Some i"
    "card (dom (connections s)) < 2 ^ 64"
  shows "word_of_nat (users s i) \<noteq> (0 :: size_t)" "m_processors s i \<noteq> None"
proof -
  let ?A = "{j. \<exists>c. connections s j = Some c \<and> m_processor c = Some i}"
  have fin: "finite (dom (connections s))" using assms(1) by (simp add: server_ok_def)
  have "?A \<subseteq> dom (connections s)" by auto
  then have "card ?A \<le> card (dom (connections s))" "finite ?A"
    using fin by (auto intro: card_mono finite_subset)
  moreover have "k \<in> ?A" using assms(2,3) by auto
  ultimately have "0 < users s i" "users s i < 2 ^ 64"
    using assms(4) unfolding users_def by (auto simp: card_gt_0_iff)
  then have "unat (size_of_nat (users s i)) \<noteq> 0" by (simp add: unat_size_of_nat)
  then show "word_of_nat (users s i) \<noteq> (0 :: size_t)" by (auto simp: size_of_nat_def)
  show "m_processors s i \<noteq> None"
    using assms(1-3) by (auto simp: server_ok_def connection_ok_def known_def)
qed

text \<open>One handler, with what it does to its connection put back.\<close>

lemma counted_handler:
  assumes "counted s" "connections s k = Some c" "f (c, s) = (Inr (), (c', s'))" "allowed (c, s) (c', s')"
    "balanced (c, s) (c', s')" "tidy c'" "awaits c \<noteq> For_nothing"
  shows "counted (s'\<lparr>connections := (connections s')(k \<mapsto> c')\<rparr>)" (is "counted ?s")
proof -
  have ok: "server_ok s" using assms(1) by (simp add: counted_def)
  have conn: "connections s' = connections s" "accepting s' = accepting s"
    using assms(4) by (simp_all add: allowed_def)
  have "connection_ok s' c" if "connection_ok s c" for c
    using that assms(4) connection_ok_mono by (auto simp: allowed_def)
  then have "server_ok ?s" using ok assms(4) conn by (auto simp: server_ok_def allowed_def)
  moreover have "refs ?s i = word_of_nat (users ?s i)" for i
  proof -
    have "users ?s i + uses c i = users s i + uses c' i"
      using ok by (intro users_update [OF _ assms(2)]) (simp_all add: server_ok_def conn)
    then have "(word_of_nat (users ?s i) + word_of_nat (uses c i) :: size_t) =
        word_of_nat (users s i) + word_of_nat (uses c' i)"
      by (metis of_nat_add)
    moreover have "refs ?s i = refs s' i" by (simp add: refs_def)
    moreover have "refs s' i + word_of_nat (uses c i) = refs s i + word_of_nat (uses c' i)"
      using assms(5) by (simp add: balanced_def)
    moreover have "refs s i = word_of_nat (users s i)" using assms(1) by (simp add: counted_def)
    ultimately show ?thesis by (metis add_right_cancel)
  qed
  ultimately show ?thesis
    using assms(1,2,6,7) conn by (auto simp: counted_def)
qed

lemma counted_header:
  assumes "counted s" "server_step D mem db (Header k bytes) s = (Inr (), s')" "card (dom (connections s)) < 2 ^ 64"
  shows "counted s'"
proof -
  have ok: "server_ok s" using assms(1) by (simp add: counted_def)
  from assms(2) have "on_connection k (completes For_header bytes) (handle_read_header mem bytes) s = (Inr (), s')"
    by simp
  then show ?thesis
  proof (cases rule: on_connection_cases)
    case (handled c c' s1)
    have p: "processors_ok s" "connection_ok s c" "tidy c" "awaits c = For_header"
      using ok assms(1) handled(1,2) by (auto simp: server_ok_def counted_def completes_def)
    have "m_processor c = Some i \<Longrightarrow> refs s i \<noteq> 0 \<and> m_processors s i \<noteq> None" for i
      using users_positive [OF ok handled(1) _ assms(3)] assms(1) by (auto simp: counted_def)
    then have "balanced (c, s) (c', s1) \<and> tidy c'" "allowed (c, s) (c', s1)"
      using handle_read_header_balanced [OF handled(3) p(3,4)] handle_read_header_allowed [OF p(1,2) handled(3)]
      by auto
    then show ?thesis unfolding handled(4) using p(4)
      by (intro counted_handler [where f = "handle_read_header mem bytes", OF assms(1) handled(1,3)]) auto
  qed (use assms(1) in simp)
qed

lemma counted_body:
  assumes "counted s" "server_step D mem db (Body k bytes) s = (Inr (), s')" "\<not> closing_event D (Body k bytes)"
  shows "counted s'"
proof -
  have ok: "server_ok s" using assms(1) by (simp add: counted_def)
  from assms(2) have "on_connection k (completes For_body bytes) (handle_read_body D db bytes) s = (Inr (), s')"
    by simp
  then show ?thesis
  proof (cases rule: on_connection_cases)
    case (handled c c' s1)
    have p: "processors_ok s" "connection_ok s c" "tidy c" "awaits c = For_body"
      using ok assms(1) handled(1,2) by (auto simp: server_ok_def counted_def completes_def)
    obtain bs where bs: "bytes = Some bs" "length bs = unat (m_body_length (in_header (m_in c)))"
      using handled(2,3) by (cases bytes) (auto simp: handle_read_body_def completes_def asked_for_def)
    have "m_processors s [] = None"
      using p(1) by (cases "m_processors s []") (fastforce simp: processors_ok_def processor_ok_def)+
    then have "balanced (c, s) (c', s1) \<and> tidy c'" "allowed (c, s) (c', s1)"
      using handle_read_body_balanced [OF handled(3) [unfolded bs(1)] p(3,4) _ _ bs(2)]
        handle_read_body_allowed [OF p(1,2) handled(3)] p(2) assms(3) bs(1) by (auto simp: connection_ok_def)
    then show ?thesis unfolding handled(4) using p(4)
      by (intro counted_handler [where f = "handle_read_body D db bytes", OF assms(1) handled(1,3)]) auto
  qed (use assms(1) in simp)
qed

lemma counted_accepted:
  assumes "counted s" "server_step D mem db (Accepted j ok) s = (Inr (), s')"
  shows "counted s'"
proof -
  have ok: "server_ok s" using assms(1) by (simp add: counted_def)
  have ok': "server_ok s'" using server_step_ok [OF ok assms(2)] .
  show ?thesis
  proof (cases "s' = s")
    case False
    obtain k where k: "accepting s = Some k" "connections s j = None"
      and s': "s' = handle_accept (junk mem) k j ok s"
      using False assms(2) by (auto split: option.splits if_splits)
    have same: "m_processor (start_connection c) = m_processor c" for c by (simp add: start_connection_def)
    have "users s' i = users s i" for i
      unfolding users_def s' using k same
      by (intro arg_cong [of _ _ card])
        (auto simp: handle_accept_def make_connection_def new_connection_def Let_def split: if_splits)
    moreover have "refs s' i = refs s i" for i
      by (simp add: s' handle_accept_def make_connection_def refs_def Let_def)
    ultimately show ?thesis
      using ok' assms(1) k s'
      by (auto simp: counted_def handle_accept_def make_connection_def new_connection_def start_connection_def
          tidy_def Let_def split: if_splits)
  qed (use assms(1) in simp)
qed

lemma counted_written:
  assumes "counted s" "server_step D mem db (Written k ok) s = (Inr (), s')"
  shows "counted s'"
proof -
  have ok: "server_ok s" using assms(1) by (simp add: counted_def)
  have ok': "server_ok s'" using server_step_ok [OF ok assms(2)] .
  from assms(2) have "on_connection k (\<lambda>c. writes_pending c \<noteq> 0) (\<lambda>(c, s). (Inr (), (handle_write ok c, s))) s = (Inr (), s')"
    by simp
  then show ?thesis
  proof (cases rule: on_connection_cases)
    case (handled c c' s1)
    then have s': "s' = s\<lparr>connections := (connections s)(k \<mapsto> handle_write ok c)\<rparr>" by simp
    then have "users s' i + uses c i = users s i + uses (handle_write ok c) i" for i
      using ok by (intro users_update [OF _ handled(1)]) (simp_all add: server_ok_def)
    then have "users s' i = users s i" for i by (simp add: uses_def)
    moreover have "refs s' i = refs s i" for i by (simp add: s' refs_def)
    moreover have "tidy (handle_write ok c)" using assms(1) handled(1) by (simp add: counted_def tidy_def)
    ultimately show ?thesis using assms(1) ok' handled(1) by (auto simp: counted_def s')
  qed (use assms(1) in simp)
qed

lemma counted_step:
  assumes "counted s" "server_step D mem db e s = (Inr (), s')" "\<not> closing_event D e"
    "card (dom (connections s)) < 2 ^ 64"
  shows "counted s'"
proof (cases e)
  case (Threads i x w)
  have ok': "server_ok s'" using server_step_ok [OF _ assms(2)] assms(1) by (simp add: counted_def)
  have "refs s' j = refs s j" "users s' j = users s j" for j
    using Threads assms(2) by (auto simp: refs_def users_def split: option.splits if_splits)
  with ok' Threads assms(1,2) show ?thesis by (auto simp: counted_def)
next
  case (Header k bytes)
  show ?thesis by (rule counted_header [OF assms(1) assms(2) [unfolded Header] assms(4)])
next
  case (Body k bytes)
  show ?thesis by (rule counted_body [OF assms(1) assms(2,3) [unfolded Body]])
next
  case (Accepted j ok)
  show ?thesis by (rule counted_accepted [OF assms(1) assms(2) [unfolded Accepted]])
next
  case (Written k ok)
  show ?thesis by (rule counted_written [OF assms(1) assms(2) [unfolded Written]])
qed

lemma dom_grows:
  assumes "server_ok s" "server_step D mem db e s = (r, s')"
  shows "dom (connections s) \<subseteq> dom (connections s')"
proof (cases "\<exists>j ok. e = Accepted j ok")
  case True
  with assms(2) show ?thesis
    by (auto simp: handle_accept_def make_connection_def Let_def split: option.splits if_splits)
next
  case False
  with server_step_same [OF assms] show ?thesis by simp
qed

lemma run_grows:
  "run D mem es s = (r, s') \<Longrightarrow> server_ok s \<Longrightarrow> server_ok s' \<and> dom (connections s) \<subseteq> dom (connections s')"
proof (induction D mem es s rule: run.induct)
  case (2 D mem db e es s)
  obtain r1 s1 where s1: "server_step D mem db e s = (r1, s1)" by fastforce
  have "server_ok s1" "dom (connections s) \<subseteq> dom (connections s1)"
    using server_step_ok [OF 2(3) s1] dom_grows [OF 2(3) s1] by simp_all
  moreover have "server_ok s' \<and> dom (connections s1) \<subseteq> dom (connections s')"
    using 2(1) 2(2) s1 \<open>server_ok s1\<close> by (cases r1) (auto simp del: server_step.simps)
  ultimately show ?case by blast
qed simp

lemma counted_run:
  "run D mem es s = (Inr (), s') \<Longrightarrow> counted s \<Longrightarrow> \<forall>(db, e) \<in> set es. \<not> closing_event D e \<Longrightarrow>
    card (dom (connections s')) < 2 ^ 64 \<Longrightarrow> counted s'"
proof (induction D mem es s rule: run.induct)
  case (2 D mem db e es s)
  obtain s1 where s1: "server_step D mem db e s = (Inr (), s1)" "run D mem es s1 = (Inr (), s')"
    using "2.prems"(1) by (auto simp del: server_step.simps simp: andthen_def split: prod.splits sum.splits)
  have ok: "server_ok s" using "2.prems"(2) by (simp add: counted_def)
  have "server_ok s'" "dom (connections s) \<subseteq> dom (connections s')"
    using run_grows [OF "2.prems"(1) ok] by simp_all
  then have "card (dom (connections s)) < 2 ^ 64"
    using "2.prems"(4) card_mono [of "dom (connections s')" "dom (connections s)"] by (simp add: server_ok_def)
  then have "counted s1" using counted_step [OF "2.prems"(2) s1(1)] "2.prems"(3) by simp
  with "2.IH" [OF s1(2)] "2.prems"(3,4) show ?case by simp
qed simp

lemma users_start: "users (start_server mem n) i = 0"
  by (auto simp: users_def card_eq_0_iff start_server_def make_connection_def new_server_def new_connection_def Let_def
      split: if_splits)

lemma counted_start: "counted (start_server mem n)"
  unfolding counted_def users_start
  by (simp add: server_ok_start)
    (simp add: refs_def tidy_def start_server_def make_connection_def new_server_def new_connection_def Let_def)

text \<open>A client opens a read broker: its header and body arrive.\<close>

definition sample_opener :: "(bson, bson list) driver" where
  "sample_opener = sample_driver\<lparr>fromjson := \<lambda>_. Inr [(''cmd'', VInt 100), (''body'', VObj (sample_options []))],
     md5 := \<lambda>_. ''c''\<rparr>"

lemma sample_open_broker:
  "\<exists>b. open_broker sample_opener [] (Some (sample_options [])) (new_broker sample_opener) = (Inr (), b)"
  by (simp add: open_broker_def init_def load_options_def default_parameters_eq overflows_times5_def
      sample_opener_def sample_driver_simps sample_int_def sample_str_def sample_obj_def sample_options_def
      new_broker_def reset_def default_broker_def INT_MIN_def sprintf_into_def c_str_def show_int_def show_nat.simps Let_def)

lemma sample_open_processor:
  "new_processor sample_opener ''c'' = Inr p \<Longrightarrow>
    \<exists>out p'. process sample_opener [] OK OPEN (sample_options []) p = (Inr out, p')"
proof -
  assume "new_processor sample_opener ''c'' = Inr p"
  then have p: "m_read_broker p = new_broker sample_opener" "m_processor_id p = ''c''"
    by (auto simp: new_processor_def reset_processor_def Let_def)
  obtain b where b: "open_broker sample_opener [] (Some (sample_options [])) (new_broker sample_opener) = (Inr (), b)"
    using sample_open_broker by blast
  have "purpose_of_int (getIntField sample_opener (sample_options []) ''purpose'') = Read"
    by (simp add: sample_opener_def sample_driver_simps sample_int_def sample_options_def purpose_of_int_def)
  moreover have "\<exists>out. pack_response sample_opener (set_packet_id ''c'' new_out_packet) OK ''Open Action'' None = Inr out"
    using pack_frame [of "set_body [] (set_packet_id ''c'' new_out_packet)"]
    by (auto simp: pack_response_def get_response_string_def init_response_builder_def sample_opener_def
        sample_driver_simps sample_oid_def max_body_length_def c_str_def Let_def)
  ultimately show ?thesis
    using p b by (auto simp: process_def open_processor_def on_read_def new_broker_connected Let_def)
qed

lemma sample_open_run:
  "\<exists>s p. run sample_opener sample_memory [([], Accepted 1 True), ([], Header 0 (Some (pad_left 16 (show_nat 34)))),
      ([], Body 0 (Some (replicate 32 CHR '' '' @ ''{}'')))] (start_server sample_memory 0) = (Inr (), s) \<and>
     m_processors s ''c'' = Some p \<and> dom (connections s) \<subseteq> {0, 1} \<and>
     {k. \<exists>c. connections s k = Some c \<and> m_processor c = Some ''c''} = {0} \<and>
     (\<exists>c out. connections s 0 = Some c \<and> sent c = [out] \<and> awaits c = For_header \<and> read_alive c \<and>
       m_socket_open c \<and> writes_pending c = 1 \<and> m_processor c = Some ''c'' \<and> m_processor_opened c)"
proof -
  let ?es = "[([], Accepted 1 True), ([], Header 0 (Some (pad_left 16 (show_nat 34))))]"
  let ?bs = "replicate 32 CHR '' '' @ ''{}''"
  obtain c s where r: "run sample_opener sample_memory ?es (start_server sample_memory 0) = (Inr (), s)"
      "connections s 0 = Some c" "completes For_body (Some ?bs) c" "m_processor c = None" "\<not> m_processor_opened c"
      "m_processors s = (\<lambda>_. None)" "\<forall>k. k \<noteq> 0 \<longrightarrow> connections s k = None \<or> k = 1"
      "\<forall>c. connections s 1 = Some c \<longrightarrow> m_processor c = None" "m_body_length (in_header (m_in c)) = 34"
      "\<exists>raw. m_raw (m_in c) = Some (raw @ [NUL]) \<and> length raw = 34" "sent c = []"
      "m_socket_open c" "writes_pending c = 0"
    using sample_header_run [of sample_opener] by (fastforce simp: completes_def asked_for_def)
  have b: "body (fill_raw ?bs (m_in c)) = Inr ''{}''"
    using r(10) by (auto simp: body_def fill_raw_def c_str_at_def c_str_def packet_id_length_def)
  have p: "parse_request sample_opener ''{}'' = Inr (OK, OPEN, sample_options [])"
    by (simp add: parse_request_def sample_opener_def sample_driver_simps sample_int_def command_of_int_def
        MaxCmd_def MinCmd_def sample_obj_def Let_def)
  have h: "broker_hash sample_opener (sample_options []) = ''c''"
    by (simp add: broker_hash_def sample_opener_def sample_driver_simps sample_str_def sample_options_def)
  obtain p where n: "new_processor sample_opener ''c'' = Inr p" "m_processor_id p = ''c''"
    by (auto simp: new_processor_def reset_processor_def Let_def)
  obtain out p' where o: "process sample_opener [] OK OPEN (sample_options []) p = (Inr out, p')"
    using sample_open_processor [OF n(1)] by blast
  obtain c' s' where s': "server_step sample_opener sample_memory [] (Body 0 (Some ?bs)) s = (Inr (), s')"
      "connections s' = (connections s)(0 \<mapsto> c')" "m_processor c' = Some ''c''" "m_processors s' ''c'' = Some p'" "sent c' = [out]"
      "awaits c' = For_header" "read_alive c'" "m_socket_open c'" "writes_pending c' = 1" "m_processor_opened c'"
    using r b p h n o
    by (auto simp: on_connection_def handle_read_body_def connection_process_def attach_def find_processor_def
        respond_def on_processor_def Let_def)
  have "run sample_opener sample_memory (?es @ [([], Body 0 (Some ?bs))]) (start_server sample_memory 0) = (Inr (), s')"
    unfolding run_append using r(1) s'(1) by (simp del: server_step.simps)
  moreover have "{k. \<exists>c. connections s' k = Some c \<and> m_processor c = Some ''c''} = {0}"
  proof (intro equalityI subsetI)
    fix k
    assume "k \<in> {k. \<exists>c. connections s' k = Some c \<and> m_processor c = Some ''c''}"
    with r(7) [rule_format, of k] r(8) s'(2) show "k \<in> {0}" by (auto split: if_splits)
  qed (use s'(2,3) in auto)
  moreover have "dom (connections s') \<subseteq> {0, 1}"
  proof
    fix k
    assume "k \<in> dom (connections s')"
    with s'(2) have "connections s k \<noteq> None \<or> k = 0" by (auto split: if_splits)
    with r(7) [rule_format, of k] show "k \<in> {0, 1}" by (cases "k = 0") auto
  qed
  ultimately show ?thesis using s'(2-) by (intro exI [of _ s'] exI [of _ p']) simp
qed

text \<open>
  C23: Users are counted right as long as no client closes. In every run of the server from its
  start in which no handler fails and no request is a \<open>CLOSE\<close>, with fewer than \<open>2 ^ 64\<close> connections, the reference count of each
  processor is the number of connections that use it, which are those that opened it and did
  not disconnect yet.
\<close>

theorem users_counted:
  assumes "run D mem es (start_server mem n) = (Inr (), s)" "\<forall>(db, e) \<in> set es. \<not> closing_event D e"
    "card (dom (connections s)) < 2 ^ 64" "m_processors s i = Some p"
  shows "m_refcount p = word_of_nat (card {k. \<exists>c. connections s k = Some c \<and> m_processor c = Some i}) \<and>
    (\<forall>k c. connections s k = Some c \<and> m_processor c = Some i \<longrightarrow> m_processor_opened c)"
  using counted_run [OF assms(1) counted_start assms(2,3)] assms(4)
  by (auto simp: counted_def refs_def users_def tidy_def split: option.splits)


theorem users_counted_witness:
  "\<exists>s p. run sample_opener sample_memory [([], Accepted 1 True), ([], Header 0 (Some (pad_left 16 (show_nat 34)))),
      ([], Body 0 (Some (replicate 32 CHR '' '' @ ''{}'')))] (start_server sample_memory 0) = (Inr (), s) \<and>
     m_processors s ''c'' = Some p \<and> m_refcount p = 1"
proof -
  obtain s p where s: "run sample_opener sample_memory [([], Accepted 1 True), ([], Header 0 (Some (pad_left 16 (show_nat 34)))),
      ([], Body 0 (Some (replicate 32 CHR '' '' @ ''{}'')))] (start_server sample_memory 0) = (Inr (), s)"
      "m_processors s ''c'' = Some p" "dom (connections s) \<subseteq> {0, 1}"
      "{k. \<exists>c. connections s k = Some c \<and> m_processor c = Some ''c''} = {0}"
    using sample_open_run by blast
  have "\<not> closing sample_opener json" for json
    by (simp add: closing_def parse_request_def sample_opener_def sample_driver_simps sample_int_def
        command_of_int_def Let_def)
  then have "m_refcount p = word_of_nat (card {k. \<exists>c. connections s k = Some c \<and> m_processor c = Some ''c''})"
    using users_counted [OF s(1) _ _ s(2)] card_mono [OF _ s(3)] by simp
  with s show ?thesis by (intro exI [of _ s] exI [of _ p]) simp
qed

end
