(* ===== verification/Connection_Input.thy ===== *)
theory Connection_Input
  imports User_Counts
begin

text \<open>
  Packets that arrive on a connection: in all runs of the server a connection's input buffers fit
  what it waits for, so that the two completions of a whole packet hand its body to the request,
  whatever the connection received before.
\<close>

section \<open>Input buffers\<close>

definition input_ok :: "connection \<Rightarrow> bool" where
  "input_ok c \<longleftrightarrow> header_ok (in_header (m_in c)) \<and>
     (awaits c = For_body \<longrightarrow> (\<exists>xs. m_raw (m_in c) = Some (xs @ [NUL]) \<and>
        length xs = unat (m_body_length (in_header (m_in c)))))"

definition inputs_ok :: "'o server \<Rightarrow> bool" where
  "inputs_ok s \<longleftrightarrow> server_ok s \<and> (\<forall>k c. connections s k = Some c \<longrightarrow> input_ok c)"

lemma input_ok_cong: "m_in c' = m_in c \<Longrightarrow> awaits c' = awaits c \<Longrightarrow> input_ok c' = input_ok c"
  by (simp add: input_ok_def)

lemma attach_in: "attach D cmd obj (c, s) = (r, (c', s')) \<Longrightarrow> m_in c' = m_in c \<and> awaits c' = awaits c"
  by (auto simp: attach_def Let_def split: option.splits prod.splits sum.splits)

lemma respond_in: "respond D db res cmd obj i (c, s) = (r, (c', s')) \<Longrightarrow> m_in c' = m_in c \<and> awaits c' = awaits c"
  by (auto simp: respond_def split: if_splits prod.splits sum.splits)

lemma connection_process_in:
  assumes "connection_process D db (c, s) = (r, (c', s'))"
  shows "m_in c' = m_in c \<and> awaits c' = awaits c"
  using assms
  by (auto simp: connection_process_def andthen_def dest!: attach_in respond_in split: sum.splits prod.splits)

lemma header_ok_fill: "header_ok h \<Longrightarrow> length bs = header_length \<Longrightarrow> header_ok (fill_buffer bs h)"
  using fill_buffer_whole [of h bs] by (simp add: header_ok_def nth_append)

lemma handle_read_header_input:
  assumes "handle_read_header mem bytes (c, s) = (r, (c', s'))" "completes For_header bytes c" "input_ok c"
  shows "input_ok c'"
proof (cases bytes)
  case (Some bs)
  let ?h = "decode (fill_buffer bs (in_header (m_in c)))"
  have h: "header_ok ?h" using assms(2,3) Some by (auto simp: completes_def asked_for_def input_ok_def intro: header_ok_fill)
  have a: "awaits c = For_header" using assms(2) by (simp add: completes_def)
  obtain r1 p where r: "reserve mem (m_body_length ?h) ((m_in c)\<lparr>in_header := ?h\<rparr>) = (r1, p)" by fastforce
  then have "in_header p = ?h"
    "r1 = Inr () \<Longrightarrow> \<exists>xs. m_raw p = Some (xs @ [NUL]) \<and> length xs = unat (m_body_length ?h)"
    by (auto simp: reserve_def Let_def split: if_splits)
  with assms(1) Some a h r show ?thesis
    by (cases r1) (auto simp: handle_read_header_def input_ok_def Let_def)
next
  case None
  with assms show ?thesis
    by (auto simp: handle_read_header_def input_ok_def completes_def split: option.splits prod.splits sum.splits)
qed

lemma handle_read_body_input:
  assumes "handle_read_body D db bytes (c, s) = (r, (c', s'))" "completes For_body bytes c" "input_ok c"
  shows "input_ok c'"
proof (cases bytes)
  case (Some bs)
  let ?c = "c\<lparr>m_in := fill_raw bs (m_in c)\<rparr>"
  obtain r1 c1 s1 where p: "connection_process D db (?c, s) = (r1, (c1, s1))" by (metis prod.exhaust)
  have "input_ok ?c" using assms(2,3) Some by (auto simp: input_ok_def fill_raw_def completes_def asked_for_def)
  with connection_process_in [OF p] have "input_ok c1" using input_ok_cong [of c1 ?c] by simp
  with assms(1) Some p show ?thesis by (cases r1) (auto simp: handle_read_body_def input_ok_def)
qed (use assms in \<open>simp add: handle_read_body_def\<close>)

lemma on_connection_input:
  assumes "inputs_ok s" "on_connection k possible f s = (r, s')" "server_ok s'"
    and "\<And>c r cs'. processors_ok s \<Longrightarrow> connection_ok s c \<Longrightarrow> f (c, s) = (r, cs') \<Longrightarrow> allowed (c, s) cs'"
    and "\<And>c r c' s1. f (c, s) = (r, (c', s1)) \<Longrightarrow> possible c \<Longrightarrow> input_ok c \<Longrightarrow> input_ok c'"
  shows "inputs_ok s'"
  using assms(2)
proof (cases rule: on_connection_cases)
  case (handled c c' s1)
  have "processors_ok s" "connection_ok s c" "input_ok c"
    using assms(1) handled(1) by (auto simp: inputs_ok_def server_ok_def)
  with assms(4) [OF this(1,2) handled(3)] assms(5) [OF handled(3,2)] assms(1,3) handled(4)
  show ?thesis by (auto simp: inputs_ok_def allowed_def)
qed (use assms(1) in simp)

lemma server_step_inputs:
  assumes "inputs_ok s" "server_step D mem db e s = (r, s')"
  shows "inputs_ok s'"
proof -
  have ok: "server_ok s'" using assms by (auto simp: inputs_ok_def intro: server_step_ok)
  show ?thesis
  proof (cases e)
    case (Accepted j b)
    with assms ok show ?thesis
      by (auto simp: inputs_ok_def handle_accept_def make_connection_def new_connection_def start_connection_def
          input_ok_def new_in_packet_def Let_def split: if_splits option.splits)
  next
    case (Header k bytes)
    with assms(2) have "on_connection k (completes For_header bytes) (handle_read_header mem bytes) s = (r, s')" by simp
    then show ?thesis
      by (rule on_connection_input [OF assms(1) _ ok handle_read_header_allowed handle_read_header_input])
  next
    case (Body k bytes)
    with assms(2) have "on_connection k (completes For_body bytes) (handle_read_body D db bytes) s = (r, s')" by simp
    then show ?thesis
      by (rule on_connection_input [OF assms(1) _ ok handle_read_body_allowed handle_read_body_input])
  next
    case (Written k b)
    with assms(2) have "on_connection k (\<lambda>c. writes_pending c \<noteq> 0) (\<lambda>(c, s). (Inr (), (handle_write b c, s))) s = (r, s')"
      by simp
    then show ?thesis
      by (rule on_connection_input [OF assms(1) _ ok handle_write_allowed]) (auto simp: input_ok_def)
  next
    case (Threads i x w)
    with assms ok show ?thesis by (auto simp: inputs_ok_def)
  qed
qed

lemma inputs_ok_start: "inputs_ok (start_server mem n)"
  using server_ok_start [of mem n]
  by (auto simp: inputs_ok_def start_server_def make_connection_def new_server_def new_connection_def
      input_ok_def new_in_packet_def Let_def split: if_splits)

interpretation inputs: step_invariant "\<lambda>s. \<exists>n. s = start_server mem n" "server_moves D mem" inputs_ok
  for D :: "('o, 'db) driver" and mem
  by unfold_locales (auto simp: inputs_ok_start server_moves_def intro: server_step_inputs)

lemma run_inputs: "run D mem es (start_server mem n) = (r, s) \<Longrightarrow> inputs_ok s"
  by (rule inputs.reachable_holds, erule run_reachable, rule reachable.start) blast

section \<open>A whole packet\<close>

lemma frame_parts:
  assumes "length i \<le> 32" "length json + 32 < 2 ^ 31"
  shows "length (take header_length (frame_of i json)) = header_length"
    and "drop header_length (frame_of i json) = pad_left 32 i @ json"
    and "announced (take header_length (frame_of i json)) = size_of_nat (length json + 32)"
proof -
  have "length (show_nat (length json + 32)) \<le> 10" using assms(2) by (intro length_show_nat) auto
  then have l: "length (pad_left 16 (show_nat (length json + 32))) = header_length"
    by (simp add: header_length_def)
  then have t: "take header_length (frame_of i json) = pad_left 16 (show_nat (length json + 32))"
    by (simp add: frame_of_def packet_id_length_def)
  with l show "length (take header_length (frame_of i json)) = header_length" by simp
  show "drop header_length (frame_of i json) = pad_left 32 i @ json"
    using l by (simp add: frame_of_def packet_id_length_def)
  show "announced (take header_length (frame_of i json)) = size_of_nat (length json + 32)"
    unfolding t by (rule announced_padded) (use assms(2) in simp)
qed

text \<open>
  A whole packet is received. In every run of the server, when a client whose connection waits
  for a header sends a packet with any body below \<open>2 ^ 31\<close> bytes that the allocator has room for,
  the header is accepted, the connection then waits for exactly the rest of the packet, and with
  it \<open>connection::process\<close> sees the JSON text that was sent; the id in the packet is not looked at.
\<close>

lemma packet_arrives:
  assumes "run D mem es (start_server mem n) = (Inr (), s)" "connections s k = Some c"
    "awaits c = For_header" "read_alive c" "m_socket_open c"
    "length i \<le> 32" "length json + 32 < 2 ^ 31" "NUL \<notin> set json" "can_alloc mem (size_of_nat (length json + 32) + 1)"
  shows "\<exists>s' c'. run D mem (es @ [(db, Header k (Some (take 16 (frame_of i json))))]) (start_server mem n) = (Inr (), s') \<and>
    connections s' = (connections s)(k \<mapsto> c') \<and> m_processors s' = m_processors s \<and>
    completes For_body (Some (drop 16 (frame_of i json))) c' \<and>
    body (fill_raw (drop 16 (frame_of i json)) (m_in c')) = Inr json \<and> in_packet_id (m_in c') = [] \<and>
    m_processor c' = m_processor c \<and> m_processor_opened c' = m_processor_opened c \<and>
    writes_pending c' = writes_pending c \<and> sent c' = sent c \<and> m_socket_open c'"
proof -
  let ?f = "frame_of i json" and ?sz = "size_of_nat (length json + 32)"
  note f = frame_parts [OF assms(6,7), unfolded header_length_def]
  have ok: "input_ok c" "in_packet_id (m_in c) = []"
    using run_inputs [OF assms(1)] assms(2) by (auto simp: inputs_ok_def server_ok_def connection_ok_def)
  have sz: "unat ?sz = length json + 32" "?sz \<noteq> ULONG_MAX"
    using assms(7) by (auto intro!: unat_size_of_nat size_of_nat_not_max)
  let ?h = "decode (fill_buffer (take 16 ?f) (in_header (m_in c)))"
  have h: "m_body_length ?h = ?sz"
    using decode_filled [of "in_header (m_in c)" "take 16 ?f"] ok(1) f by (simp add: input_ok_def header_length_def)
  let ?p = "(m_in c)\<lparr>in_header := ?h, m_raw := Some (map (junk mem) [0..<unat ?sz] @ [NUL])\<rparr>"
  let ?c = "async_read For_body (c\<lparr>m_in := ?p\<rparr>)"
  have q: "completes For_header (Some (take 16 ?f)) c"
    using assms(3,4) f(1) by (simp add: completes_def asked_for_def header_length_def)
  have "server_step D mem db (Header k (Some (take 16 ?f))) s = (Inr (), s\<lparr>connections := (connections s)(k \<mapsto> ?c)\<rparr>)"
    using q assms(2) reserve_ok [OF assms(9) sz(2)]
    by (simp add: on_connection_def handle_read_header_def h Let_def)
  then have "run D mem (es @ [(db, Header k (Some (take 16 ?f)))]) (start_server mem n) =
      (Inr (), s\<lparr>connections := (connections s)(k \<mapsto> ?c)\<rparr>)"
    unfolding run_append using assms(1) by (simp del: server_step.simps)
  moreover have "completes For_body (Some (drop 16 ?f)) ?c"
    using assms(5,6) f(2) sz(1) by (simp add: completes_def asked_for_def h)
  moreover have "m_raw (fill_raw (drop 16 ?f) ?p) = Some (drop 16 ?f @ [NUL])"
    using assms(6) f(2) sz(1) by (simp add: fill_raw_def)
  from body_terminated [OF this] have "body (fill_raw (drop 16 ?f) ?p) = Inr json"
    using assms(6,8) f(2) by (simp add: packet_id_length_def c_str_id)
  ultimately show ?thesis using ok(2) assms(5)
    by (intro exI [of _ "s\<lparr>connections := (connections s)(k \<mapsto> ?c)\<rparr>"] exI [of _ ?c]) simp
qed

end
