(* ===== verification/Connection_Writes.thy ===== *)
theory Connection_Writes
  imports Connection_Input
begin

text \<open>
  The network side of one connection: its socket, the read and the writes that are pending. Every
  event of the server is a step of a small state machine on these fields, from which follows what
  a failed write leads to and when the send buffer is overwritten under a pending write.
\<close>

section \<open>Steps of one connection\<close>

definition same_net :: "connection \<Rightarrow> connection \<Rightarrow> bool" where
  "same_net c c' \<longleftrightarrow> m_socket_open c' = m_socket_open c \<and> awaits c' = awaits c \<and> read_alive c' = read_alive c \<and>
     writes_pending c' = writes_pending c \<and> sent c' = sent c \<and> overwritten c' = overwritten c"

inductive connection_step :: "nat \<Rightarrow> event \<Rightarrow> connection \<Rightarrow> connection \<Rightarrow> bool" for k where
  unchanged: "same_net c c' \<Longrightarrow> \<forall>ok. e = Written k ok \<longrightarrow> writes_pending c = 0 \<Longrightarrow> connection_step k e c c'"
| started: "same_net (start_connection c) c' \<Longrightarrow> connection_step k (Accepted j True) c c'"
| header_read: "awaits c = For_header \<Longrightarrow> read_alive c \<Longrightarrow> same_net (async_read For_body c) c' \<Longrightarrow>
    connection_step k (Header k (Some bs)) c c'"
| header_failed: "awaits c = For_header \<Longrightarrow> same_net (c\<lparr>awaits := For_nothing\<rparr>) c' \<Longrightarrow>
    connection_step k (Header k None) c c'"
| request: "awaits c = For_body \<Longrightarrow> read_alive c \<Longrightarrow>
    same_net (async_read For_header (async_write out c)) c' \<Longrightarrow> connection_step k (Body k (Some bs)) c c'"
| written: "writes_pending c \<noteq> 0 \<Longrightarrow> same_net (handle_write ok c) c' \<Longrightarrow> connection_step k (Written k ok) c c'"

lemma attach_net: "attach D cmd obj (c, s) = (r, (c', s')) \<Longrightarrow> same_net c c'"
  by (auto simp: attach_def same_net_def Let_def split: option.splits prod.splits sum.splits)

lemma respond_net: "respond D db res cmd obj i (c, s) = (r, (c', s')) \<Longrightarrow> same_net c c'"
  by (auto simp: respond_def same_net_def split: if_splits prod.splits sum.splits)

lemma same_net_trans: "same_net c c' \<Longrightarrow> same_net c' c'' \<Longrightarrow> same_net c c''"
  by (simp add: same_net_def)

lemma same_net_refl [simp]: "same_net c c" by (simp add: same_net_def)

lemma step_refl: "\<forall>ok. e = Written k ok \<longrightarrow> writes_pending c = 0 \<Longrightarrow> connection_step k e c c"
  by (rule unchanged) simp_all

lemma same_net_write: "same_net c c' \<Longrightarrow> same_net (async_write out c) (async_write out c')"
  by (simp add: same_net_def)

lemma same_net_read: "same_net c c' \<Longrightarrow> same_net (async_read w c) (async_read w c')"
  by (simp add: same_net_def)

text \<open>A request is answered by one write, or it fails and ends the server without one.\<close>

lemma connection_process_net:
  assumes "connection_process D db (c, s) = (r, (c', s'))"
  shows "(\<exists>e. r = Inl e) \<and> same_net c c' \<or> r = Inr () \<and> (\<exists>out. same_net (async_write out c) c')"
proof (cases "\<exists>json res cmd obj. body (m_in c) = Inr json \<and> parse_request D json = Inr (res, cmd, obj)")
  case True
  then obtain json res cmd obj where b: "body (m_in c) = Inr json" "parse_request D json = Inr (res, cmd, obj)"
    by auto
  obtain r1 c1 s1 where at: "attach D cmd obj (c, s) = (r1, (c1, s1))" by (metis prod.exhaust)
  note a = attach_net [OF at]
  show ?thesis
  proof (cases r1)
    case (Inr i)
    obtain r2 c2 s2 where e: "respond D db res cmd obj i (c1, s1) = (r2, (c2, s2))" by (metis prod.exhaust)
    from same_net_trans [OF a respond_net [OF e]] show ?thesis
      using assms b at e Inr by (cases r2) (auto simp: connection_process_def intro: same_net_write)
  qed (use assms b at a in \<open>auto simp: connection_process_def\<close>)
next
  case False
  with assms show ?thesis by (auto simp: connection_process_def split: sum.splits)
qed

lemma handle_read_header_net:
  assumes "handle_read_header mem bytes (c, s) = (r, (c', s'))" "completes For_header bytes c"
  shows "connection_step k (Header k bytes) c c'"
proof (cases bytes)
  case (Some bs)
  with assms show ?thesis
    by (auto simp: handle_read_header_def completes_def Let_def same_net_def
        intro: unchanged header_read split: prod.splits sum.splits)
next
  case None
  with assms show ?thesis
    by (auto simp: handle_read_header_def completes_def same_net_def
        intro: unchanged header_failed split: prod.splits sum.splits option.splits)
qed

lemma handle_read_body_net:
  assumes "handle_read_body D db bytes (c, s) = (r, (c', s'))" "completes For_body bytes c"
  shows "connection_step k (Body k bytes) c c'"
proof (cases bytes)
  case (Some bs)
  let ?c = "c\<lparr>m_in := fill_raw bs (m_in c)\<rparr>"
  obtain r1 c1 s1 where p: "connection_process D db (?c, s) = (r1, (c1, s1))" by (metis prod.exhaust)
  have c: "same_net c ?c" "awaits c = For_body" "read_alive c"
    using assms(2) Some by (simp_all add: same_net_def completes_def)
  consider e where "r1 = Inl e" "same_net c c1" | out where "r1 = Inr ()" "same_net (async_write out c) c1"
    using connection_process_net [OF p] same_net_trans [OF c(1)] same_net_trans [OF same_net_write [OF c(1)]] by blast
  then show ?thesis
  proof cases
    case 1
    with assms(1) p Some show ?thesis by (auto simp: handle_read_body_def intro: unchanged)
  next
    case 2
    then have "c' = async_read For_header c1" using assms(1) p Some by (simp add: handle_read_body_def)
    with same_net_read [OF 2(2)] c(2,3) show ?thesis unfolding Some by (auto intro: request)
  qed
next
  case None
  with assms(1) show ?thesis by (simp add: handle_read_body_def step_refl)
qed

text \<open>What an event of the server does to a connection that exists, and which connections it makes.\<close>

lemma server_step_connection:
  assumes "server_ok s" "server_step D mem db e s = (r, s')" "connections s k = Some c"
  shows "\<exists>c'. connections s' k = Some c' \<and> connection_step k e c c'"
proof -
  have put_back: "\<exists>c'. connections s' k = Some c' \<and> connection_step k e c c'"
    if "on_connection i possible f s = (r, s')"
      "\<And>c r cs'. processors_ok s \<Longrightarrow> connection_ok s c \<Longrightarrow> f (c, s) = (r, cs') \<Longrightarrow> allowed (c, s) cs'"
      "\<And>c r c' s1. i = k \<Longrightarrow> f (c, s) = (r, (c', s1)) \<Longrightarrow> possible c \<Longrightarrow> connection_step k e c c'"
      "\<forall>ok. e = Written k ok \<longrightarrow> i = k \<and> possible = (\<lambda>c. writes_pending c \<noteq> 0)" for i possible f
    using that(1)
  proof (cases rule: on_connection_cases)
    case skipped
    with that(4) assms(3) have "\<forall>ok. e = Written k ok \<longrightarrow> writes_pending c = 0" by fastforce
    with skipped(2) assms(3) show ?thesis by (auto simp: step_refl)
  next
    case (handled c0 c' s1)
    have "processors_ok s" "connection_ok s c0" using assms(1) handled(1) by (auto simp: server_ok_def)
    from that(2) [OF this handled(3)] have "connections s1 = connections s" by (simp add: allowed_def)
    with handled assms(3) that(3) [OF _ handled(3,2)] that(4) show ?thesis
      by (cases "i = k") (auto simp: step_refl)
  qed
  show ?thesis
  proof (cases e)
    case (Accepted j ok)
    with assms(2,3) show ?thesis
      by (auto simp: handle_accept_def make_connection_def Let_def step_refl started [OF same_net_refl]
          split: option.splits if_splits)
  next
    case (Header i bytes)
    with assms(2) have "on_connection i (completes For_header bytes) (handle_read_header mem bytes) s = (r, s')" by simp
    then show ?thesis by (rule put_back) (auto simp: Header intro: handle_read_header_allowed handle_read_header_net)
  next
    case (Body i bytes)
    with assms(2) have "on_connection i (completes For_body bytes) (handle_read_body D db bytes) s = (r, s')" by simp
    then show ?thesis by (rule put_back) (auto simp: Body intro: handle_read_body_allowed handle_read_body_net)
  next
    case (Written i ok)
    with assms(2) have "on_connection i (\<lambda>c. writes_pending c \<noteq> 0) (\<lambda>(c, s). (Inr (), (handle_write ok c, s))) s = (r, s')"
      by simp
    then show ?thesis by (rule put_back) (auto simp: Written intro: handle_write_allowed written)
  next
    case (Threads i x w)
    with assms(2,3) show ?thesis by (auto simp: step_refl)
  qed
qed

lemma server_step_new:
  assumes "server_ok s" "server_step D mem db e s = (r, s')" "connections s k = None" "connections s' k = Some c"
  shows "\<exists>j i. c = new_connection j i"
proof (cases "\<exists>j ok. e = Accepted j ok")
  case True
  with assms(2-4) show ?thesis
    by (auto simp: handle_accept_def make_connection_def Let_def split: option.splits if_splits) blast+
next
  case False
  from server_step_same [OF assms(1,2) this] have "dom (connections s') = dom (connections s)" by simp
  with assms(3,4) show ?thesis by blast
qed

section \<open>Properties of a connection along a run\<close>

text \<open>
  A property of one connection (if it exists) and of the events to come: what each step keeps
  holds wherever the run gets.
\<close>

locale connection_property =
  fixes k :: nat and P :: "event list \<Rightarrow> connection option \<Rightarrow> bool"
  assumes absent: "P (e # es) None \<Longrightarrow> P es None"
    and made: "P (e # es) None \<Longrightarrow> P es (Some (new_connection j i))"
    and step: "P (e # es) (Some c) \<Longrightarrow> connection_step k e c c' \<Longrightarrow> P es (Some c')"
begin

lemma server_step_keeps:
  assumes "server_ok s" "server_step D mem db e s = (r, s')" "P (e # es) (connections s k)"
  shows "P es (connections s' k)"
proof (cases "connections s k")
  case None
  with assms(3) server_step_new [OF assms(1,2) None] show ?thesis
    by (cases "connections s' k") (auto intro: absent made)
next
  case (Some c)
  from server_step_connection [OF assms(1,2) this] obtain c'
    where "connections s' k = Some c'" "connection_step k e c c'" by blast
  with step assms(3) Some show ?thesis by auto
qed

lemma run_keeps:
  "run D mem es s = (r, s') \<Longrightarrow> server_ok s \<Longrightarrow> P (map snd es) (connections s k) \<Longrightarrow>
    \<exists>es'. P es' (connections s' k)"
proof (induction D mem es s rule: run.induct)
  case (2 D mem db e es s)
  obtain r1 s1 where s1: "server_step D mem db e s = (r1, s1)" by fastforce
  have ok: "server_ok s1" by (rule server_step_ok [OF "2.prems"(2) s1])
  have p: "P (map snd es) (connections s1 k)"
    using server_step_keeps [OF "2.prems"(2) s1] "2.prems"(3) by simp
  show ?case
  proof (cases r1)
    case (Inl e)
    with "2.prems"(1) s1 have "s' = s1" by (simp del: server_step.simps)
    with p show ?thesis by blast
  next
    case (Inr u)
    with "2.prems"(1) s1 have "run D mem es s1 = (r, s')" by (simp del: server_step.simps)
    from "2.IH" [OF this ok p] show ?thesis .
  qed
qed auto

end

section \<open>The server refines the connections' state machine\<close>







section \<open>After a failed write\<close>

text \<open>
  On a closed socket a body can still arrive only if its read was asked for before: this bounds
  the requests that the connection can still make.
\<close>

definition requests_left :: "connection \<Rightarrow> nat" where
  "requests_left c = (if awaits c = For_body \<and> read_alive c then 1 else 0)"

definition closed_within :: "nat \<Rightarrow> event list \<Rightarrow> connection option \<Rightarrow> bool" where
  "closed_within n es co = (case co of None \<Rightarrow> False
     | Some c \<Rightarrow> \<not> m_socket_open c \<and> length (sent c) + requests_left c \<le> n)"

interpretation closed: connection_property k "closed_within n" for k n
proof unfold_locales
  fix e es c c'
  assume p: "closed_within n (e # es) (Some c)" and s: "connection_step k e c c'"
  from s p show "closed_within n es (Some c')"
    by cases (auto simp: closed_within_def requests_left_def same_net_def start_connection_def split: if_splits)
qed (simp_all add: closed_within_def)

text \<open>
  C20: After a failed write a connection is finished: in every run that goes on after the failure,
  whatever its client sent, at most one more request of the connection is handled, and none if
  no body was awaited when the write failed.
\<close>

theorem failed_write_ends_connection:
  assumes "run D mem es (start_server mem n) = (Inr (), s)" "connections s k = Some c" "writes_pending c \<noteq> 0"
    "run D mem ((db, Written k False) # es') s = (r, s')"
  shows "\<exists>c'. connections s' k = Some c' \<and> \<not> m_socket_open c' \<and>
    length (sent c') \<le> length (sent c) + (if awaits c = For_body then 1 else 0)"
proof -
  have ok: "server_ok s" by (rule run_ok [OF assms(1)])
  let ?s = "s\<lparr>connections := (connections s)(k \<mapsto> handle_write False c)\<rparr>"
  let ?n = "length (sent c) + (if awaits c = For_body then 1 else 0)"
  have w: "server_step D mem db (Written k False) s = (Inr (), ?s)"
    using assms(2,3) by (simp add: on_connection_def)
  then have "run D mem es' ?s = (r, s')" using assms(4) by simp
  moreover have "closed_within ?n (map snd es') (connections ?s k)"
    by (simp add: closed_within_def requests_left_def)
  ultimately obtain es'' where "closed_within ?n es'' (connections s' k)"
    using closed.run_keeps server_step_ok [OF ok w] by blast
  then show ?thesis by (auto simp: closed_within_def split: option.splits)
qed

text \<open>
  A failed write can end the server for everybody. When the header of a next request has
  arrived already, its handler asks for a body on the socket that was closed, which can only
  fail, and the handler of the body throws the error code.
\<close>

theorem failed_write_can_terminate:
  assumes "run D mem es (start_server mem n) = (Inr (), s)" "connections s k = Some c" "writes_pending c \<noteq> 0"
    "completes For_header (Some bs) c"
    "fst (reserve mem (m_body_length (decode (fill_buffer bs (in_header (m_in c)))))
       ((m_in c)\<lparr>in_header := decode (fill_buffer bs (in_header (m_in c)))\<rparr>)) = Inr ()"
  shows "\<exists>s'. run D mem (es @ [(db, Written k False), (db, Header k (Some bs))]) (start_server mem n) = (Inr (), s') \<and>
    (\<forall>body. server_step D mem db' (Body k (Some body)) s' = (Inr (), s')) \<and>
    main_ending [port] (run D mem ((es @ [(db, Written k False), (db, Header k (Some bs))]) @ [(db', Body k None)])
      (start_server mem n)) = Process_terminated"
proof -
  let ?c = "handle_write False c"
  let ?s = "s\<lparr>connections := (connections s)(k \<mapsto> ?c)\<rparr>"
  have w: "server_step D mem db (Written k False) s = (Inr (), ?s)"
    using assms(2,3) by (simp add: on_connection_def)
  have q: "completes For_header (Some bs) ?c" using assms(4) by (simp add: completes_def asked_for_def)
  obtain c' where h: "handle_read_header mem (Some bs) (?c, ?s) = (Inr (), (c', ?s))"
    and c': "awaits c' = For_body" "\<not> read_alive c'"
    using assms(5) by (cases "reserve mem (m_body_length (decode (fill_buffer bs (in_header (m_in c)))))
       ((m_in c)\<lparr>in_header := decode (fill_buffer bs (in_header (m_in c)))\<rparr>)") (simp add: handle_read_header_def Let_def)
  let ?s' = "?s\<lparr>connections := (connections ?s)(k \<mapsto> c')\<rparr>"
  have "server_step D mem db (Header k (Some bs)) ?s = (Inr (), ?s')"
    using q h by (simp add: on_connection_def)
  then have run: "run D mem (es @ [(db, Written k False), (db, Header k (Some bs))]) (start_server mem n) = (Inr (), ?s')"
    unfolding run_append using assms(1) w by (simp del: server_step.simps)
  have "\<forall>body. server_step D mem db' (Body k (Some body)) ?s' = (Inr (), ?s')"
    using c'(2) by (simp add: on_connection_def completes_def)
  moreover have "\<exists>t. server_step D mem db' (Body k None) ?s' = (Inl Thrown_error_code, t)"
    using c'(1) by (simp add: on_connection_def completes_def handle_read_body_def)
  then have "main_ending [port] (run D mem ((es @ [(db, Written k False), (db, Header k (Some bs))]) @ [(db', Body k None)])
      (start_server mem n)) = Process_terminated"
    unfolding run_append [of _ _ "_ @ _"] using run by (auto simp: main_ending_def simp del: server_step.simps)
  ultimately show ?thesis using run by blast
qed

text \<open>A client that has opened and sent the header of another packet, its first response unconfirmed.\<close>

definition sample_events :: "(bson list \<times> event) list" where
  "sample_events = [([], Accepted 1 True), ([], Header 0 (Some (pad_left 16 (show_nat 34)))),
     ([], Body 0 (Some (replicate 32 CHR '' '' @ ''{}'')))]"

definition sample_frame :: string where
  "sample_frame = frame_of [] ''{}''"

lemma sample_second_header:
  obtains s c s' c' where
    "run sample_opener sample_memory sample_events (start_server sample_memory 0) = (Inr (), s)"
    "connections s 0 = Some c" "writes_pending c = 1" "completes For_header (Some (take 16 sample_frame)) c"
    "run sample_opener sample_memory (sample_events @ [([], Header 0 (Some (take 16 sample_frame)))])
       (start_server sample_memory 0) = (Inr (), s')"
    "connections s' 0 = Some c'" "completes For_body (Some (drop 16 sample_frame)) c'" "writes_pending c' = 1"
    "body (fill_raw (drop 16 sample_frame) (m_in c')) = Inr ''{}''" "m_processor c' = Some ''c''"
    "m_processor_opened c'" "input_ok c"
proof -
  obtain s c where s: "run sample_opener sample_memory sample_events (start_server sample_memory 0) = (Inr (), s)"
      "connections s 0 = Some c" "awaits c = For_header" "read_alive c" "m_socket_open c" "writes_pending c = 1"
      "m_processor c = Some ''c''" "m_processor_opened c"
    using sample_open_run unfolding sample_events_def by blast
  have a: "can_alloc sample_memory (size_of_nat (length ''{}'' + 32) + 1)"
    by (simp add: sample_memory_def size_of_nat_def)
  obtain s' c' where s': "run sample_opener sample_memory (sample_events @ [([], Header 0 (Some (take 16 sample_frame)))])
       (start_server sample_memory 0) = (Inr (), s')" "connections s' = (connections s)(0 \<mapsto> c')"
     "completes For_body (Some (drop 16 sample_frame)) c'" "body (fill_raw (drop 16 sample_frame) (m_in c')) = Inr ''{}''"
     "m_processor c' = m_processor c" "m_processor_opened c' = m_processor_opened c" "writes_pending c' = writes_pending c"
    unfolding sample_frame_def using packet_arrives [OF s(1-5), of "[]" "''{}''" "[]"] a by auto
  have "completes For_header (Some (take 16 sample_frame)) c"
    using s(3,4) frame_parts(1) [of "[]" "''{}''"]
    by (simp add: completes_def asked_for_def sample_frame_def header_length_def)
  moreover have "input_ok c" using run_inputs [OF s(1)] s(2) by (simp add: inputs_ok_def)
  ultimately show ?thesis using s s' by (intro that [of s c s' c']) simp_all
qed


theorem failed_write_ends_connection_witness:
  "\<exists>s c s' c'. run sample_opener sample_memory sample_events (start_server sample_memory 0) = (Inr (), s) \<and>
     connections s 0 = Some c \<and> run sample_opener sample_memory [([], Written 0 False)] s = (Inr (), s') \<and>
     connections s' 0 = Some c' \<and> \<not> m_socket_open c' \<and> length (sent c') \<le> length (sent c)"
proof -
  obtain s c where s: "run sample_opener sample_memory sample_events (start_server sample_memory 0) = (Inr (), s)"
      "connections s 0 = Some c" "writes_pending c = 1" "completes For_header (Some (take 16 sample_frame)) c"
    by (rule sample_second_header)
  obtain r s' where r: "run sample_opener sample_memory [([], Written 0 False)] s = (r, s')" by fastforce
  then have "r = Inr ()" using s(2,3) by (simp add: on_connection_def)
  with failed_write_ends_connection [OF s(1,2) _ r] r s show ?thesis by (fastforce simp: completes_def)
qed

theorem failed_write_can_terminate_witness:
  "main_ending [''8000''] (run sample_opener sample_memory ((sample_events @
     [([], Written 0 False), ([], Header 0 (Some (take 16 sample_frame)))]) @ [([], Body 0 None)])
     (start_server sample_memory 0)) = Process_terminated"
proof -
  obtain s c where s: "run sample_opener sample_memory sample_events (start_server sample_memory 0) = (Inr (), s)"
      "connections s 0 = Some c" "writes_pending c = 1" "completes For_header (Some (take 16 sample_frame)) c" "input_ok c"
    by (rule sample_second_header)
  have "m_body_length (decode (fill_buffer (take 16 sample_frame) (in_header (m_in c)))) = size_of_nat 34"
    using frame_parts(1,3) [of "[]" "''{}''"] s(5)
      decode_filled [of "in_header (m_in c)" "take 16 sample_frame"]
    by (simp add: input_ok_def sample_frame_def header_length_def)
  then have "fst (reserve sample_memory (m_body_length (decode (fill_buffer (take 16 sample_frame) (in_header (m_in c)))))
       ((m_in c)\<lparr>in_header := decode (fill_buffer (take 16 sample_frame) (in_header (m_in c)))\<rparr>)) = Inr ()"
    by (simp add: reserve_def sample_memory_def size_of_nat_def)
  from failed_write_can_terminate [OF s(1,2) _ s(4) this, of "[]" "[]" "''8000''"] s(3) show ?thesis by auto
qed

section \<open>The send buffer\<close>

text \<open>
  A client that sends a request on connection \<open>k\<close> only after the response to the one before was
  written; \<open>busy\<close> says that a write may be pending.
\<close>

fun waits_for_responses :: "nat \<Rightarrow> bool \<Rightarrow> event list \<Rightarrow> bool" where
  "waits_for_responses k busy [] \<longleftrightarrow> True"
| "waits_for_responses k busy (Body i (Some bs) # es) \<longleftrightarrow>
     (if i = k then \<not> busy \<and> waits_for_responses k True es else waits_for_responses k busy es)"
| "waits_for_responses k busy (Written i ok # es) \<longleftrightarrow> waits_for_responses k (busy \<and> i \<noteq> k) es"
| "waits_for_responses k busy (e # es) \<longleftrightarrow> waits_for_responses k busy es"

definition in_turn :: "nat \<Rightarrow> event list \<Rightarrow> connection option \<Rightarrow> bool" where
  "in_turn k es co \<longleftrightarrow> (\<exists>busy. waits_for_responses k busy es \<and>
     (case co of None \<Rightarrow> True
      | Some c \<Rightarrow> \<not> overwritten c \<and> writes_pending c \<le> 1 \<and> (writes_pending c \<noteq> 0 \<longrightarrow> busy)))"

lemma in_turn_step:
  assumes "waits_for_responses k busy (e # es)"
  shows "waits_for_responses k ((\<exists>bs. e = Body k (Some bs)) \<or> busy \<and> \<not> (\<exists>ok. e = Written k ok)) es"
    and "e = Body k (Some bs) \<Longrightarrow> \<not> busy"
  using assms by (cases e; cases "\<exists>i bs. e = Body i (Some bs)"; auto split: if_splits)+

interpretation turns: connection_property k "in_turn k" for k
proof unfold_locales
  fix e es c c'
  assume p: "in_turn k (e # es) (Some c)" and s: "connection_step k e c c'"
  from p obtain busy where b: "waits_for_responses k busy (e # es)" "\<not> overwritten c" "writes_pending c \<le> 1"
      "writes_pending c \<noteq> 0 \<longrightarrow> busy"
    by (auto simp: in_turn_def)
  let ?busy = "(\<exists>bs. e = Body k (Some bs)) \<or> busy \<and> \<not> (\<exists>ok. e = Written k ok)"
  have "\<not> overwritten c' \<and> writes_pending c' \<le> 1 \<and> (writes_pending c' \<noteq> 0 \<longrightarrow> ?busy)"
    using s b(2-4) in_turn_step(2) [OF b(1)]
    by cases (auto simp: same_net_def start_connection_def)
  with in_turn_step(1) [OF b(1)] show "in_turn k es (Some c')" unfolding in_turn_def by (intro exI [of _ ?busy]) simp
next
  fix e es j i
  assume "in_turn k (e # es) None"
  with in_turn_step(1) show "in_turn k es None" "in_turn k es (Some (new_connection j i))"
    unfolding in_turn_def new_connection_def by fastforce+
qed

text \<open>
  C21: The send buffer is safe with a client that waits for its responses. In every run of the
  server in which requests of connection \<open>k\<close> arrive only after the last response was written, the
  connection never has more than one write pending, and \<open>m_send_buffer\<close> is never assigned while a
  pending write points to its characters.
\<close>

theorem send_buffer_safe:
  assumes "run D mem es (start_server mem n) = (r, s)" "waits_for_responses k False (map snd es)"
    "connections s k = Some c"
  shows "writes_pending c \<le> 1 \<and> \<not> overwritten c"
proof -
  have "in_turn k (map snd es) (connections (start_server mem n :: 'a server) k)"
    using assms(2) by (cases "k = 0")
      (auto simp: in_turn_def start_server_def make_connection_def new_server_def new_connection_def Let_def)
  then obtain es' where "in_turn k es' (connections s k)"
    using turns.run_keeps [OF assms(1) server_ok_start] by blast
  with assms(3) show ?thesis by (auto simp: in_turn_def)
qed

text \<open>
  A client that does not wait is a danger to its responses: a request that is handled while the
  response before it is still being written overwrites the buffer that the write points to.
\<close>

theorem pipelining_overwrites:
  assumes "run D mem es (start_server mem n) = (Inr (), s)" "connections s k = Some c" "writes_pending c \<noteq> 0"
    "run D mem (es @ [(db, Body k (Some bs))]) (start_server mem n) = (Inr (), s')" "completes For_body (Some bs) c"
  shows "\<exists>c'. connections s' k = Some c' \<and> overwritten c' \<and> 1 < writes_pending c'"
proof -
  have "server_step D mem db (Body k (Some bs)) s = (Inr (), s')"
    using assms(4) unfolding run_append using assms(1)
    by (auto simp: andthen_def simp del: server_step.simps split: prod.splits sum.splits)
  then have "on_connection k (completes For_body (Some bs)) (handle_read_body D db (Some bs)) s = (Inr (), s')" by simp
  then show ?thesis
  proof (cases rule: on_connection_cases)
    case (handled c0 c' s1)
    let ?c = "c\<lparr>m_in := fill_raw bs (m_in c)\<rparr>"
    obtain r1 c1 s2 where p: "connection_process D db (?c, s) = (r1, (c1, s2))" by (metis prod.exhaust)
    have "r1 = Inr ()" "c' = async_read For_header c1"
      using handled(1,3) assms(2) p by (auto simp: handle_read_body_def andthen_def split: sum.splits)
    moreover from this(1) have "\<exists>out. same_net (async_write out ?c) c1" using connection_process_net [OF p] by simp
    ultimately have "overwritten c' \<and> 1 < writes_pending c'" using assms(3) by (auto simp: same_net_def)
    with handled(4) show ?thesis by simp
  qed (use assms(2,5) in blast)
qed

theorem send_buffer_safe_witness:
  "\<exists>s c. run sample_opener sample_memory sample_events (start_server sample_memory 0) = (Inr (), s) \<and>
     connections s 0 = Some c \<and> writes_pending c = 1 \<and> \<not> overwritten c"
proof -
  obtain s c where s: "run sample_opener sample_memory sample_events (start_server sample_memory 0) = (Inr (), s)"
      "connections s 0 = Some c" "writes_pending c = 1"
    by (rule sample_second_header)
  have "waits_for_responses 0 False (map snd sample_events)" by (simp add: sample_events_def)
  from send_buffer_safe [OF s(1) this s(2)] s show ?thesis by blast
qed

theorem pipelining_overwrites_witness:
  "\<exists>s c. run sample_opener sample_memory ((sample_events @ [([], Header 0 (Some (take 16 sample_frame)))]) @
       [([], Body 0 (Some (drop 16 sample_frame)))]) (start_server sample_memory 0) = (Inr (), s) \<and>
     connections s 0 = Some c \<and> overwritten c \<and> writes_pending c = 2"
proof -
  obtain s c where s: "run sample_opener sample_memory (sample_events @ [([], Header 0 (Some (take 16 sample_frame)))])
       (start_server sample_memory 0) = (Inr (), s)"
    "connections s 0 = Some c" "completes For_body (Some (drop 16 sample_frame)) c" "writes_pending c = 1"
    "body (fill_raw (drop 16 sample_frame) (m_in c)) = Inr ''{}''" "m_processor c = Some ''c''" "m_processor_opened c"
    by (rule sample_second_header)
  have p: "parse_request sample_opener ''{}'' = Inr (OK, OPEN, sample_options [])"
    by (simp add: parse_request_def sample_opener_def sample_driver_simps sample_int_def command_of_int_def
        MaxCmd_def MinCmd_def sample_obj_def Let_def)
  obtain out where o: "pack_response sample_opener new_out_packet AlreadyOpen ''connection::process'' None = Inr out"
    using pack_frame [of "set_body [] new_out_packet"]
    by (auto simp: pack_response_def get_response_string_def init_response_builder_def sample_opener_def
        sample_driver_simps sample_oid_def new_out_packet_def set_body_def max_body_length_def c_str_def Let_def)
  obtain s' c' where b: "server_step sample_opener sample_memory [] (Body 0 (Some (drop 16 sample_frame))) s = (Inr (), s')"
      "connections s' 0 = Some c'" "writes_pending c' = 2"
    using s(2-7) p o
    by (auto simp: on_connection_def handle_read_body_def connection_process_def attach_def respond_def)
  then have r: "run sample_opener sample_memory ((sample_events @ [([], Header 0 (Some (take 16 sample_frame)))]) @
       [([], Body 0 (Some (drop 16 sample_frame)))]) (start_server sample_memory 0) = (Inr (), s')"
    unfolding run_append [of _ _ "_ @ _"] using s(1) by (simp del: server_step.simps)
  from pipelining_overwrites [OF s(1,2) _ r s(3)] s(4) b(2,3) r show ?thesis by auto
qed

end
