(* ===== verification/Ruby_Client.thy ===== *)
theory Ruby_Client
  imports Protocol "HOL-Library.AList"
begin

text \<open>
  The Ruby client (\<^verbatim>\<open>rb/lib/zbroker/common.rb\<close>, \<^verbatim>\<open>packet.rb\<close>, \<^verbatim>\<open>proxy.rb\<close>, \<^verbatim>\<open>client.rb\<close>): packets, a
  proxy per purpose that sends one request at a time and waits for its response, and the client
  that combines a reading and a writing proxy. Log output and times are left out.
\<close>

section \<open>Values and errors\<close>

text \<open>A Ruby hash is a list of named values in the order of insertion; symbols are their names.\<close>

datatype json = Nil | Num int | Str string | Bool bool | Hash "(string \<times> json) list"

type_synonym ruby_hash = "(string \<times> json) list"

definition hash_get :: "ruby_hash \<Rightarrow> string \<Rightarrow> json" where
  "hash_get h k = (case map_of h k of Some v \<Rightarrow> v | None \<Rightarrow> Nil)"

text \<open>\<open>Hash#merge\<close>: an entry of the argument replaces the one with its key or comes last.\<close>

definition hash_merge :: "ruby_hash \<Rightarrow> ruby_hash \<Rightarrow> ruby_hash" where
  "hash_merge h other = fold (\<lambda>(k, v). AList.update k v) other h"

text \<open>
  What is raised: the client's own error, a failed assertion, a method or an operator that
  \<open>nil\<close> does not have, an error of the JSON parser, of the BSON library or of the system.
\<close>

datatype ruby_error =
    Zbroker_error string | Assert_error | Nil_error | Parse_error | Invalid_object_id | System_call_error

text \<open>
  The libraries are parameters: \<open>String#size\<close> counts the bytes of a string up to Ruby 1.8 and the
  characters of its encoding since, and the text of a hash in a message differs between them too;
  Yajl prints a hash and parses a text, and the BSON library reads the digits of an object id.
\<close>

record ruby_lib =
  str_size :: "string \<Rightarrow> nat"
  hash_to_s :: "ruby_hash \<Rightarrow> string"
  yajl_encode :: "ruby_hash \<Rightarrow> string"
  yajl_parse :: "string \<Rightarrow> ruby_error + ruby_hash"
  object_id_from_string :: "string \<Rightarrow> ruby_error + json"

section \<open>Constants\<close>

text \<open>The codes of \<open>StatusCode\<close> and \<open>Command\<close>, under the names they have in \<^verbatim>\<open>protocol.h\<close>.\<close>

fun StatusCode :: "response \<Rightarrow> int option" where
  "StatusCode UnknownCommand = Some 500"
| "StatusCode Unimplemented = Some 501"
| "StatusCode RequestTooLong = Some 502"
| "StatusCode NoMoreItem = Some 503"
| "StatusCode ResponseTooLong = Some 504"
| "StatusCode AlreadyOpen = Some 505"
| "StatusCode OK = Some 200"
| "StatusCode ErrorMax = None"

fun Command :: "command \<Rightarrow> int option" where
  "Command OPEN = Some 100"
| "Command CLOSE = Some 101"
| "Command READ = Some 102"
| "Command WRITE = Some 103"
| "Command REWIND = Some 106"
| "Command (Other_command i) = None"

definition HeaderSize :: nat where "HeaderSize = 16"
definition PacketIdSize :: nat where "PacketIdSize = 32"
definition MaxBodySize :: nat where "MaxBodySize = 1024 * 1024"

definition to_s :: "ruby_lib \<Rightarrow> json \<Rightarrow> string" where
  "to_s L v = (case v of Nil \<Rightarrow> [] | Num i \<Rightarrow> show_int i | Str s \<Rightarrow> s | Bool b \<Rightarrow> (if b then ''true'' else ''false'') | Hash h \<Rightarrow> hash_to_s L h)"

text \<open>The message of an error code; for any other value it raises an error instead.\<close>

definition ruby_error_message :: "ruby_lib \<Rightarrow> json \<Rightarrow> ruby_error + string" where
  "ruby_error_message L v =
     (if v = Num 501 then Inr ''Unimplemented''
      else if v = Num 500 then Inr ''UnknownCommand''
      else if v = Num 504 then Inr ''ResponseToLong''
      else if v = Num 503 then Inr ''NoMoreItem''
      else if v = Num 505 then Inr ''AlreadyOpen''
      else Inl (Zbroker_error (''Invalid error code:'' @ to_s L v)))"

definition raise_response :: "ruby_lib \<Rightarrow> json \<Rightarrow> ruby_error" where
  "raise_response L v = (case ruby_error_message L v of Inl e \<Rightarrow> e | Inr m \<Rightarrow> Zbroker_error m)"

section \<open>Packets\<close>

text \<open>\<open>nil\<close> is \<open>None\<close>.\<close>

record ruby_packet =
  rp_header :: "string option"
  rp_body :: "string option"
  rp_packet_id :: string
  rp_header_size :: nat
  rp_packet_id_size :: nat

definition new_ruby_packet :: "string \<Rightarrow> ruby_packet" where
  "new_ruby_packet b = \<lparr>rp_header = None, rp_body = Some b, rp_packet_id = replicate PacketIdSize CHR ''x'',
     rp_header_size = HeaderSize, rp_packet_id_size = PacketIdSize\<rparr>"

definition encode_header :: "ruby_lib \<Rightarrow> ruby_packet \<Rightarrow> ruby_error + ruby_packet" where
  "encode_header L p = (case rp_body p of
     None \<Rightarrow> Inl Nil_error
   | Some b \<Rightarrow> Inr (p\<lparr>rp_header := Some (pad_left (rp_header_size p) (show_nat (str_size L b + rp_packet_id_size p)))\<rparr>))"

text \<open>The bytes of a packet; a header that was made once is kept.\<close>

definition packet_data :: "ruby_lib \<Rightarrow> ruby_packet \<Rightarrow> ruby_error + string \<times> ruby_packet" where
  "packet_data L p =
     (case (if rp_header p = None then encode_header L p else Inr p) of
        Inl e \<Rightarrow> Inl e
      | Inr p' \<Rightarrow>
          (case (rp_header p', rp_body p') of
             (Some h, Some b) \<Rightarrow> Inr (h @ rp_packet_id p' @ b, p')
           | _ \<Rightarrow> Inl Nil_error))"

definition assign_body :: "ruby_lib \<Rightarrow> string \<Rightarrow> ruby_packet \<Rightarrow> ruby_error + ruby_packet" where
  "assign_body L v p = (if str_size L v \<le> MaxBodySize then Inr (p\<lparr>rp_body := Some v\<rparr>) else Inl Assert_error)"

definition assign_packet_id :: "ruby_lib \<Rightarrow> string option \<Rightarrow> ruby_packet \<Rightarrow> ruby_error + ruby_packet" where
  "assign_packet_id L v p =
     (let tmp = (case v of None \<Rightarrow> [] | Some s \<Rightarrow> s)
      in if str_size L tmp \<le> rp_packet_id_size p then Inr (p\<lparr>rp_packet_id := tmp\<rparr>) else Inl Assert_error)"

definition ruby_packet_size :: "ruby_lib \<Rightarrow> ruby_packet \<Rightarrow> ruby_error + nat" where
  "ruby_packet_size L p = (case rp_body p of
     None \<Rightarrow> Inl Nil_error | Some b \<Rightarrow> Inr (rp_header_size p + rp_packet_id_size p + str_size L b))"

text \<open>The body from an offset on is \<open>nil\<close> if the body is shorter than the offset.\<close>

definition decode_header :: "ruby_packet \<Rightarrow> ruby_error + ruby_packet" where
  "decode_header p = (case rp_body p of
     None \<Rightarrow> Inl Nil_error
   | Some b \<Rightarrow> Inr (p\<lparr>rp_packet_id := take (rp_packet_id_size p) b,
       rp_body := if length b < rp_packet_id_size p then None else Some (drop (rp_packet_id_size p) b)\<rparr>))"

section \<open>Sockets\<close>

text \<open>
  What a socket will deliver is a list of segments; \<open>recv\<close> waits for one and takes at most the
  bytes asked for. After the last segment the peer has closed, and \<open>recv\<close> gives no bytes.
\<close>

fun socket_recv :: "nat \<Rightarrow> string list \<Rightarrow> string \<times> string list" where
  "socket_recv n [] = ([], [])"
| "socket_recv n (c # cs) = (if length c \<le> n then (c, cs) else (take n c, drop n c # cs))"

lemma socket_recv_length: "socket_recv n cs = (tmp, cs') \<Longrightarrow> length tmp \<le> n"
  by (cases cs) (auto split: if_splits)

text \<open>\<open>String#to_i\<close>: blanks, a sign, digits with single underscores between them.\<close>

fun to_i_digits :: "nat \<Rightarrow> string \<Rightarrow> nat" where
  "to_i_digits a [] = a"
| "to_i_digits a (c # cs) =
     (if isdigit c then to_i_digits (10 * a + digit_value c) cs
      else if c = CHR ''_'' \<and> cs \<noteq> [] \<and> isdigit (hd cs) then to_i_digits a cs else a)"

definition to_i_nat :: "string \<Rightarrow> nat" where
  "to_i_nat s = (if s \<noteq> [] \<and> isdigit (hd s) then to_i_digits 0 s else 0)"

definition to_i :: "string \<Rightarrow> int" where
  "to_i s = (case dropWhile isspace s of
     [] \<Rightarrow> 0
   | c # cs \<Rightarrow> if c = CHR ''-'' then - int (to_i_nat cs) else if c = CHR ''+'' then int (to_i_nat cs)
              else int (to_i_nat (c # cs)))"

text \<open>The loop of \<open>recv_packet\<close> and the whole of it.\<close>

function recv_rest :: "int \<Rightarrow> string \<Rightarrow> string list \<Rightarrow> string \<times> string list" where
  "recv_rest left str cs =
     (if left \<le> 0 then (str, cs)
      else let (tmp, cs') = socket_recv (nat left) cs
           in if tmp = [] then (str, cs') else recv_rest (left - int (length tmp)) (str @ tmp) cs')"
  by pat_completeness auto
termination
  by (relation "measure (\<lambda>(left, _, _). nat left)") (auto dest: socket_recv_length)

declare recv_rest.simps [simp del]

definition recv_packet :: "string list \<Rightarrow> (ruby_error + ruby_packet) \<times> string list" where
  "recv_packet cs =
     (let (hd, cs1) = socket_recv HeaderSize cs
      in if hd = [] then (Inl (Zbroker_error ''Broker was dead''), cs1)
         else (let (str, cs2) = recv_rest (to_i hd) [] cs1 in (decode_header (new_ruby_packet str), cs2)))"

section \<open>Proxies\<close>

text \<open>
  A proxy's socket is \<open>nil\<close> or what will be received on it. Its purpose is that of its class.
  \<open>px_requests\<close> records the packets that were sent.
\<close>

datatype proxy_class = ReadProxy | WriteProxy

fun purpose_code :: "proxy_class \<Rightarrow> int" where
  "purpose_code ReadProxy = 1"
| "purpose_code WriteProxy = 2"

record proxy =
  px_class :: proxy_class
  px_socket :: "string list option"
  px_packet_id :: "string option"
  px_requests :: "string list"

definition new_proxy :: "proxy_class \<Rightarrow> proxy" where
  "new_proxy cl = \<lparr>px_class = cl, px_socket = None, px_packet_id = None, px_requests = []\<rparr>"

definition default_open :: ruby_hash where
  "default_open = [(''parameters'', Hash [(''skip'', Num 0), (''limit'', Num 500)]),
     (''upsert'', Bool False), (''multi'', Bool False)]"

type_synonym ('s, 'a) ruby = "(ruby_error + 'a) \<times> 's"

definition send_packet :: "ruby_lib \<Rightarrow> ruby_packet \<Rightarrow> proxy \<Rightarrow> (proxy, ruby_packet \<times> ruby_hash) ruby" where
  "send_packet L packet px =
     (case packet_data L packet of
        Inl e \<Rightarrow> (Inl e, px)
      | Inr (bytes, _) \<Rightarrow>
          (case px_socket px of
             None \<Rightarrow> (Inl Nil_error, px)
           | Some cs \<Rightarrow>
               (let px1 = px\<lparr>px_requests := px_requests px @ [bytes]\<rparr>
                in case recv_packet cs of
                     (Inl e, cs') \<Rightarrow> (Inl e, px1\<lparr>px_socket := Some cs'\<rparr>)
                   | (Inr ret, cs') \<Rightarrow>
                       (case rp_body ret of
                          None \<Rightarrow> (Inl Parse_error, px1\<lparr>px_socket := Some cs'\<rparr>)
                        | Some b \<Rightarrow>
                            (case yajl_parse L b of
                               Inl e \<Rightarrow> (Inl e, px1\<lparr>px_socket := Some cs'\<rparr>)
                             | Inr response \<Rightarrow> (Inr (ret, response), px1\<lparr>px_socket := Some cs'\<rparr>))))))"

text \<open>The body of an \<open>OPEN\<close> request, and \<open>open\<close> on a socket that \<open>TCPSocket.new\<close> gives or not.\<close>

definition open_body :: "proxy_class \<Rightarrow> ruby_hash \<Rightarrow> ruby_hash" where
  "open_body cl options = AList.update ''purpose'' (Num (purpose_code cl)) (hash_merge default_open options)"

definition open_request :: "proxy_class \<Rightarrow> ruby_hash \<Rightarrow> ruby_hash" where
  "open_request cl options = [(''cmd'', Num 100), (''body'', Hash (open_body cl options))]"

definition proxy_open :: "ruby_lib \<Rightarrow> string list option \<Rightarrow> ruby_hash \<Rightarrow> proxy \<Rightarrow> (proxy, unit) ruby" where
  "proxy_open L connected options px =
     (if px_socket px \<noteq> None then (Inl (Zbroker_error ''Alread Opened''), px)
      else case connected of
             None \<Rightarrow> (Inl System_call_error, px)
           | Some cs \<Rightarrow>
               (case send_packet L (new_ruby_packet (yajl_encode L (open_request (px_class px) options)))
                       (px\<lparr>px_socket := Some cs\<rparr>) of
                  (Inl e, px1) \<Rightarrow> (Inl e, px1)
                | (Inr (packet, response), px1) \<Rightarrow>
                    if hash_get response ''response'' = Num 200
                    then (Inr (), px1\<lparr>px_packet_id := Some (rp_packet_id packet)\<rparr>)
                    else (Inl (raise_response L (hash_get response ''response'')), px1)))"

definition make_packet :: "ruby_lib \<Rightarrow> ruby_hash \<Rightarrow> proxy \<Rightarrow> ruby_error + ruby_packet" where
  "make_packet L ops px = assign_packet_id L (px_packet_id px) (new_ruby_packet (yajl_encode L ops))"

text \<open>What \<open>read\<close>, \<open>write\<close> and \<open>rewind\<close> share: a request and the check of its response.\<close>

definition proxy_request :: "ruby_lib \<Rightarrow> ruby_hash \<Rightarrow> proxy \<Rightarrow> (proxy, ruby_hash) ruby" where
  "proxy_request L ops px =
     (case make_packet L ops px of
        Inl e \<Rightarrow> (Inl e, px)
      | Inr packet \<Rightarrow>
          (case send_packet L packet px of
             (Inl e, px1) \<Rightarrow> (Inl e, px1)
           | (Inr (_, response), px1) \<Rightarrow>
               if hash_get response ''response'' = Num 200 then (Inr response, px1)
               else (Inl (raise_response L (hash_get response ''response'')), px1)))"

definition read_request :: ruby_hash where
  "read_request = [(''cmd'', Num 102)]"

definition proxy_read :: "ruby_lib \<Rightarrow> proxy \<Rightarrow> (proxy, json) ruby" where
  "proxy_read L px =
     (case px_class px of
        WriteProxy \<Rightarrow> (Inl (Zbroker_error ''Can not read from a write only proxy''), px)
      | ReadProxy \<Rightarrow>
          (case proxy_request L read_request px of
             (Inl e, px1) \<Rightarrow> (Inl e, px1)
           | (Inr response, px1) \<Rightarrow> (Inr (hash_get response ''docs''), px1)))"

definition docs_hash :: "ruby_hash list \<Rightarrow> ruby_hash" where
  "docs_hash docs = map (\<lambda>(i, d). (show_nat i, Hash d)) (enumerate 0 docs)"

definition write_request :: "ruby_hash list \<Rightarrow> ruby_hash" where
  "write_request docs = [(''cmd'', Num 103), (''body'', Hash [(''docs'', Hash (docs_hash docs))])]"

definition proxy_write :: "ruby_lib \<Rightarrow> ruby_hash list \<Rightarrow> proxy \<Rightarrow> (proxy, unit) ruby" where
  "proxy_write L docs px =
     (case px_class px of
        ReadProxy \<Rightarrow> (Inl (Zbroker_error ''Can not write to a readonly proxy''), px)
      | WriteProxy \<Rightarrow>
          (case proxy_request L (write_request docs) px of
             (Inl e, px1) \<Rightarrow> (Inl e, px1)
           | (Inr _, px1) \<Rightarrow> (Inr (), px1)))"

definition rewind_request :: ruby_hash where
  "rewind_request = [(''cmd'', Num 106)]"

definition proxy_rewind :: "ruby_lib \<Rightarrow> proxy \<Rightarrow> (proxy, unit) ruby" where
  "proxy_rewind L px =
     (case px_class px of
        WriteProxy \<Rightarrow> (Inl (Zbroker_error ''Can not rewind a write only proxy''), px)
      | ReadProxy \<Rightarrow>
          (case proxy_request L rewind_request px of
             (Inl e, px1) \<Rightarrow> (Inl e, px1)
           | (Inr _, px1) \<Rightarrow> (Inr (), px1)))"

section \<open>The client\<close>

text \<open>A proxy per mode that was asked for; the environment says what each connect gives.\<close>

record ruby_client =
  read_proxy :: "proxy option"
  write_proxy :: "proxy option"

definition new_client :: "proxy_class list \<Rightarrow> ruby_client" where
  "new_client mode = \<lparr>read_proxy = (if ReadProxy \<in> set mode then Some (new_proxy ReadProxy) else None),
     write_proxy = (if WriteProxy \<in> set mode then Some (new_proxy WriteProxy) else None)\<rparr>"

definition client_open ::
  "ruby_lib \<Rightarrow> string list option \<Rightarrow> string list option \<Rightarrow> ruby_hash \<Rightarrow> ruby_client \<Rightarrow> (ruby_client, unit) ruby" where
  "client_open L conn_r conn_w options cl =
     (let (r, cl1) = (case read_proxy cl of
            None \<Rightarrow> (Inr (), cl)
          | Some px \<Rightarrow> (let (r, px') = proxy_open L conn_r options px in (r, cl\<lparr>read_proxy := Some px'\<rparr>)))
      in case r of
           Inl e \<Rightarrow> (Inl e, cl1)
         | Inr _ \<Rightarrow>
             (case write_proxy cl1 of
                None \<Rightarrow> (Inr (), cl1)
              | Some px \<Rightarrow> (let (r, px') = proxy_open L conn_w options px in (r, cl1\<lparr>write_proxy := Some px'\<rparr>))))"

definition client_read :: "ruby_lib \<Rightarrow> ruby_client \<Rightarrow> (ruby_client, json list) ruby" where
  "client_read L cl =
     (case read_proxy cl of
        None \<Rightarrow> (Inl (Zbroker_error ''Not for read mode''), cl)
      | Some px \<Rightarrow>
          (case proxy_read L px of
             (Inl e, px') \<Rightarrow> (Inl e, cl\<lparr>read_proxy := Some px'\<rparr>)
           | (Inr docs, px') \<Rightarrow>
               ((case docs of Hash h \<Rightarrow> Inr (map snd h) | _ \<Rightarrow> Inl Nil_error), cl\<lparr>read_proxy := Some px'\<rparr>)))"

definition client_write :: "ruby_lib \<Rightarrow> json \<Rightarrow> json \<Rightarrow> ruby_client \<Rightarrow> (ruby_client, unit) ruby" where
  "client_write L query doc cl =
     (case write_proxy cl of
        None \<Rightarrow> (Inl (Zbroker_error ''Not for write mode''), cl)
      | Some px \<Rightarrow>
          (let (r, px') = proxy_write L [[(''query'', query), (''doc'', doc)]] px
           in (r, cl\<lparr>write_proxy := Some px'\<rparr>)))"

text \<open>
  \<open>write_by_oid\<close> takes a hash with the key \<open>$oid\<close>, the digits of an id or an id; of anything else
  it names the type in its error (\<open>Object#type\<close>, which Ruby has up to 1.8).
\<close>

datatype oid_argument = Oid_hash ruby_hash | Oid_string string | Oid_object json | Oid_other string

definition object_id_of :: "ruby_lib \<Rightarrow> oid_argument \<Rightarrow> ruby_error + json" where
  "object_id_of L oid =
     (case oid of
        Oid_hash h \<Rightarrow>
          (case map_of h ''$oid'' of
             None \<Rightarrow> Inl (Zbroker_error ''No $oid'')
           | Some (Str s) \<Rightarrow> object_id_from_string L s
           | Some _ \<Rightarrow> Inl Invalid_object_id)
      | Oid_string s \<Rightarrow> object_id_from_string L s
      | Oid_object i \<Rightarrow> Inr i
      | Oid_other type \<Rightarrow> Inl (Zbroker_error (''Invalid oid type: '' @ type)))"

definition client_write_by_oid ::
  "ruby_lib \<Rightarrow> oid_argument \<Rightarrow> json \<Rightarrow> ruby_client \<Rightarrow> (ruby_client, unit) ruby" where
  "client_write_by_oid L oid doc cl =
     (case object_id_of L oid of
        Inl e \<Rightarrow> (Inl e, cl)
      | Inr i \<Rightarrow> client_write L (Hash [(''_id'', i)]) doc cl)"

definition client_rewind :: "ruby_lib \<Rightarrow> ruby_client \<Rightarrow> (ruby_client, unit) ruby" where
  "client_rewind L cl =
     (case read_proxy cl of
        None \<Rightarrow> (Inl (Zbroker_error ''Not for read/rewind mode''), cl)
      | Some px \<Rightarrow> (let (r, px') = proxy_rewind L px in (r, cl\<lparr>read_proxy := Some px'\<rparr>)))"

end
