(* ===== verification/Responses.thy ===== *)
theory Responses
  imports User_Counts
begin

text \<open>
  What the server sends: every response is a well-formed packet, so that a client can cut the
  stream of its connection into the responses.
\<close>

section \<open>Responses are packets\<close>

definition id_ok :: "string \<Rightarrow> bool" where
  "id_ok i \<longleftrightarrow> NUL \<notin> set i \<and> length i \<le> packet_id_length"

text \<open>
  Documented behaviour of the driver: a digest is a text of at most 32 characters; and the object
  with a response code alone prints shortly.
\<close>

definition short_texts :: "('o, 'db) driver \<Rightarrow> bool" where
  "short_texts D \<longleftrightarrow> (\<forall>x. id_ok (md5 D x)) \<and> length (too_long D) < max_body_length"

definition framed :: "string \<Rightarrow> bool" where
  "framed out \<longleftrightarrow> (\<exists>p. sendable p \<and> length (m_body p) < max_body_length \<and> out = wire p)"

lemma set_empty_id: "set_packet_id [] new_out_packet = new_out_packet"
  by (simp add: set_packet_id_def new_out_packet_def)

lemma response_framed:
  assumes "short_texts D" "id_ok i" "get_response_string D (set_packet_id i new_out_packet) b = Inr out"
  shows "framed out"
proof -
  let ?json = "if length (jsonString D b) < max_body_length then jsonString D b else too_long D"
  let ?p = "set_body ?json (set_packet_id i new_out_packet)"
  have l: "length ?json < max_body_length" using assms(1) by (simp add: short_texts_def)
  then have s: "sendable ?p"
    using assms(2) by (simp add: sendable_def id_ok_def packet_id_length_def max_body_length_def)
  have "fst (pack ?p) = Inr out" using assms(3) by (simp add: get_response_string_def Let_def)
  then have "out = wire ?p"
    by (auto simp: wire_def pack_def Let_def split: sum.splits)
  with s l show ?thesis unfolding framed_def by (intro exI [of _ ?p]) simp
qed

lemma pack_response_framed:
  "short_texts D \<Longrightarrow> id_ok i \<Longrightarrow> pack_response D (set_packet_id i new_out_packet) res ex d = Inr out \<Longrightarrow> framed out"
  unfolding pack_response_def by (rule response_framed)

lemma pack_response_docs_framed:
  "short_texts D \<Longrightarrow> id_ok i \<Longrightarrow> pack_response_docs D (set_packet_id i new_out_packet) res docs ex = Inr out \<Longrightarrow>
    framed out"
  by (auto simp: pack_response_docs_def Let_def intro: response_framed split: if_splits sum.splits)

lemma do_read_framed:
  "short_texts D \<Longrightarrow> id_ok i \<Longrightarrow> do_read D (set_packet_id i new_out_packet) p = (Inr out, p') \<Longrightarrow> framed out"
  by (auto simp: do_read_def Let_def intro: pack_response_docs_framed split: prod.splits sum.splits if_splits)

lemma do_write_framed:
  "short_texts D \<Longrightarrow> id_ok i \<Longrightarrow> do_write D (set_packet_id i new_out_packet) upd p = (Inr out, p') \<Longrightarrow> framed out"
  by (auto simp: do_write_def andthen_def Let_def intro: pack_response_framed split: prod.splits sum.splits)

lemma process_framed:
  assumes "short_texts D" "id_ok (m_processor_id p)" "process D db res cmd obj p = (Inr out, p')"
  shows "framed out"
  using assms(3) do_read_framed [OF assms(1,2)] do_write_framed [OF assms(1,2)] pack_response_framed [OF assms(1,2)]
  by (cases cmd) (auto simp: process_def andthen_def Let_def split: prod.splits sum.splits if_splits)

section \<open>Handlers\<close>

definition ids_ok :: "'o server \<Rightarrow> bool" where
  "ids_ok s \<longleftrightarrow> (\<forall>i. known s i \<longrightarrow> id_ok i)"

text \<open>What a handler of one connection keeps, from a consistent server on.\<close>

definition answered :: "connection \<times> 'o server \<Rightarrow> connection \<times> 'o server \<Rightarrow> bool" where
  "answered cs cs' \<longleftrightarrow> ids_ok (snd cs') \<and> (list_all framed (sent (fst cs)) \<longrightarrow> list_all framed (sent (fst cs')))"

lemma ids_ok_simps [simp]:
  "ids_ok (s\<lparr>accepting := y\<rparr>) = ids_ok s" "ids_ok (s\<lparr>connections := x\<rparr>) = ids_ok s"
  by (simp_all add: ids_ok_def known_def)

lemma on_processor_ids: "on_processor i f s = (r, s') \<Longrightarrow> ids_ok s \<Longrightarrow> ids_ok s'"
  by (auto simp: on_processor_def ids_ok_def known_def split: option.splits prod.splits if_splits)

lemma on_processor_framed:
  assumes "on_processor i (process D db res cmd obj) s = (Inr out, s')"
    and "short_texts D" "ids_ok s" "processors_ok s"
  shows "framed out"
proof -
  obtain p where p: "m_processors s i = Some p" "fst (process D db res cmd obj p) = Inr out"
    using assms(1) by (auto simp: on_processor_def split: option.splits prod.splits)
  with assms(3,4) have "id_ok (m_processor_id p)" by (auto simp: ids_ok_def known_def processors_ok_def)
  with p(2) assms(2) show ?thesis by (cases "process D db res cmd obj p") (auto intro: process_framed)
qed

lemma attach_ids:
  assumes "attach D cmd obj (c, s) = (r, (c', s'))" "short_texts D" "ids_ok s" "in_packet_id (m_in c) = []"
  shows "ids_ok s' \<and> sent c' = sent c"
proof -
  have "id_ok (broker_hash D obj)" "id_ok []"
    using assms(2) by (auto simp: short_texts_def broker_hash_def id_ok_def)
  with assms show ?thesis
    by (auto simp: attach_def find_processor_def new_processor_def reset_processor_def ids_ok_def known_def Let_def
        split: option.splits sum.splits if_splits)
qed

lemma respond_framed:
  assumes "respond D db res cmd obj i (c, s) = (r, (c', s'))" "short_texts D" "ids_ok s" "processors_ok s"
  shows "ids_ok s' \<and> sent c' = sent c \<and> (\<forall>out. r = Inr out \<longrightarrow> framed out)"
proof -
  obtain r1 s1 where o: "on_processor i (process D db res cmd obj) s = (r1, s1)" by fastforce
  have "framed out" if "r1 = Inr out" for out using on_processor_framed [OF _ assms(2-4)] o that by blast
  moreover have "framed out" if "pack_response D new_out_packet AlreadyOpen ''connection::process'' None = Inr out" for out
    using pack_response_framed [OF assms(2), of "[]"] that by (simp add: set_empty_id id_ok_def)
  ultimately show ?thesis
    using assms(1,3) o on_processor_ids [OF o assms(3)] by (auto simp: respond_def split: if_splits sum.splits)
qed

lemma connection_process_answered:
  assumes "connection_process D db (c, s) = (r, cs')" "short_texts D" "ids_ok s" "processors_ok s" "connection_ok s c"
  shows "answered (c, s) cs'"
proof (cases "\<exists>json res cmd obj. body (m_in c) = Inr json \<and> parse_request D json = Inr (res, cmd, obj)")
  case True
  then obtain json res cmd obj where b: "body (m_in c) = Inr json" "parse_request D json = Inr (res, cmd, obj)"
    by auto
  obtain r1 c1 s1 where at: "attach D cmd obj (c, s) = (r1, (c1, s1))" by (metis prod.exhaust)
  from attach_ids [OF at assms(2,3)] assms(5) have a: "ids_ok s1" "sent c1 = sent c" by (auto simp: connection_ok_def)
  have p: "processors_ok s1" using attach_allowed [OF assms(4,5) at] by (simp add: allowed_def)
  show ?thesis
  proof (cases r1)
    case (Inr i)
    obtain r2 c2 s2 where e: "respond D db res cmd obj i (c1, s1) = (r2, (c2, s2))" by (metis prod.exhaust)
    from respond_framed [OF e assms(2) a(1) p] a(2) show ?thesis
      using assms(1) b at e Inr by (cases r2) (auto simp: connection_process_def answered_def)
  qed (use assms(1) b at a in \<open>auto simp: connection_process_def answered_def\<close>)
next
  case False
  with assms(1,3) show ?thesis
    by (auto simp: connection_process_def answered_def split: sum.splits)
qed

lemma handle_read_header_answered:
  assumes "handle_read_header mem bytes (c, s) = (r, cs')" "ids_ok s"
  shows "answered (c, s) cs'"
  using assms
  by (auto simp: handle_read_header_def answered_def Let_def dest: on_processor_ids
      split: option.splits prod.splits sum.splits)

lemma handle_read_body_answered:
  assumes "handle_read_body D db bytes (c, s) = (r, cs')" "short_texts D" "ids_ok s" "processors_ok s" "connection_ok s c"
  shows "answered (c, s) cs'"
proof (cases bytes)
  case (Some bs)
  let ?c = "c\<lparr>m_in := fill_raw bs (m_in c)\<rparr>"
  have c: "connection_ok s ?c" using assms(5) by (simp add: connection_ok_def in_packet_id_kept)
  obtain r1 c1 s1 where p: "connection_process D db (?c, s) = (r1, (c1, s1))" by (metis prod.exhaust)
  from connection_process_answered [OF p assms(2-4) c] Some p assms(1) show ?thesis
    by (cases r1) (auto simp: handle_read_body_def answered_def)
qed (use assms in \<open>auto simp: handle_read_body_def answered_def\<close>)

section \<open>All runs\<close>

definition all_framed :: "'o server \<Rightarrow> bool" where
  "all_framed s \<longleftrightarrow> server_ok s \<and> ids_ok s \<and> (\<forall>k c. connections s k = Some c \<longrightarrow> list_all framed (sent c))"

lemma on_connection_framed:
  assumes "all_framed s" "on_connection k possible f s = (r, s')" "server_ok s'"
    and "\<And>c r cs'. processors_ok s \<Longrightarrow> connection_ok s c \<Longrightarrow> ids_ok s \<Longrightarrow> f (c, s) = (r, cs') \<Longrightarrow>
      answered (c, s) cs' \<and> connections (snd cs') = connections s"
  shows "all_framed s'"
  using assms(2)
proof (cases rule: on_connection_cases)
  case (handled c c' s1)
  have "processors_ok s" "connection_ok s c" "ids_ok s"
    using assms(1) handled(1) by (auto simp: all_framed_def server_ok_def)
  from assms(4) [OF this handled(3)] assms(1,3) handled(1,4) show ?thesis
    by (auto simp: all_framed_def answered_def)
qed (use assms(1) in simp)

lemma allowed_answered:
  "answered (c, s) cs' \<Longrightarrow> allowed (c, s) cs' \<Longrightarrow> answered (c, s) cs' \<and> connections (snd cs') = connections s"
  by (simp add: allowed_def)

lemma all_framed_step:
  assumes "short_texts D" "all_framed s" "server_step D mem db e s = (r, s')"
  shows "all_framed s'"
proof -
  have ok: "server_ok s'" using assms(2,3) by (auto simp: all_framed_def intro: server_step_ok)
  show ?thesis
  proof (cases e)
    case (Accepted j b)
    with assms(2,3) ok show ?thesis
      by (auto simp: all_framed_def handle_accept_def make_connection_def new_connection_def
          start_connection_def Let_def ids_ok_def known_def split: if_splits option.splits)
  next
    case (Header k bytes)
    with assms(3) have "on_connection k (completes For_header bytes) (handle_read_header mem bytes) s = (r, s')" by simp
    then show ?thesis
      by (rule on_connection_framed [OF assms(2) _ ok])
        (auto intro!: allowed_answered handle_read_header_answered handle_read_header_allowed)
  next
    case (Body k bytes)
    with assms(3) have "on_connection k (completes For_body bytes) (handle_read_body D db bytes) s = (r, s')" by simp
    then show ?thesis
      by (rule on_connection_framed [OF assms(2) _ ok])
        (auto intro!: allowed_answered handle_read_body_answered handle_read_body_allowed assms(1))
  next
    case (Written k b)
    with assms(3) have "on_connection k (\<lambda>c. writes_pending c \<noteq> 0) (\<lambda>(c, s). (Inr (), (handle_write b c, s))) s = (r, s')"
      by simp
    then show ?thesis
      by (rule on_connection_framed [OF assms(2) _ ok]) (auto simp: answered_def)
  next
    case (Threads i x w)
    with assms(2,3) ok show ?thesis
      by (auto simp: all_framed_def ids_ok_def known_def split: if_splits)
  qed
qed

lemma all_framed_start: "all_framed (start_server mem n)"
  using server_ok_start [of mem n]
  by (auto simp: all_framed_def start_server_def make_connection_def new_server_def new_connection_def
      ids_ok_def known_def Let_def split: if_splits)

interpretation answers: step_invariant "\<lambda>s. \<exists>n. s = start_server mem n" "server_moves D mem"
    "\<lambda>s. short_texts D \<longrightarrow> all_framed s" for D :: "('o, 'db) driver" and mem
  by unfold_locales (auto simp: all_framed_start server_moves_def intro: all_framed_step)

lemma run_framed:
  assumes "short_texts D" "run D mem es (start_server mem n) = (r, s)"
  shows "all_framed s"
proof -
  have "reachable (\<lambda>s. \<exists>n. s = start_server mem n) (server_moves D mem) s"
    by (rule run_reachable [OF assms(2) reachable.start]) blast
  from answers.reachable_holds [OF this] assms(1) show ?thesis by blast
qed

section \<open>What a client reads\<close>

lemma framed_packets:
  "list_all framed outs \<Longrightarrow> \<exists>ps. outs = map wire ps \<and> list_all sendable ps"
proof (induction outs)
  case (Cons out outs)
  then obtain p ps where "out = wire p" "sendable p" "outs = map wire ps" "list_all sendable ps"
    by (auto simp: framed_def)
  then show ?case by (intro exI [of _ "p # ps"]) simp
qed simp

lemma framed_frame: "framed out \<Longrightarrow> \<exists>i json. out = frame_of i json \<and> length json < max_body_length"
  unfolding framed_def using wire_frame by blast

lemma split_packets:
  "list_all sendable ps \<Longrightarrow> split_stream header_length (received_length j) (concat (map wire ps)) = map wire ps"
  using frames.split_stream_concat [of ps j "[]"] by (simp add: split_stream.simps [of _ _ "[]"] header_length_def)

text \<open>
  C22: A client can read what it is sent, if the texts of the driver are as short as documented. In every run of the server, whatever is asked and whatever
  fails, all that was sent on a connection is a sequence of packets with bodies below the limit,
  and the receiving loop of a client that cuts the bytes of the connection by the announced
  lengths gets exactly the responses, in order.
\<close>

theorem client_reads_responses:
  assumes "short_texts D" "run D mem es (start_server mem n) = (r, s)" "connections s k = Some c"
  shows "split_stream header_length (received_length j) (concat (sent c)) = sent c \<and>
    (\<forall>out \<in> set (sent c). \<exists>i json. out = frame_of i json \<and> length json < max_body_length)"
proof -
  have f: "list_all framed (sent c)" using run_framed [OF assms(1,2)] assms(3) by (auto simp: all_framed_def)
  obtain ps where "sent c = map wire ps" "list_all sendable ps" using framed_packets [OF f] by blast
  then have "split_stream header_length (received_length j) (concat (sent c)) = sent c"
    by (simp add: split_packets)
  with f show ?thesis by (auto simp: list_all_iff framed_frame)
qed

theorem client_reads_responses_witness:
  "\<exists>s c out. run sample_opener sample_memory [([], Accepted 1 True), ([], Header 0 (Some (pad_left 16 (show_nat 34)))),
      ([], Body 0 (Some (replicate 32 CHR '' '' @ ''{}'')))] (start_server sample_memory 0) = (Inr (), s) \<and>
     connections s 0 = Some c \<and> split_stream header_length (received_length (\<lambda>_. NUL)) (concat (sent c)) = [out]"
proof -
  obtain s c out where s: "run sample_opener sample_memory [([], Accepted 1 True), ([], Header 0 (Some (pad_left 16 (show_nat 34)))),
      ([], Body 0 (Some (replicate 32 CHR '' '' @ ''{}'')))] (start_server sample_memory 0) = (Inr (), s)"
      "connections s 0 = Some c" "sent c = [out]"
    using sample_open_run by blast
  have "short_texts sample_opener"
    by (simp add: short_texts_def sample_opener_def id_ok_def packet_id_length_def max_body_length_def
        too_long_def sample_driver_simps sample_oid_def)
  from client_reads_responses [OF this s(1,2), of "\<lambda>_. NUL"] s show ?thesis by auto
qed

end
