(* ===== verification/Ruby_Facts.thy ===== *)
theory Ruby_Facts
  imports Ruby_Client Responses Connection_Input
begin

text \<open>
  The Ruby client against the server: its packets are those the server reads, the server's
  responses are those it reads, however the network cuts them, and where the two disagree.
\<close>

section \<open>Reading numbers\<close>

lemma to_i_digits_foldl:
  "list_all isdigit s \<Longrightarrow> to_i_digits a s = foldl (\<lambda>a c. 10 * a + digit_value c) a s"
  by (induction s arbitrary: a) auto

lemma to_i_nat_show_nat: "to_i_nat (show_nat n) = n"
  using to_i_digits_foldl [of "show_nat n" 0] show_nat_isdigit
  by (simp add: to_i_nat_def foldl_digits_show_nat list_all_iff)

lemma to_i_padded: "to_i (pad_left w (show_nat n)) = int n"
proof -
  have d: "dropWhile isspace (pad_left w (show_nat n)) = show_nat n"
    using dropWhile_isspace_padded [of w n "[]"] by simp
  obtain c cs where s: "show_nat n = c # cs" by (cases "show_nat n") auto
  then have "c \<noteq> CHR ''-''" "c \<noteq> CHR ''+''"
    using show_nat_isdigit [of c n] isdigit_not_special by auto
  with d s to_i_nat_show_nat [of n] show ?thesis by (simp add: to_i_def)
qed

lemma to_i_blank: "to_i (replicate n CHR '' '') = 0"
  by (simp add: to_i_def dropWhile_replicate isspace_def)

section \<open>Receiving\<close>

definition segments :: "string list \<Rightarrow> bool" where
  "segments cs \<longleftrightarrow> list_all (\<lambda>c. c \<noteq> []) cs"

lemma recv_segments:
  assumes "socket_recv n cs = (tmp, cs')" "segments cs"
  shows "segments cs' \<and> concat cs = tmp @ concat cs' \<and> length tmp \<le> n \<and> (tmp = [] \<longrightarrow> n = 0 \<or> cs = [])"
  using assms by (cases cs) (auto simp: segments_def split: if_splits)

text \<open>The loop takes the bytes asked for, or all there are, however they are cut into segments.\<close>

lemma recv_rest_segments:
  "recv_rest left str cs = (str', cs') \<Longrightarrow> segments cs \<Longrightarrow>
    segments cs' \<and> str' = str @ take (nat left) (concat cs) \<and> concat cs' = drop (nat left) (concat cs)"
proof (induction left str cs rule: recv_rest.induct)
  case (1 left str cs)
  show ?case
  proof (cases "left \<le> 0")
    case True
    with "1.prems" show ?thesis by (simp add: recv_rest.simps [of left])
  next
    case False
    obtain tmp cs1 where t: "socket_recv (nat left) cs = (tmp, cs1)" by fastforce
    note r = recv_segments [OF t "1.prems"(2)]
    show ?thesis
    proof (cases "tmp = []")
      case True
      with r False t "1.prems" show ?thesis by (auto simp: recv_rest.simps [of left])
    next
      case n: False
      have "recv_rest (left - int (length tmp)) (str @ tmp) cs1 = (str', cs')"
        using "1.prems"(1) False t n by (simp add: recv_rest.simps [of left])
      from "1.IH" [OF False t [symmetric] refl n this] r
      have i: "segments cs' \<and> str' = (str @ tmp) @ take (nat (left - int (length tmp))) (concat cs1) \<and>
          concat cs' = drop (nat (left - int (length tmp))) (concat cs1)" by simp
      have "nat (left - int (length tmp)) = nat left - length tmp" by simp
      with i r show ?thesis by simp
    qed
  qed
qed

text \<open>The bytes of a packet with an id of up to 32 characters and a body.\<close>

lemma frame_of_length: "length i \<le> 32 \<Longrightarrow> length json + 32 < 10 ^ 16 \<Longrightarrow>
    take 16 (frame_of i json) = pad_left 16 (show_nat (length json + 32)) \<and>
    drop 16 (frame_of i json) = pad_left 32 i @ json \<and> 48 \<le> length (frame_of i json)"
  using length_show_nat [of "length json + 32" 16]
  by (simp add: frame_of_def packet_id_length_def)

lemma frame_of_min: "length b + 32 \<le> length (frame_of i b)"
  by (simp add: frame_of_def packet_id_length_def)

lemma recv_packet_frame:
  assumes "segments (c # cs)" "16 \<le> length c" "concat (c # cs) = frame_of i json @ rest"
    "length i \<le> 32" "length json + 32 < 10 ^ 16"
  shows "\<exists>q cs'. recv_packet (c # cs) = (Inr q, cs') \<and> segments cs' \<and> concat cs' = rest \<and>
    rp_packet_id q = pad_left 32 i \<and> rp_body q = Some json"
proof -
  note f = frame_of_length [OF assms(4,5)]
  obtain cs1 where r: "socket_recv 16 (c # cs) = (take 16 c, cs1)"
    using assms(2) by (cases "length c = 16") auto
  then have s: "segments cs1" "concat (c # cs) = take 16 c @ concat cs1"
    using recv_segments [OF r assms(1)] by simp_all
  have "take 16 c = take 16 (concat (c # cs))" using assms(2) by simp
  then have h: "take 16 c = pad_left 16 (show_nat (length json + 32))" unfolding assms(3) using f by simp
  have "concat cs1 = drop 16 (concat (c # cs))" unfolding s(2) using assms(2) by simp
  then have d: "concat cs1 = pad_left 32 i @ json @ rest" unfolding assms(3) using f by simp
  obtain str cs2 where t: "recv_rest (int (length json + 32)) [] cs1 = (str, cs2)" by fastforce
  have "segments cs2 \<and> str = pad_left 32 i @ json \<and> concat cs2 = rest"
    using recv_rest_segments [OF t s(1)] d assms(4) by (simp add: nat_add_distrib)
  moreover have "take 16 c \<noteq> []" using assms(2) by auto
  moreover have "to_i (take 16 c) = int (length json + 32)" unfolding h by (rule to_i_padded)
  ultimately show ?thesis
    using r t assms(4) by (simp add: recv_packet_def HeaderSize_def decode_header_def new_ruby_packet_def PacketIdSize_def)
qed

section \<open>Sending\<close>

text \<open>
  The bytes of a request with an id of 32 characters start with the packet whose body is cut at the
  size that was announced.
\<close>

definition request_packet :: "string \<Rightarrow> string \<Rightarrow> ruby_packet" where
  "request_packet i b = (new_ruby_packet b)\<lparr>rp_packet_id := i\<rparr>"

lemma new_request_packet: "new_ruby_packet b = request_packet (replicate 32 CHR ''x'') b"
  by (simp add: request_packet_def new_ruby_packet_def PacketIdSize_def)

lemma make_packet_request:
  "make_packet L ops px = Inr p \<Longrightarrow> p = request_packet (case px_packet_id px of None \<Rightarrow> [] | Some i \<Rightarrow> i) (yajl_encode L ops)"
  by (auto simp: make_packet_def assign_packet_id_def request_packet_def Let_def split: if_splits)

lemma request_bytes:
  "packet_data L (request_packet i b) = Inr (bytes, p') \<Longrightarrow>
    bytes = pad_left 16 (show_nat (str_size L b + 32)) @ i @ b"
  by (auto simp: request_packet_def new_ruby_packet_def packet_data_def encode_header_def HeaderSize_def PacketIdSize_def)

lemma request_data: "\<exists>bytes p'. packet_data L (request_packet i b) = Inr (bytes, p')"
  by (auto simp: request_packet_def new_ruby_packet_def packet_data_def encode_header_def)

lemma request_bytes_cut:
  assumes "packet_data L (request_packet i b) = Inr (bytes, p')" "length i = 32" "str_size L b \<le> length b"
  shows "bytes = frame_of i (take (str_size L b) b) @ drop (str_size L b) b"
  using request_bytes [OF assms(1)] assms(2,3)
  by (simp add: frame_of_def packet_id_length_def pad_left_id)

lemma request_frame:
  assumes "packet_data L (request_packet i b) = Inr (bytes, p')" "length i = 32" "str_size L b = length b"
  shows "bytes = frame_of i b"
  using request_bytes_cut [OF assms(1,2)] assms(3) by simp

text \<open>The client's packets meet the contract of the server's receiving loop.\<close>

definition client_packet :: "string \<times> string \<Rightarrow> bool" where
  "client_packet m \<longleftrightarrow> length (fst m) = 32 \<and> length (snd m) + 32 < 2 ^ 31"

interpretation client_frames: length_prefixed header_length "received_length j" client_packet "\<lambda>(i, b). frame_of i b" for j
proof unfold_locales
  fix m :: "string \<times> string"
  assume "client_packet m"
  then have m: "length (fst m) = 32" "length (snd m) + 32 < 2 ^ 31" by (simp_all add: client_packet_def)
  then have "length (show_nat (length (snd m) + 32)) \<le> 10" by (intro length_show_nat) auto
  moreover have "received_length j (take header_length (frame_of (fst m) (snd m))) = length (snd m) + 32"
    using frame_of_length [of "fst m" "snd m"] m received_length_padded [OF m(2)] by (simp add: header_length_def)
  ultimately show "length (case m of (i, b) \<Rightarrow> frame_of i b) =
      header_length + received_length j (take header_length (case m of (i, b) \<Rightarrow> frame_of i b))"
    using m by (simp add: case_prod_unfold frame_of_def packet_id_length_def header_length_def)
qed (simp add: header_length_def)

section \<open>A session\<close>

datatype proxy_op = P_open "string list option" ruby_hash | P_read | P_write "ruby_hash list" | P_rewind

text \<open>The proxy after an operation, whether it raised an error or not.\<close>

fun proxy_do :: "ruby_lib \<Rightarrow> proxy_op \<Rightarrow> proxy \<Rightarrow> proxy" where
  "proxy_do L (P_open connected options) px = snd (proxy_open L connected options px)"
| "proxy_do L P_read px = snd (proxy_read L px)"
| "proxy_do L (P_write docs) px = snd (proxy_write L docs px)"
| "proxy_do L P_rewind px = snd (proxy_rewind L px)"

lemma send_packet_sends:
  assumes "packet_data L p = Inr (bytes, p')" "px_socket px \<noteq> None"
  shows "px_requests (snd (send_packet L p px)) = px_requests px @ [bytes] \<and>
    px_packet_id (snd (send_packet L p px)) = px_packet_id px \<and> px_socket (snd (send_packet L p px)) \<noteq> None \<and>
    px_class (snd (send_packet L p px)) = px_class px"
  using assms by (auto simp: send_packet_def Let_def split: option.splits sum.splits prod.splits)

definition opened_with :: "ruby_lib \<Rightarrow> string \<Rightarrow> string \<Rightarrow> proxy \<Rightarrow> bool" where
  "opened_with L first pid px \<longleftrightarrow> px_packet_id px = Some pid \<and> px_socket px \<noteq> None \<and>
     (\<exists>hs. px_requests px = frame_of (replicate 32 CHR ''x'') first # map (\<lambda>h. frame_of pid (yajl_encode L h)) hs)"

lemma proxy_request_opened:
  assumes "\<forall>h. str_size L (yajl_encode L h) = length (yajl_encode L h)" "opened_with L first pid px" "length pid = 32"
  shows "opened_with L first pid (snd (proxy_request L ops px))"
proof (cases "make_packet L ops px")
  case (Inr p)
  have p: "p = request_packet pid (yajl_encode L ops)"
    using make_packet_request [OF Inr] assms(2) by (simp add: opened_with_def)
  obtain bytes p' where b: "packet_data L p = Inr (bytes, p')" using request_data p by blast
  with p assms(1,3) have f: "bytes = frame_of pid (yajl_encode L ops)" using request_frame by blast
  have "px_socket px \<noteq> None" using assms(2) by (simp add: opened_with_def)
  from send_packet_sends [OF b this] assms(2) f have "opened_with L first pid (snd (send_packet L p px))"
    unfolding opened_with_def by (auto intro: exI [of _ "_ @ [ops]"])
  then show ?thesis using Inr by (auto simp: proxy_request_def split: prod.splits sum.splits)
qed (use assms in \<open>simp add: proxy_request_def\<close>)

lemma proxy_do_opened:
  assumes "\<forall>h. str_size L (yajl_encode L h) = length (yajl_encode L h)" "opened_with L first pid px" "length pid = 32"
  shows "opened_with L first pid (proxy_do L op px)"
proof -
  have "snd (proxy_read L px) \<in> {px, snd (proxy_request L read_request px)}"
    "\<And>docs. snd (proxy_write L docs px) \<in> {px, snd (proxy_request L (write_request docs) px)}"
    "snd (proxy_rewind L px) \<in> {px, snd (proxy_request L rewind_request px)}"
    by (auto simp: proxy_read_def proxy_write_def proxy_rewind_def split: proxy_class.splits prod.splits sum.splits)
  moreover have "snd (proxy_open L connected options px) = px" for connected options
    using assms(2) by (simp add: proxy_open_def opened_with_def)
  ultimately show ?thesis
    using assms(2) proxy_request_opened [OF assms] by (cases op) (auto, metis+)
qed

lemma proxy_do_all_opened:
  assumes "\<forall>h. str_size L (yajl_encode L h) = length (yajl_encode L h)" "length pid = 32"
  shows "opened_with L first pid px \<Longrightarrow> opened_with L first pid (fold (proxy_do L) ops px)"
  by (induction ops arbitrary: px) (auto intro: proxy_do_opened [OF assms(1) _ assms(2)])

lemma proxy_open_opened:
  assumes "\<forall>h. str_size L (yajl_encode L h) = length (yajl_encode L h)" "proxy_open L (Some (c # cs)) options (new_proxy cl) = (Inr (), px)"
    "segments (c # cs)" "16 \<le> length c" "concat (c # cs) = frame_of i json @ rest"
    "length i \<le> 32" "length json + 32 < 10 ^ 16"
  shows "opened_with L (yajl_encode L (open_request cl options)) (pad_left 32 i) px"
proof -
  let ?b = "yajl_encode L (open_request cl options)"
  let ?p = "request_packet (replicate 32 CHR ''x'') ?b"
  obtain bytes p' where b: "packet_data L ?p = Inr (bytes, p')" using request_data by blast
  then have f: "bytes = frame_of (replicate 32 CHR ''x'') ?b"
    using assms(1) by (intro request_frame) auto
  obtain q cs' where q: "recv_packet (c # cs) = (Inr q, cs')" "rp_packet_id q = pad_left 32 i" "rp_body q = Some json"
    using recv_packet_frame [OF assms(3-7)] by blast
  show ?thesis
    using assms(2) b q
    by (auto simp: proxy_open_def new_proxy_def new_request_packet send_packet_def Let_def opened_with_def f
        split: sum.splits if_splits)
qed

section \<open>Requests on the server\<close>

text \<open>
  Documented behaviour of the libraries on both sides for one hash: its text has no NUL, the driver
  parses it, and finds its numbers and its nested hashes.
\<close>

definition understands :: "('o, 'db) driver \<Rightarrow> ruby_lib \<Rightarrow> (ruby_hash \<Rightarrow> 'o) \<Rightarrow> ruby_hash \<Rightarrow> bool" where
  "understands D L obj h \<longleftrightarrow> NUL \<notin> set (yajl_encode L h) \<and> fromjson D (yajl_encode L h) = Inr (obj h) \<and>
     (\<forall>f i. hash_get h f = Num i \<longrightarrow> getIntField D (obj h) f = word_of_int i) \<and>
     (\<forall>f g. hash_get h f = Hash g \<longrightarrow> getObjectField D (obj h) f = obj g)"

lemma parse_understood:
  assumes "understands D L obj h" "hash_get h ''cmd'' = Num n" "Command cmd = Some n"
  shows "parse_request D (yajl_encode L h) = Inr (OK, cmd, getObjectField D (obj h) ''body'')"
proof -
  have "getIntField D (obj h) ''cmd'' = word_of_int n" "fromjson D (yajl_encode L h) = Inr (obj h)"
    "c_str (yajl_encode L h) = yajl_encode L h"
    using assms(1,2) by (auto simp: understands_def c_str_id)
  then show ?thesis using assms(3)
    by (cases cmd) (auto simp: parse_request_def command_of_int_def MaxCmd_def MinCmd_def Let_def)
qed

lemma server_step_body:
  assumes "connections s k = Some c" "completes For_body (Some bs) c"
    "connection_process D db (c\<lparr>m_in := fill_raw bs (m_in c)\<rparr>, s) = (r, (c', s'))"
  shows "server_step D mem db (Body k (Some bs)) s =
    (case r of Inl e \<Rightarrow> (Inl e, s'\<lparr>connections := (connections s')(k \<mapsto> c')\<rparr>)
     | Inr _ \<Rightarrow> (Inr (), s'\<lparr>connections := (connections s')(k \<mapsto> async_read For_header c')\<rparr>))"
  using assms by (cases r) (auto simp: on_connection_def handle_read_body_def)

section \<open>Opening\<close>

definition open_response_text :: "('o, 'db) driver \<Rightarrow> string" where
  "open_response_text D =
     (let json = jsonString D (init_response_builder D OK None ''Open Action'' (emptyObj D))
      in if length json < max_body_length then json else too_long D)"

lemma open_response_short: "short_texts D \<Longrightarrow> length (open_response_text D) < max_body_length"
  by (simp add: open_response_text_def short_texts_def Let_def)

lemma process_open_response:
  assumes "process D db OK OPEN obj p = (Inr out, p')" "short_texts D" "id_ok (m_processor_id p)"
  shows "out = frame_of (m_processor_id p) (open_response_text D)"
proof -
  let ?p = "set_body (open_response_text D) (set_packet_id (m_processor_id p) new_out_packet)"
  have "sendable ?p"
    using open_response_short [OF assms(2)] assms(3)
    by (simp add: sendable_def id_ok_def packet_id_length_def max_body_length_def)
  from wire_frame [OF this] have "wire ?p = frame_of (m_processor_id p) (open_response_text D)"
    using assms(3) by (simp add: id_ok_def set_packet_id_def set_body_def c_str_id)
  moreover have "fst (pack ?p) = Inr out"
    using assms(1) by (auto simp: process_def andthen_def pack_response_def get_response_string_def
        open_response_text_def Let_def split: prod.splits sum.splits)
  then have "out = wire ?p" by (auto simp: wire_def pack_def Let_def split: sum.splits)
  ultimately show ?thesis by simp
qed

lemma connection_process_open:
  assumes "connection_process D db (c, s) = (Inr (), (c', s'))" "body (m_in c) = Inr json"
    "parse_request D json = Inr (OK, OPEN, obj)" "m_processor c = None" "\<not> m_processor_opened c"
    "short_texts D" "processors_ok s" "connection_ok s c"
  shows "sent c' = sent c @ [frame_of (broker_hash D obj) (open_response_text D)] \<and>
    m_processor c' = Some (broker_hash D obj)"
proof -
  let ?h = "broker_hash D obj"
  obtain i c1 s1 where a: "attach D OPEN obj (c, s) = (Inr i, (c1, s1))"
    using assms(1-3) by (auto simp: connection_process_def andthen_def split: prod.splits sum.splits)
  obtain out c2 where e: "respond D db OK OPEN obj i (c1, s1) = (Inr out, (c2, s'))" "c' = async_write out c2"
    using assms(1-3) a by (auto simp: connection_process_def andthen_def split: prod.splits sum.splits)
  have ok: "processors_ok s1" using attach_allowed [OF assms(7,8) a] by (simp add: allowed_def)
  have "processors_ok s \<Longrightarrow> find_processor D ?h s = (Inr j, s2) \<Longrightarrow> j = ?h" for j s2
    by (auto simp: find_processor_def new_processor_def reset_processor_def Let_def split: option.splits sum.splits if_splits)
  then have i: "i = ?h" "m_processor c1 = Some ?h" "sent c1 = sent c" "\<not> m_processor_opened c1"
    using a assms(4,5,7) by (auto simp: attach_def split: prod.splits sum.splits)
  obtain p p' where p: "m_processors s1 i = Some p" "process D db OK OPEN obj p = (Inr out, p')"
    using e(1) i(4) by (auto simp: respond_def on_processor_def split: option.splits prod.splits sum.splits)
  have "m_processor_id p = ?h" using ok p(1) i(1) by (auto simp: processors_ok_def)
  moreover have "id_ok ?h" using assms(6) by (simp add: short_texts_def broker_hash_def)
  ultimately have "out = frame_of ?h (open_response_text D)" using process_open_response [OF p(2) assms(6)] by simp
  moreover have "sent c2 = sent c1 \<and> m_processor c2 = m_processor c1"
    using e(1) by (auto simp: respond_def split: if_splits prod.splits sum.splits)
  ultimately show ?thesis using e(2) i by simp
qed

end
