(* ===== verification/Client_Server.thy ===== *)
theory Client_Server
  imports Ruby_Facts
begin

text \<open>
  The Ruby client and the server together: requests that reach it, responses that come back, the
  handshake of \<open>open\<close>, sessions, and the three ways in which the two sides lose each other.
\<close>

section \<open>A small client\<close>

text \<open>
  Libraries for concrete runs: strings are counted in bytes, every hash prints as the same text,
  and every response says "OK"; \<open>sample_obj_of\<close> is what the driver of the sample server makes of
  the hash of an \<open>OPEN\<close> request and of its body.
\<close>

definition sample_ruby :: ruby_lib where
  "sample_ruby = \<lparr>str_size = length, hash_to_s = (\<lambda>_. ''{}''), yajl_encode = (\<lambda>_. ''{}''),
     yajl_parse = (\<lambda>_. Inr [(''response'', Num 200)]), object_id_from_string = (\<lambda>_. Inl Invalid_object_id)\<rparr>"

lemma sample_ruby_simps [simp]:
  "str_size sample_ruby s = length s" "yajl_encode sample_ruby h = ''{}''"
  "yajl_parse sample_ruby s = Inr [(''response'', Num 200)]"
  by (simp_all add: sample_ruby_def)

definition sample_obj_of :: "ruby_hash \<Rightarrow> bson" where
  "sample_obj_of h = (if hash_get h ''cmd'' = Num 100
     then [(''cmd'', VInt 100), (''body'', VObj (sample_options []))] else sample_options [])"

lemma sample_understands: "understands sample_opener sample_ruby sample_obj_of (open_request cl [])"
  by (cases cl) (auto simp: understands_def sample_opener_def sample_driver_simps sample_obj_of_def open_request_def hash_get_def
      open_body_def hash_merge_def default_open_def sample_int_def sample_obj_def split: if_splits)

definition sample_request :: string where
  "sample_request = frame_of (replicate 32 CHR ''x'') ''{}''"

lemma sample_request_data: "\<exists>p'. packet_data sample_ruby (request_packet (replicate 32 CHR ''x'') ''{}'') = Inr (sample_request, p')"
proof -
  obtain bytes p' where b: "packet_data sample_ruby (request_packet (replicate 32 CHR ''x'') ''{}'') = Inr (bytes, p')"
    using request_data by blast
  then have "bytes = sample_request" unfolding sample_request_def by (rule request_frame) simp_all
  with b show ?thesis by blast
qed

lemma sample_alloc: "n < 900 \<Longrightarrow> can_alloc sample_memory (size_of_nat n + 1)"
  by (simp add: sample_memory_def size_of_nat_def unat_word_ariths unat_of_nat)

lemma sample_accepted_run:
  "\<exists>s c. run D sample_memory [([], Accepted 1 True)] (start_server sample_memory 0) = (Inr (), s) \<and>
     connections s 0 = Some c \<and> awaits c = For_header \<and> read_alive c \<and> m_socket_open c \<and> m_processor c = None \<and>
     \<not> m_processor_opened c \<and> m_processors s = (\<lambda>_. None) \<and> sent c = []"
  by (simp add: start_server_def make_connection_def new_server_def new_connection_def handle_accept_def
      start_connection_def Let_def)

lemma sample_accepted:
  obtains s c where "run D sample_memory [([], Accepted 1 True)] (start_server sample_memory 0) = (Inr (), s)"
    "connections s 0 = Some c" "awaits c = For_header" "read_alive c" "m_socket_open c" "m_processor c = None"
    "\<not> m_processor_opened c" "m_processors s = (\<lambda>_. None)" "sent c = []"
  using sample_accepted_run [of D] by blast

lemma sample_opens:
  assumes "connections s k = Some c" "completes For_body (Some bs) c" "body (fill_raw bs (m_in c)) = Inr ''{}''"
    "m_processor c = None" "\<not> m_processor_opened c" "m_processors s = (\<lambda>_. None)"
  shows "\<exists>s' c'. server_step sample_opener mem [] (Body k (Some bs)) s = (Inr (), s') \<and> connections s' k = Some c' \<and> sent c' \<noteq> []"
proof -
  have p: "parse_request sample_opener ''{}'' = Inr (OK, OPEN, sample_options [])"
    using parse_understood [OF sample_understands, of ReadProxy 100 OPEN]
    by (simp add: open_request_def hash_get_def sample_opener_def sample_driver_simps sample_obj_of_def sample_obj_def)
  have h: "broker_hash sample_opener (sample_options []) = ''c''"
    by (simp add: broker_hash_def sample_opener_def sample_driver_simps sample_str_def sample_options_def)
  obtain p where n: "new_processor sample_opener ''c'' = Inr p" "m_processor_id p = ''c''"
    by (auto simp: new_processor_def reset_processor_def Let_def)
  obtain out p' where o: "process sample_opener [] OK OPEN (sample_options []) p = (Inr out, p')"
    using sample_open_processor [OF n(1)] by blast
  show ?thesis
    using assms p h n o
    by (auto simp: on_connection_def handle_read_body_def connection_process_def attach_def find_processor_def
        respond_def on_processor_def Let_def)
qed

text \<open>A client accepted, its \<open>OPEN\<close> request sent and answered.\<close>

lemma sample_opened:
  obtains s c where "run sample_opener sample_memory (([([], Accepted 1 True)] @ [([], Header 0 (Some (take 16 sample_request)))]) @
      [([], Body 0 (Some (drop 16 sample_request)))]) (start_server sample_memory 0) = (Inr (), s)" "connections s 0 = Some c" "sent c \<noteq> []"
proof -
  obtain s c where s: "run sample_opener sample_memory [([], Accepted 1 True)] (start_server sample_memory 0) = (Inr (), s)"
    "connections s 0 = Some c" "awaits c = For_header" "read_alive c" "m_socket_open c" "m_processor c = None"
    "\<not> m_processor_opened c" "m_processors s = (\<lambda>_. None)"
    by (rule sample_accepted)
  have a: "can_alloc sample_memory (size_of_nat (length ''{}'' + 32) + 1)" by (rule sample_alloc) simp
  obtain s1 c1 where s1: "run sample_opener sample_memory ([([], Accepted 1 True)] @ [([], Header 0 (Some (take 16 sample_request)))])
      (start_server sample_memory 0) = (Inr (), s1)" "connections s1 = (connections s)(0 \<mapsto> c1)"
      "m_processors s1 = m_processors s" "completes For_body (Some (drop 16 sample_request)) c1"
      "body (fill_raw (drop 16 sample_request) (m_in c1)) = Inr ''{}''" "m_processor c1 = m_processor c"
      "m_processor_opened c1 = m_processor_opened c"
    using packet_arrives [OF s(1-5), of "replicate 32 CHR ''x''" "''{}''" "[]"] a unfolding sample_request_def by auto
  have "connections s1 0 = Some c1" using s1(2) by simp
  from sample_opens [OF this s1(4,5)] s1(3,6,7) s(6-8) obtain s' c' where
    s': "server_step sample_opener sample_memory [] (Body 0 (Some (drop 16 sample_request))) s1 = (Inr (), s')"
      "connections s' 0 = Some c'" "sent c' \<noteq> []" by auto
  then have "run sample_opener sample_memory (([([], Accepted 1 True)] @ [([], Header 0 (Some (take 16 sample_request)))]) @
      [([], Body 0 (Some (drop 16 sample_request)))]) (start_server sample_memory 0) = (Inr (), s')"
    unfolding run_append [of _ _ "_ @ _"] s1(1) by (simp del: server_step.simps)
  then show ?thesis using s'(2,3) by (rule that)
qed

lemma sample_short_texts: "short_texts sample_opener"
  by (simp add: short_texts_def sample_opener_def id_ok_def packet_id_length_def max_body_length_def
      too_long_def sample_driver_simps sample_oid_def)

section \<open>Requests and responses\<close>

text \<open>
  C15: A request of the Ruby client reaches its handler, if \<open>size\<close> of its text is the number of its
  bytes. In every run of the server, when a client whose connection waits for a header sends a packet
  with an id of 32 bytes and such a body, below 2 GB and of a size the server can allocate, its first
  16 bytes make the connection wait for exactly the others, with which the body is the JSON text
  of the request; and that text is parsed to the command and the body the client meant, where the
  libraries of both sides understand each other.
\<close>

theorem client_request_received:
  assumes "run D mem es (start_server mem n) = (Inr (), s)" "connections s k = Some c"
    "awaits c = For_header" "read_alive c" "m_socket_open c"
    "packet_data L (request_packet i (yajl_encode L ops)) = Inr (bytes, p')" "length i = 32"
    "understands D L obj ops" "hash_get ops ''cmd'' = Num code" "Command cmd = Some code"
    "str_size L (yajl_encode L ops) = length (yajl_encode L ops)" "length (yajl_encode L ops) + 32 < 2 ^ 31"
    "can_alloc mem (size_of_nat (length (yajl_encode L ops) + 32) + 1)"
  shows "\<exists>s' c'. run D mem (es @ [(db, Header k (Some (take 16 bytes)))]) (start_server mem n) = (Inr (), s') \<and>
    connections s' = (connections s)(k \<mapsto> c') \<and> m_processors s' = m_processors s \<and>
    completes For_body (Some (drop 16 bytes)) c' \<and>
    body (fill_raw (drop 16 bytes) (m_in c')) = Inr (yajl_encode L ops) \<and>
    parse_request D (yajl_encode L ops) = Inr (OK, cmd, getObjectField D (obj ops) ''body'')"
proof -
  have b: "bytes = frame_of i (yajl_encode L ops)" by (rule request_frame [OF assms(6,7,11)])
  have "NUL \<notin> set (yajl_encode L ops)" using assms(8) by (simp add: understands_def)
  with packet_arrives [OF assms(1-5) _ assms(12) _ assms(13), of i] assms(7) parse_understood [OF assms(8-10)]
  show ?thesis unfolding b by fastforce
qed

theorem client_request_received_witness:
  "\<exists>s c. run sample_opener sample_memory ([([], Accepted 1 True)] @ [([], Header 0 (Some (take 16 sample_request)))])
       (start_server sample_memory 0) = (Inr (), s) \<and> connections s 0 = Some c \<and>
     body (fill_raw (drop 16 sample_request) (m_in c)) = Inr ''{}''"
proof -
  obtain s c where s: "run sample_opener sample_memory [([], Accepted 1 True)] (start_server sample_memory 0) = (Inr (), s)"
    "connections s 0 = Some c" "awaits c = For_header" "read_alive c" "m_socket_open c"
    by (rule sample_accepted)
  obtain p' where p: "packet_data sample_ruby (request_packet (replicate 32 CHR ''x'')
      (yajl_encode sample_ruby (open_request ReadProxy []))) = Inr (sample_request, p')"
    using sample_request_data by auto
  have "can_alloc sample_memory (size_of_nat (length (yajl_encode sample_ruby (open_request ReadProxy [])) + 32) + 1)"
    by (rule sample_alloc) simp
  from client_request_received [OF s p _ sample_understands _ _ _ _ this, of 100 OPEN "[]"] show ?thesis
    by (auto simp: open_request_def hash_get_def)
qed

text \<open>
  C16: A response reaches the Ruby client. Whatever the server sent on a connection in any run, a
  client that receives one of the responses, cut by the network into any segments of which the
  first has the 16 bytes of the header, gets its id and its JSON text and leaves what follows.
\<close>

theorem client_receives_response:
  assumes "short_texts D" "run D mem es (start_server mem n) = (r, s)" "connections s k = Some c"
    "out \<in> set (sent c)" "segments (seg # segs)" "16 \<le> length seg" "concat (seg # segs) = out @ rest"
  shows "\<exists>i json q segs'. out = frame_of i json \<and> recv_packet (seg # segs) = (Inr q, segs') \<and>
    rp_packet_id q = pad_left 32 i \<and> rp_body q = Some json \<and> segments segs' \<and> concat segs' = rest"
proof -
  have "framed out" using run_framed [OF assms(1,2)] assms(3,4) by (auto simp: all_framed_def list_all_iff)
  then obtain p where p: "sendable p" "length (m_body p) < max_body_length" "out = wire p" by (auto simp: framed_def)
  then have "length (out_packet_id p) \<le> 32" "out = frame_of (out_packet_id p) (m_body p)"
    by (simp_all add: sendable_def packet_id_length_def wire_frame)
  moreover have "length (m_body p) + 32 < 10 ^ 16" using p(2) by (simp add: max_body_length_def)
  ultimately show ?thesis using recv_packet_frame [OF assms(5,6)] assms(7) by blast
qed

theorem client_receives_response_witness:
  "\<exists>s c out i json q segs. run sample_opener sample_memory (([([], Accepted 1 True)] @ [([], Header 0 (Some (take 16 sample_request)))]) @
      [([], Body 0 (Some (drop 16 sample_request)))]) (start_server sample_memory 0) = (Inr (), s) \<and>
     connections s 0 = Some c \<and> out \<in> set (sent c) \<and> out = frame_of i json \<and>
     recv_packet [take 20 out, drop 20 out] = (Inr q, segs) \<and> rp_body q = Some json"
proof -
  obtain s c where s: "run sample_opener sample_memory (([([], Accepted 1 True)] @ [([], Header 0 (Some (take 16 sample_request)))]) @
      [([], Body 0 (Some (drop 16 sample_request)))]) (start_server sample_memory 0) = (Inr (), s)" "connections s 0 = Some c"
      "sent c \<noteq> []"
    by (rule sample_opened)
  then obtain out where out: "out \<in> set (sent c)" by (meson last_in_set)
  then have "framed out" using run_framed [OF sample_short_texts s(1)] s(2) by (auto simp: all_framed_def list_all_iff)
  then obtain p where "sendable p" "length (m_body p) < max_body_length" "out = wire p" by (auto simp: framed_def)
  then have "48 \<le> length out"
    using frame_of_length [of "out_packet_id p" "m_body p"]
    by (simp add: sendable_def packet_id_length_def max_body_length_def wire_frame)
  then have "segments [take 20 out, drop 20 out]" "16 \<le> length (take 20 out)" by (auto simp: segments_def)
  from client_receives_response [OF sample_short_texts s(1,2) out this, of "[]"] show ?thesis using s out by fastforce
qed

section \<open>Opening\<close>

text \<open>
  C17: The handshake of \<open>open\<close>. When a new proxy opens on a connection of the server that has no
  processor yet, and the server handles its packet, the server sends one response, and the proxy,
  receiving it in any segments with a whole header, has the id of the processor that its
  connection was attached to (filled up to 32 characters).
\<close>

theorem open_handshake:
  assumes "short_texts D" "run D mem es (start_server mem n) = (Inr (), s)" "connections s k = Some c"
    "awaits c = For_header" "read_alive c" "m_socket_open c" "m_processor c = None" "\<not> m_processor_opened c"
    "understands D L obj (open_request cl options)"
    "str_size L (yajl_encode L (open_request cl options)) = length (yajl_encode L (open_request cl options))"
    "length (yajl_encode L (open_request cl options)) + 32 < 2 ^ 31"
    "can_alloc mem (size_of_nat (length (yajl_encode L (open_request cl options)) + 32) + 1)"
    "packet_data L (new_ruby_packet (yajl_encode L (open_request cl options))) = Inr (bytes, p')"
    "run D mem ((es @ [(db, Header k (Some (take 16 bytes)))]) @ [(db, Body k (Some (drop 16 bytes)))])
       (start_server mem n) = (Inr (), s')" "connections s' k = Some c'"
    "segments (seg # segs)" "16 \<le> length seg" "concat (seg # segs) = last (sent c')"
    "yajl_parse L (open_response_text D) = Inr response" "hash_get response ''response'' = Num 200"
  shows "\<exists>out px. sent c' = sent c @ [out] \<and> m_processor c' = Some (broker_hash D (obj (open_body cl options))) \<and>
    proxy_open L (Some (seg # segs)) options (new_proxy cl) = (Inr (), px) \<and> px_requests px = [bytes] \<and>
    px_packet_id px = Some (pad_left 32 (broker_hash D (obj (open_body cl options))))"
proof -
  let ?b = "yajl_encode L (open_request cl options)" and ?o = "obj (open_body cl options)"
  let ?i = "replicate 32 CHR ''x''" and ?out = "frame_of (broker_hash D ?o) (open_response_text D)"
  have b: "bytes = frame_of ?i ?b"
    using request_frame [OF assms(13) [unfolded new_request_packet] _ assms(10)] by simp
  have nul: "NUL \<notin> set ?b" using assms(9) by (simp add: understands_def)
  obtain s1 c1 where s1: "run D mem (es @ [(db, Header k (Some (take 16 bytes)))]) (start_server mem n) = (Inr (), s1)"
      "connections s1 = (connections s)(k \<mapsto> c1)" "completes For_body (Some (drop 16 bytes)) c1"
      "body (fill_raw (drop 16 bytes) (m_in c1)) = Inr ?b" "m_processor c1 = m_processor c"
      "m_processor_opened c1 = m_processor_opened c" "sent c1 = sent c"
    using packet_arrives [OF assms(2-6) _ assms(11) nul assms(12), of ?i db] unfolding b by auto
  have parse: "parse_request D ?b = Inr (OK, OPEN, ?o)"
    using parse_understood [OF assms(9), of 100 OPEN] assms(9)
    by (simp add: understands_def open_request_def hash_get_def)
  let ?c1 = "c1\<lparr>m_in := fill_raw (drop 16 bytes) (m_in c1)\<rparr>"
  obtain r c2 s2 where p: "connection_process D db (?c1, s1) = (r, (c2, s2))" by (metis prod.exhaust)
  have k1: "connections s1 k = Some c1" using s1(2) by simp
  have "server_step D mem db (Body k (Some (drop 16 bytes))) s1 = (Inr (), s')"
    using assms(14) unfolding run_append [of _ _ "_ @ _"] s1(1)
    by (auto simp: andthen_def simp del: server_step.simps split: prod.splits sum.splits)
  with server_step_body [OF k1 s1(3) p] have r: "r = Inr ()"
    "s' = s2\<lparr>connections := (connections s2)(k \<mapsto> async_read For_header c2)\<rparr>" by (cases r; simp)+
  have ok: "processors_ok s1" "connection_ok s1 ?c1"
    using run_ok [OF s1(1)] k1 by (auto simp: server_ok_def connection_ok_def in_packet_id_kept)
  have fin: "sent c2 = sent c @ [?out] \<and> m_processor c2 = Some (broker_hash D ?o)"
    using connection_process_open [OF p [unfolded r(1)] _ parse _ _ assms(1) ok] s1(4-7) assms(7,8) by simp
  then have c': "sent c' = sent c @ [?out]" "m_processor c' = Some (broker_hash D ?o)"
    using r(2) assms(15) by auto
  have "length (broker_hash D ?o) \<le> 32"
    using assms(1) by (simp add: short_texts_def broker_hash_def id_ok_def packet_id_length_def)
  moreover have "length (open_response_text D) + 32 < 10 ^ 16"
    using open_response_short [OF assms(1)] by (simp add: max_body_length_def)
  ultimately obtain q segs' where q: "recv_packet (seg # segs) = (Inr q, segs')"
      "rp_packet_id q = pad_left 32 (broker_hash D ?o)" "rp_body q = Some (open_response_text D)"
    using recv_packet_frame [OF assms(16,17), of "broker_hash D ?o" "open_response_text D" "[]"] assms(18) c' by auto
  with c' assms(13,19,20) show ?thesis by (simp add: proxy_open_def new_proxy_def send_packet_def Let_def)
qed

theorem open_handshake_witness:
  "\<exists>s c out px. run sample_opener sample_memory (([([], Accepted 1 True)] @ [([], Header 0 (Some (take 16 sample_request)))]) @
      [([], Body 0 (Some (drop 16 sample_request)))]) (start_server sample_memory 0) = (Inr (), s) \<and>
     connections s 0 = Some c \<and> sent c = [out] \<and> m_processor c = Some ''c'' \<and>
     proxy_open sample_ruby (Some [take 20 out, drop 20 out]) [] (new_proxy ReadProxy) = (Inr (), px) \<and>
     px_packet_id px = Some (pad_left 32 ''c'')"
proof -
  let ?os = "open_request ReadProxy []"
  obtain s c where s: "run sample_opener sample_memory [([], Accepted 1 True)] (start_server sample_memory 0) = (Inr (), s)"
    "connections s 0 = Some c" "awaits c = For_header" "read_alive c" "m_socket_open c" "m_processor c = None"
    "\<not> m_processor_opened c" "sent c = []"
    by (rule sample_accepted)
  obtain s' c' where s': "run sample_opener sample_memory (([([], Accepted 1 True)] @ [([], Header 0 (Some (take 16 sample_request)))]) @
      [([], Body 0 (Some (drop 16 sample_request)))]) (start_server sample_memory 0) = (Inr (), s')" "connections s' 0 = Some c'"
      "sent c' \<noteq> []"
    by (rule sample_opened)
  have "last (sent c') \<in> set (sent c')" using s'(3) by simp
  then have "framed (last (sent c'))" using run_framed [OF sample_short_texts s'(1)] s'(2) by (auto simp: all_framed_def list_all_iff)
  then obtain p where "sendable p" "length (m_body p) < max_body_length" "last (sent c') = wire p" by (auto simp: framed_def)
  then have l: "48 \<le> length (last (sent c'))"
    using frame_of_length [of "out_packet_id p" "m_body p"]
    by (simp add: sendable_def packet_id_length_def max_body_length_def wire_frame)
  then have g: "segments [take 20 (last (sent c')), drop 20 (last (sent c'))]" "16 \<le> length (take 20 (last (sent c')))"
    by (auto simp: segments_def)
  obtain p' where p: "packet_data sample_ruby (new_ruby_packet (yajl_encode sample_ruby ?os)) = Inr (sample_request, p')"
    using sample_request_data by (auto simp: new_request_packet)
  have a: "can_alloc sample_memory (size_of_nat (length (yajl_encode sample_ruby ?os) + 32) + 1)" by (rule sample_alloc) simp
  have h: "broker_hash sample_opener (sample_obj_of (open_body ReadProxy [])) = ''c''"
    by (simp add: broker_hash_def sample_opener_def sample_driver_simps sample_str_def)
  have "\<exists>out px. sent c' = sent c @ [out] \<and> m_processor c' = Some ''c'' \<and>
      proxy_open sample_ruby (Some [take 20 (last (sent c')), drop 20 (last (sent c'))]) [] (new_proxy ReadProxy) = (Inr (), px) \<and>
      px_requests px = [sample_request] \<and> px_packet_id px = Some (pad_left 32 ''c'')"
    using open_handshake [OF sample_short_texts s(1-7) sample_understands _ _ a p s'(1,2) g] h by (simp add: hash_get_def)
  then show ?thesis using s' s(8) by fastforce
qed

section \<open>Sessions\<close>

text \<open>
  C18: All that a client sends is packets, if \<open>size\<close> of each text it encodes is the number of its bytes
  (in a Ruby before 1.9 always, since then for ASCII texts; otherwise see the last section). A
  proxy that was opened by a response of the server keeps the id it got. Whatever it is then asked
  to do, and whatever it receives, it sends only whole packets: the first one its \<open>OPEN\<close> request
  with 32 times \<open>x\<close> for an id, all others with the id it got. If each of them is below 2 GB, the
  server cuts the bytes of the connection back into exactly these requests.
\<close>

theorem client_session_framed:
  assumes "\<forall>h. str_size L (yajl_encode L h) = length (yajl_encode L h)"
    "proxy_open L (Some (seg # segs)) options (new_proxy cl) = (Inr (), px0)"
    "segments (seg # segs)" "16 \<le> length seg" "concat (seg # segs) = frame_of i json @ rest"
    "length i \<le> 32" "length json + 32 < 10 ^ 16"
    "px = fold (proxy_do L) ops px0" "\<forall>x \<in> set (px_requests px). length x < 2 ^ 31"
  shows "px_packet_id px = Some (pad_left 32 i) \<and>
    split_stream header_length (received_length j) (concat (px_requests px)) = px_requests px \<and>
    (\<exists>hs. px_requests px = frame_of (replicate 32 CHR ''x'') (yajl_encode L (open_request cl options)) #
       map (\<lambda>h. frame_of (pad_left 32 i) (yajl_encode L h)) hs)"
proof -
  let ?i = "pad_left 32 i" and ?first = "yajl_encode L (open_request cl options)"
  have "length ?i = 32" using assms(6) by simp
  then have o: "opened_with L ?first ?i px"
    unfolding assms(8)
    by (intro proxy_do_all_opened [OF assms(1)] proxy_open_opened [OF assms(1-7)])
  then obtain hs where hs: "px_requests px = frame_of (replicate 32 CHR ''x'') ?first #
      map (\<lambda>h. frame_of ?i (yajl_encode L h)) hs" "px_packet_id px = Some ?i"
    by (auto simp: opened_with_def)
  let ?ps = "(replicate 32 CHR ''x'', ?first) # map (\<lambda>h. (?i, yajl_encode L h)) hs"
  have ps: "px_requests px = map (\<lambda>(i, b). frame_of i b) ?ps" using hs(1) by (simp add: case_prod_unfold)
  have "length b + 32 < 2 ^ 31" if "frame_of i' b \<in> set (px_requests px)" for i' b
    using assms(9) that order_le_less_trans [OF frame_of_min] by blast
  then have "list_all client_packet ?ps"
    using assms(6) hs(1) by (auto simp: client_packet_def list_all_iff)
  then have "split_stream header_length (received_length j) (concat (px_requests px)) = px_requests px"
    unfolding ps using client_frames.split_stream_concat [of ?ps j "[]"]
    by (simp add: split_stream.simps [of _ _ "[]"] header_length_def)
  with hs show ?thesis by blast
qed

text \<open>A proxy that opens, reads from a server that is gone, and tries to open and to read again.\<close>

lemma sample_session:
  obtains px0 where "proxy_open sample_ruby (Some [take 20 sample_request, drop 20 sample_request]) [] (new_proxy ReadProxy) =
      (Inr (), px0)" "segments [take 20 sample_request, drop 20 sample_request]" "16 \<le> length (take 20 sample_request)"
proof -
  have l: "48 \<le> length sample_request" unfolding sample_request_def using frame_of_length by simp
  then have g: "segments [take 20 sample_request, drop 20 sample_request]" "16 \<le> length (take 20 sample_request)"
    by (auto simp: segments_def)
  obtain q cs where q: "recv_packet [take 20 sample_request, drop 20 sample_request] = (Inr q, cs)" "rp_body q = Some ''{}''"
    using recv_packet_frame [OF g, of "replicate 32 CHR ''x''" "''{}''" "[]"] unfolding sample_request_def by auto
  have "packet_data sample_ruby (new_ruby_packet (yajl_encode sample_ruby (open_request ReadProxy []))) \<noteq> Inl e" for e
    using sample_request_data by (auto simp: new_request_packet)
  with q have "\<exists>px0. proxy_open sample_ruby (Some [take 20 sample_request, drop 20 sample_request]) [] (new_proxy ReadProxy) = (Inr (), px0)"
    by (auto simp: proxy_open_def new_proxy_def send_packet_def hash_get_def Let_def split: sum.split)
  with g show ?thesis using that by blast
qed

theorem client_session_framed_witness:
  "\<exists>px0. proxy_open sample_ruby (Some [take 20 sample_request, drop 20 sample_request]) [] (new_proxy ReadProxy) = (Inr (), px0) \<and>
     (let px = fold (proxy_do sample_ruby) [P_read, P_open None [], P_rewind] px0
      in px_packet_id px = Some (replicate 32 CHR ''x''))"
proof -
  obtain px0 where px0: "proxy_open sample_ruby (Some [take 20 sample_request, drop 20 sample_request]) [] (new_proxy ReadProxy) =
      (Inr (), px0)" "segments [take 20 sample_request, drop 20 sample_request]" "16 \<le> length (take 20 sample_request)"
    by (rule sample_session)
  let ?px = "fold (proxy_do sample_ruby) [P_read, P_open None [], P_rewind] px0"
  have b: "\<forall>h. str_size sample_ruby (yajl_encode sample_ruby h) = length (yajl_encode sample_ruby h)" by simp
  have c: "concat [take 20 sample_request, drop 20 sample_request] = frame_of (replicate 32 CHR ''x'') ''{}'' @ []"
    by (simp add: sample_request_def)
  have "opened_with sample_ruby ''{}'' (replicate 32 CHR ''x'') ?px"
    using proxy_do_all_opened [OF b _ proxy_open_opened [OF b px0 c], of "[P_read, P_open None [], P_rewind]"]
    by (simp add: pad_left_id)
  then have "\<forall>x \<in> set (px_requests ?px). length x = 50"
    using frame_of_length [of "replicate 32 CHR ''x''" "''{}''"]
    by (auto simp: opened_with_def frame_of_def packet_id_length_def show_nat.simps)
  then have "\<forall>x \<in> set (px_requests ?px). length x < 2 ^ 31" by simp
  from client_session_framed [OF b px0 c _ _ refl this] px0(1) show ?thesis by (simp add: pad_left_id Let_def)
qed

section \<open>Where client and server lose each other\<close>

lemma send_packet_keeps:
  "px_packet_id (snd (send_packet L p px)) = px_packet_id px \<and> px_class (snd (send_packet L p px)) = px_class px"
  by (auto simp: send_packet_def Let_def split: option.splits sum.splits prod.splits)

lemma failed_open_state:
  assumes "proxy_open L (Some cs) options (new_proxy cl) = (Inl e, px)"
  shows "px_packet_id px = None \<and> px_socket px \<noteq> None \<and> px_class px = cl"
proof -
  let ?p = "request_packet (replicate 32 CHR ''x'') (yajl_encode L (open_request cl options))"
  let ?px = "(new_proxy cl)\<lparr>px_socket := Some cs\<rparr>"
  obtain bytes p' where b: "packet_data L ?p = Inr (bytes, p')" using request_data by blast
  have "px = snd (send_packet L ?p ?px)"
    using assms by (auto simp: proxy_open_def new_request_packet new_proxy_def split: prod.splits sum.splits if_splits)
  with send_packet_sends [OF b, of ?px] show ?thesis by (simp add: new_proxy_def)
qed

text \<open>
  A failed \<open>open\<close> is final. When the server refused, or was gone, after the client connected, the
  proxy keeps its socket and can never be opened again; and a read request that it still sends
  has no id in it: it ends 32 bytes before the packet it announces does, and the server's
  receiving loop gets no packet from it.
\<close>

theorem failed_open_is_final:
  assumes "proxy_open L (Some cs) options (new_proxy ReadProxy) = (Inl e, px)"
    "str_size L (yajl_encode L read_request) = length (yajl_encode L read_request)" "str_size L [] \<le> 32"
    "length (yajl_encode L read_request) + 32 < 2 ^ 31"
  shows "proxy_open L connected options' px = (Inl (Zbroker_error ''Alread Opened''), px) \<and>
    (\<exists>bytes. px_requests (snd (proxy_read L px)) = px_requests px @ [bytes] \<and>
      split_stream header_length (received_length j) bytes = [])"
proof -
  let ?b = "yajl_encode L read_request"
  note st = failed_open_state [OF assms(1)]
  have m: "make_packet L read_request px = Inr (request_packet [] ?b)"
    using st assms(3) by (simp add: make_packet_def assign_packet_id_def request_packet_def new_ruby_packet_def PacketIdSize_def)
  obtain bytes p' where d: "packet_data L (request_packet [] ?b) = Inr (bytes, p')" using request_data by blast
  then have bytes: "bytes = pad_left 16 (show_nat (length ?b + 32)) @ ?b" using request_bytes [OF d] assms(2) by simp
  have "snd (proxy_read L px) = snd (send_packet L (request_packet [] ?b) px)"
    using st m by (auto simp: proxy_read_def proxy_request_def split: prod.splits sum.splits)
  then have "px_requests (snd (proxy_read L px)) = px_requests px @ [bytes]"
    using send_packet_sends [OF d] st by simp
  moreover have "length (show_nat (length ?b + 32)) \<le> 10" using assms(4) by (intro length_show_nat) auto
  then have "length (pad_left 16 (show_nat (length ?b + 32))) = header_length" by (simp add: header_length_def)
  then have "split_stream header_length (received_length j) bytes = []"
    using received_length_padded [OF assms(4), of j]
    by (subst split_stream.simps) (simp add: bytes Let_def)
  ultimately show ?thesis using st by (auto simp: proxy_open_def)
qed

theorem failed_open_is_final_witness:
  "\<exists>px. proxy_open sample_ruby (Some []) [] (new_proxy ReadProxy) = (Inl (Zbroker_error ''Broker was dead''), px) \<and>
     proxy_open sample_ruby (Some [sample_request]) [] px = (Inl (Zbroker_error ''Alread Opened''), px)"
proof -
  let ?r = "proxy_open sample_ruby (Some []) [] (new_proxy ReadProxy)"
  have "fst ?r = Inl (Zbroker_error ''Broker was dead'')"
    using sample_request_data
    by (auto simp: proxy_open_def new_proxy_def new_request_packet send_packet_def recv_packet_def Let_def)
  then have r: "?r = (Inl (Zbroker_error ''Broker was dead''), snd ?r)" by (metis prod.collapse)
  from failed_open_is_final [OF r, of "Some [sample_request]" "[]"] r show ?thesis by auto
qed

text \<open>\<open>String#size\<close> of UTF-8 text since Ruby 1.9: the bytes that do not continue a character.\<close>

definition utf8_size :: "string \<Rightarrow> nat" where
  "utf8_size s = length (filter (\<lambda>c. \<not> (128 \<le> (of_char c :: nat) \<and> (of_char c :: nat) < 192)) s)"

lemma utf8_size_le: "utf8_size s \<le> length s"
  by (simp add: utf8_size_def)

lemma utf8_size_ascii: "\<forall>c \<in> set s. (of_char c :: nat) < 128 \<Longrightarrow> utf8_size s = length s"
  unfolding utf8_size_def by (subst filter_True) fastforce+

text \<open>
  C38: A request that is not plain ASCII can end the server. A Ruby whose strings count characters
  (1.9 and later) announces fewer bytes than it sends; the server takes the text without its
  last bytes for the request, and where the driver then refuses to parse it, the exception ends
  the server for everybody.
\<close>

theorem multibyte_request_ends_server:
  assumes "run D mem es (start_server mem n) = (Inr (), s)" "connections s k = Some c"
    "awaits c = For_header" "read_alive c" "m_socket_open c"
    "packet_data L (request_packet i b) = Inr (bytes, p')" "length i = 32"
    "str_size L b < length b" "str_size L b + 32 < 2 ^ 31" "NUL \<notin> set b"
    "can_alloc mem (size_of_nat (str_size L b + 32) + 1)"
    "fromjson D (take (str_size L b) b) = Inl e" "is_std_exception e"
  shows "length bytes = 48 + length b \<and>
    main_ending [port] (run D mem ((es @ [(db, Header k (Some (take 16 bytes)))]) @
      [(db, Body k (Some (take (str_size L b + 32) (drop 16 bytes))))]) (start_server mem n)) = Exit_code 0"
proof -
  let ?b = "take (str_size L b) b"
  let ?f = "frame_of i ?b"
  have bytes: "bytes = ?f @ drop (str_size L b) b" using request_bytes_cut [OF assms(6,7)] assms(8) by simp
  have l: "length ?b = str_size L b" using assms(8) by simp
  have f: "drop 16 ?f = i @ ?b" "16 \<le> length ?f" "length ?f = 48 + str_size L b"
  proof -
    have "length (show_nat (str_size L b + 32)) \<le> 10" using assms(9) by (intro length_show_nat) auto
    then show "length ?f = 48 + str_size L b"
      using assms(7) l by (simp add: frame_of_def packet_id_length_def)
    then show "16 \<le> length ?f" by simp
    show "drop 16 ?f = i @ ?b"
      using frame_of_length [of i ?b] assms(7,9) l by (simp add: pad_left_id)
  qed
  then have parts: "take 16 bytes = take 16 ?f" "take (str_size L b + 32) (drop 16 bytes) = drop 16 ?f"
    using assms(7) l unfolding bytes by simp_all
  have nul: "NUL \<notin> set ?b" using assms(10) by (auto dest: in_set_takeD)
  obtain s1 c1 where s1: "run D mem (es @ [(db, Header k (Some (take 16 ?f)))]) (start_server mem n) = (Inr (), s1)"
      "connections s1 = (connections s)(k \<mapsto> c1)" "completes For_body (Some (drop 16 ?f)) c1"
      "body (fill_raw (drop 16 ?f) (m_in c1)) = Inr ?b"
    using packet_arrives [OF assms(1-5) _ _ nul, of i db] assms(7,9,11) l by auto
  have "parse_request D ?b = Inl e" using assms(12) nul by (simp add: parse_request_def c_str_id)
  then have "\<exists>s2. connection_process D db (c1\<lparr>m_in := fill_raw (drop 16 ?f) (m_in c1)\<rparr>, s1) = (Inl e, s2)"
    using s1(4) by (simp add: connection_process_def)
  then obtain c2 s2 where p: "connection_process D db (c1\<lparr>m_in := fill_raw (drop 16 ?f) (m_in c1)\<rparr>, s1) = (Inl e, (c2, s2))"
    by auto
  have "connections s1 k = Some c1" using s1(2) by simp
  from server_step_body [OF this s1(3) p] have "fst (server_step D mem db (Body k (Some (drop 16 ?f))) s1) = Inl e"
    by (simp del: server_step.simps)
  then have "fst (run D mem ((es @ [(db, Header k (Some (take 16 ?f)))]) @ [(db, Body k (Some (drop 16 ?f)))])
      (start_server mem n)) = Inl e"
    unfolding run_append [of _ _ "_ @ _"] s1(1) by (auto simp: andthen_def simp del: server_step.simps split: prod.splits sum.splits)
  then show ?thesis using parts bytes f(3) assms(8,13)
    by (auto simp: main_ending_def split: fault.splits)
qed

text \<open>An object with the key that is an e with an acute accent, in UTF-8.\<close>

definition sample_utf8 :: string where
  "sample_utf8 = [CHR ''{'', CHR 0xC3, CHR 0xA9, CHR ''}'']"

theorem multibyte_request_ends_server_witness:
  "\<exists>bytes. length bytes = 52 \<and> main_ending [''8000''] (run (sample_driver\<lparr>fromjson := \<lambda>s. if s = sample_utf8 then Inr []
       else Inl (Std_exception ''can't parse'')\<rparr>) sample_memory
     (([([], Accepted 1 True)] @ [([], Header 0 (Some (take 16 bytes)))]) @ [([], Body 0 (Some (take 35 (drop 16 bytes))))])
     (start_server sample_memory 0)) = Exit_code 0"
proof -
  let ?D = "sample_driver\<lparr>fromjson := \<lambda>s. if s = sample_utf8 then Inr [] else Inl (Std_exception ''can't parse'')\<rparr>"
  let ?L = "sample_ruby\<lparr>str_size := utf8_size\<rparr>"
  obtain s c where s: "run ?D sample_memory [([], Accepted 1 True)] (start_server sample_memory 0) = (Inr (), s)"
    "connections s 0 = Some c" "awaits c = For_header" "read_alive c" "m_socket_open c"
    by (rule sample_accepted)
  have u: "utf8_size sample_utf8 = 3" "length sample_utf8 = 4" "NUL \<notin> set sample_utf8"
    by (simp_all add: utf8_size_def sample_utf8_def)
  obtain bytes p' where b: "packet_data ?L (request_packet (replicate 32 CHR ''x'') sample_utf8) = Inr (bytes, p')"
    using request_data by blast
  have a: "can_alloc sample_memory (size_of_nat (str_size ?L sample_utf8 + 32) + 1)" by (rule sample_alloc) (simp add: u)
  have "fromjson ?D (take (str_size ?L sample_utf8) sample_utf8) = Inl (Std_exception ''can't parse'')"
    by (simp add: u(1)) (simp add: sample_utf8_def)
  from multibyte_request_ends_server [OF s b _ _ _ u(3) a this, of "''8000''" "[]"] u show ?thesis by auto
qed

text \<open>
  A response whose header comes in two segments is lost. The client asks for the header with one
  \<open>recv\<close>; when the network delivers only some of its leading blanks, the client takes the length
  for 0, raises a parse error, and leaves the rest of the response to be read as the next one.
\<close>

theorem short_header_loses_response:
  assumes "px_socket px = Some (take m (frame_of i json) # segs)" "0 < m"
    "m + length (show_nat (length json + 32)) \<le> 16"
  shows "\<exists>px'. send_packet L (request_packet pid b) px = (Inl Parse_error, px') \<and> px_socket px' = Some segs"
proof -
  obtain bytes p' where d: "packet_data L (request_packet pid b) = Inr (bytes, p')" using request_data by blast
  have seg: "take m (frame_of i json) = replicate m CHR '' ''"
    using assms(3) by (simp add: frame_of_def packet_id_length_def pad_left_def)
  have "recv_packet (replicate m CHR '' '' # segs) =
      (Inr ((new_ruby_packet [])\<lparr>rp_packet_id := [], rp_body := None\<rparr>), segs)"
    using assms(2,3) by (simp add: recv_packet_def HeaderSize_def to_i_blank recv_rest.simps decode_header_def
        new_ruby_packet_def PacketIdSize_def)
  then show ?thesis using d assms(1) seg by (simp add: send_packet_def Let_def)
qed

theorem short_header_loses_response_witness:
  "fst (proxy_read sample_ruby ((new_proxy ReadProxy)\<lparr>px_packet_id := Some (replicate 32 CHR ''x''),
     px_socket := Some [take 1 sample_request, drop 1 sample_request]\<rparr>)) = Inl Parse_error"
proof -
  let ?px = "(new_proxy ReadProxy)\<lparr>px_packet_id := Some (replicate 32 CHR ''x''),
     px_socket := Some [take 1 sample_request, drop 1 sample_request]\<rparr>"
  have "px_socket ?px = Some (take 1 (frame_of (replicate 32 CHR ''x'') ''{}'') # [drop 1 sample_request])"
    by (simp add: sample_request_def)
  from short_header_loses_response [OF this, of sample_ruby "replicate 32 CHR ''x''" "''{}''"]
  obtain px' where "send_packet sample_ruby (request_packet (replicate 32 CHR ''x'') ''{}'') ?px = (Inl Parse_error, px')"
    by (auto simp: show_nat.simps)
  moreover have "make_packet sample_ruby read_request ?px = Inr (request_packet (replicate 32 CHR ''x'') ''{}'')"
    by (simp add: make_packet_def assign_packet_id_def request_packet_def new_ruby_packet_def PacketIdSize_def)
  ultimately show ?thesis by (simp add: proxy_read_def proxy_request_def new_proxy_def)
qed

text \<open>
  A client for reading and writing whose second proxy could not be opened stays half open: \<open>open\<close>
  then always fails at the first proxy, and the second is never opened.
\<close>

theorem half_open_client:
  assumes "client_open L conn_r conn_w options (new_client [ReadProxy, WriteProxy]) = (Inl e, cl)"
    "proxy_open L conn_r options (new_proxy ReadProxy) = (Inr (), px)"
  shows "client_open L conn_r' conn_w' options' cl = (Inl (Zbroker_error ''Alread Opened''), cl)"
proof -
  have "px_socket px \<noteq> None"
    using assms(2) by (auto simp: proxy_open_def send_packet_def new_proxy_def Let_def
        split: option.splits prod.splits sum.splits if_splits)
  moreover have cl: "read_proxy cl = Some px"
    using assms by (auto simp: client_open_def new_client_def Let_def split: prod.splits)
  moreover have "cl\<lparr>read_proxy := Some px\<rparr> = cl" using cl by (cases cl) simp
  ultimately show ?thesis by (simp add: client_open_def proxy_open_def Let_def)
qed

end
