(* ===== verification/Legacy.thy ===== *)
theory Legacy
  imports Protocol Broker Packet
begin

text \<open>
  The processor of the older ZeroMQ program (\<^verbatim>\<open>src/src/zbroker.cc\<close>), with its pointers: the socket it
  sends over and the buffer of the request.
\<close>

section \<open>Replies\<close>

text \<open>The \<open>unsigned int\<close> is copied as it lies in memory, least significant byte first.\<close>

definition le_bytes :: "32 word \<Rightarrow> string" where
  "le_bytes w = map (\<lambda>k. char_of (unat (drop_bit (8 * k) w))) [0..<4]"

text \<open>\<open>pack_reply\<close> of both programs: the document and behind it the response.\<close>

definition pack_reply :: "string \<Rightarrow> 32 word \<Rightarrow> string" where
  "pack_reply doc rep = doc @ le_bytes rep"

text \<open>What a client takes the last four bytes for.\<close>

definition of_le_bytes :: "string \<Rightarrow> 32 word" where
  "of_le_bytes bs = word_of_nat (foldr (\<lambda>c n. (of_char c :: nat) + 256 * n) bs 0)"

definition unpack_reply :: "string \<Rightarrow> string \<times> 32 word" where
  "unpack_reply bs = (take (length bs - 4) bs, of_le_bytes (drop (length bs - 4) bs))"

lemma foldr_digits:
  "foldr (\<lambda>c n. (of_char c :: nat) + 256 * n) (map (\<lambda>k. char_of (m div 256 ^ k)) [0..<j]) 0 = m mod 256 ^ j"
proof (induction j arbitrary: m)
  case (Suc j)
  have "[0..<Suc j] = 0 # map Suc [0..<j]" by (simp add: map_Suc_upt upt_conv_Cons del: upt_Suc)
  then have "foldr (\<lambda>c n. (of_char c :: nat) + 256 * n) (map (\<lambda>k. char_of (m div 256 ^ k)) [0..<Suc j]) 0 =
      m mod 256 + 256 * foldr (\<lambda>c n. (of_char c :: nat) + 256 * n) (map (\<lambda>k. char_of (m div 256 div 256 ^ k)) [0..<j]) 0"
    by (simp add: o_def div_mult2_eq del: upt_Suc)
  also have "\<dots> = m mod 256 ^ Suc j"
    unfolding Suc by (simp add: mod_mult2_eq)
  finally show ?case .
qed simp

lemma of_le_bytes_le_bytes: "of_le_bytes (le_bytes w) = w"
proof -
  have "unat (drop_bit (8 * k) w) = unat w div 256 ^ k" for k
    by (simp only: unat_drop_bit_eq) (simp add: drop_bit_eq_div power_mult)
  then have "foldr (\<lambda>c n. (of_char c :: nat) + 256 * n) (le_bytes w) 0 = unat w mod 256 ^ 4"
    unfolding le_bytes_def using foldr_digits [of "unat w" 4] by simp
  moreover have "unat w < 256 ^ 4" using unsigned_less [of w] by simp
  ultimately show ?thesis by (simp add: of_le_bytes_def)
qed

lemma length_le_bytes [simp]: "length (le_bytes w) = 4"
  by (simp add: le_bytes_def)

text \<open>
  A reply survives the wire: whatever bytes the document has, the client that splits off the
  last four bytes gets the document and the response code back.
\<close>

theorem reply_roundtrip: "unpack_reply (pack_reply doc rep) = (doc, rep)"
  by (simp add: unpack_reply_def pack_reply_def of_le_bytes_le_bytes)

section \<open>The processor of the ZeroMQ program\<close>

datatype zmq_command = Zmq_open | Zmq_read | Zmq_write | Zmq_other c_int

definition zmq_command_of_int :: "c_int \<Rightarrow> zmq_command" where
  "zmq_command_of_int i =
     (if i = 100 then Zmq_open else if i = 101 then Zmq_read else if i = 102 then Zmq_write else Zmq_other i)"

datatype zmq_response =
    Zmq_UnknownCommand | Zmq_Unimplemented | Zmq_RequestTooLong | Zmq_NoMoreItem | Zmq_ErrorMax | Zmq_OK

fun zmq_code :: "zmq_response \<Rightarrow> int" where
  "zmq_code Zmq_UnknownCommand = 500"
| "zmq_code Zmq_Unimplemented = 501"
| "zmq_code Zmq_RequestTooLong = 502"
| "zmq_code Zmq_NoMoreItem = 503"
| "zmq_code Zmq_ErrorMax = 504"
| "zmq_code Zmq_OK = 200"

definition MAX_REQUEST_MESSAGE_SIZE :: nat where
  "MAX_REQUEST_MESSAGE_SIZE = 1024 * 1024"

text \<open>The program's own table, with the messages of \<^verbatim>\<open>protocol.h\<close>.\<close>

definition zmq_error_messages :: "error_message list" where
  "zmq_error_messages =
     [ERROR_MESSAGE ''Command not found'',
      ERROR_MESSAGE ''Command unimplemented yet!'',
      ERROR_MESSAGE ''Request body exceed limit(1MB)!'',
      ERROR_MESSAGE ''No more items!'',
      ERROR_MESSAGE ''Internal Error(invalid error code)'']"

text \<open>
  \<open>m_socket\<close> is \<open>None\<close> while the pointer holds no value that was ever assigned, otherwise the
  messages sent over the socket it points to; \<open>m_request_buf\<close> is \<open>None\<close> for \<open>NULL\<close>. \<open>live_buffers\<close>
  counts the blocks the processor has allocated and not freed.
\<close>

record 'o zmq_processor =
  zmq_read_broker :: "'o broker"
  zmq_update_broker :: "'o broker"
  zmq_socket :: "string list option"
  m_request_buf :: "string option"
  m_request_buf_size :: size_t
  live_buffers :: int

text \<open>
  \<open>get_request_data\<close> frees the buffer of the request before and makes a copy of the message with a
  NUL behind it; the result of \<open>malloc\<close> is used without a test.
\<close>

definition get_request_data :: "memory \<Rightarrow> string \<Rightarrow> 'o zmq_processor \<Rightarrow> ('o zmq_processor, string) outcome" where
  "get_request_data mem request p0 =
     (let p1 = (if m_request_buf p0 \<noteq> None then p0\<lparr>live_buffers := live_buffers p0 - 1\<rparr> else p0);
          n = size_of_nat (length request);
          p = p1\<lparr>m_request_buf_size := n\<rparr>
      in if can_alloc mem (n + 1)
         then (Inr (request @ [NUL]), p\<lparr>m_request_buf := Some (request @ [NUL]), live_buffers := live_buffers p + 1\<rparr>)
         else (Inl Undefined, p\<lparr>m_request_buf := None\<rparr>))"

definition new_zmq_processor :: "('o, 'db) driver \<Rightarrow> memory \<Rightarrow> string \<Rightarrow> ('o zmq_processor, string) outcome" where
  "new_zmq_processor D mem request =
     get_request_data mem request
       \<lparr>zmq_read_broker = new_broker D, zmq_update_broker = new_broker D, zmq_socket = None,
        m_request_buf = None, m_request_buf_size = 0, live_buffers = 0\<rparr>"

text \<open>A call through a pointer that was never set is undefined.\<close>

definition zmq_send :: "string \<Rightarrow> 'o zmq_processor \<Rightarrow> ('o zmq_processor, unit) outcome" where
  "zmq_send reply p = (case zmq_socket p of
     None \<Rightarrow> (Inl Undefined, p) | Some sent \<Rightarrow> (Inr (), p\<lparr>zmq_socket := Some (sent @ [reply])\<rparr>))"

text \<open>An index outside the table would be undefined.\<close>

definition zmq_send_error :: "zmq_response \<Rightarrow> 'o zmq_processor \<Rightarrow> ('o zmq_processor, unit) outcome" where
  "zmq_send_error err p =
     (if zmq_code err < zmq_code Zmq_ErrorMax \<and> zmq_code err > zmq_code Zmq_UnknownCommand
      then let err_no = nat (zmq_code err - zmq_code Zmq_UnknownCommand)
           in if err_no < length zmq_error_messages
              then zmq_send (take (msg_size (zmq_error_messages ! err_no)) (msg (zmq_error_messages ! err_no))) p
              else (Inl Undefined, p)
      else (Inr (), p))"

definition zmq_process ::
  "('o, 'db) driver \<Rightarrow> memory \<Rightarrow> string \<Rightarrow> 'o zmq_processor \<Rightarrow> ('o zmq_processor, unit) outcome" where
  "zmq_process D mem request p =
     (if length request > MAX_REQUEST_MESSAGE_SIZE then zmq_send_error Zmq_RequestTooLong p
      else andthen (get_request_data mem request p) (\<lambda>data p.
        case fromjson D (c_str data) of
          Inl e \<Rightarrow> (Inl e, p)
        | Inr cmdObj \<Rightarrow>
            (case zmq_command_of_int (getIntField D cmdObj ''cmd'') of
               Zmq_read \<Rightarrow> (Inr (), p)
             | Zmq_write \<Rightarrow> zmq_send_error Zmq_Unimplemented p
             | _ \<Rightarrow> zmq_send_error Zmq_UnknownCommand p)))"

text \<open>What a request is answered: the message, or nothing at all.\<close>

definition zmq_answer :: "('o, 'db) driver \<Rightarrow> string \<Rightarrow> 'o \<Rightarrow> string option" where
  "zmq_answer D request obj =
     (if MAX_REQUEST_MESSAGE_SIZE < length request then Some ''Request body exceed limit(1MB)!''
      else if getIntField D obj ''cmd'' = 102 then Some ''Command unimplemented yet!'' else None)"

text \<open>
  What the ZeroMQ processor answers, if it had a socket. An over-long request and a write request get
  their error message; a read request, an \<open>OPEN\<close> and an unknown command get no message at all:
  \<open>send_error\<close> leaves out the first error, so "Command not found" is never sent. The constructor
  leaves the pointer to the socket as it was, and nothing else sets it: then each request that
  should be answered is undefined behaviour.
\<close>

theorem zmq_process_replies:
  assumes "fromjson D (c_str (request @ [NUL])) = Inr obj" "can_alloc mem (size_of_nat (length request) + 1)"
  shows "case zmq_answer D request obj of
      None \<Rightarrow> \<exists>p'. zmq_process D mem request p = (Inr (), p') \<and> zmq_socket p' = zmq_socket p
    | Some m \<Rightarrow> (case zmq_socket p of
        None \<Rightarrow> \<exists>p'. zmq_process D mem request p = (Inl Undefined, p')
      | Some sent \<Rightarrow> \<exists>p'. zmq_process D mem request p = (Inr (), p') \<and> zmq_socket p' = Some (sent @ [m]))"
  using assms
  by (auto simp: zmq_process_def zmq_command_of_int_def zmq_send_error_def zmq_send_def zmq_error_messages_def
      ERROR_MESSAGE_def zmq_answer_def get_request_data_def Let_def split: option.split)

definition some_memory :: memory where
  "some_memory = \<lparr>junk = (\<lambda>_. NUL), can_alloc = (\<lambda>n. unat n < 1000)\<rparr>"

theorem zmq_process_replies_witness:
  "\<exists>p'. zmq_process (sample_driver\<lparr>fromjson := \<lambda>_. Inr [(''cmd'', VInt 102)]\<rparr>) some_memory ''{cmd:102}''
     (snd (new_zmq_processor sample_driver some_memory ''{}'')) = (Inl Undefined, p')"
  using zmq_process_replies [of "sample_driver\<lparr>fromjson := \<lambda>_. Inr [(''cmd'', VInt 102)]\<rparr>" "''{cmd:102}''"
      "[(''cmd'', VInt 102)]" some_memory "snd (new_zmq_processor sample_driver some_memory ''{}'')"]
  by (simp add: sample_driver_simps sample_int_def MAX_REQUEST_MESSAGE_SIZE_def zmq_answer_def some_memory_def
      new_zmq_processor_def get_request_data_def size_of_nat_def Let_def)

text \<open>
  The buffer of the request: after construction and any number of requests exactly one block is
  allocated, the one \<open>m_request_buf\<close> points to, unless a \<open>malloc\<close> failed. There is no destructor, so
  that block is lost when the processor goes.
\<close>

definition one_buffer :: "'o zmq_processor \<Rightarrow> bool" where
  "one_buffer p \<longleftrightarrow> live_buffers p = (if m_request_buf p = None then 0 else 1)"

lemma one_buffer_send: "zmq_send_error e p = (r, p') \<Longrightarrow> one_buffer p' = one_buffer p"
  by (auto simp: zmq_send_error_def zmq_send_def one_buffer_def Let_def split: if_splits option.splits)

lemma one_buffer_data: "get_request_data mem request p = (r, p') \<Longrightarrow> one_buffer p \<Longrightarrow> one_buffer p'"
  by (auto simp: get_request_data_def one_buffer_def Let_def split: if_splits)

lemma one_buffer_process: "zmq_process D mem request p = (r, p') \<Longrightarrow> one_buffer p \<Longrightarrow> one_buffer p'"
  by (auto simp: zmq_process_def andthen_def one_buffer_send split: if_splits prod.splits sum.splits zmq_command.splits
      dest!: one_buffer_data)

theorem zmq_one_buffer:
  "one_buffer (fold (\<lambda>request p. snd (zmq_process D mem request p)) requests (snd (new_zmq_processor D mem first)))"
proof (induction requests rule: rev_induct)
  case Nil
  show ?case
    unfolding new_zmq_processor_def fold_Nil id_apply
    by (rule one_buffer_data [OF prod.collapse [symmetric]]) (simp add: one_buffer_def)
next
  case (snoc request requests)
  then show ?case by (auto intro: one_buffer_process [OF prod.collapse [symmetric]])
qed

end
