(* ===== verification/Request_Handler.thy ===== *)
theory Request_Handler
  imports Legacy
begin

text \<open>
  The configuration (\<^verbatim>\<open>src/src/broker_config.hpp\<close>) and the request handler
  (\<^verbatim>\<open>src/src/request_handler.hpp\<close>, \<^verbatim>\<open>src/src/request_handler.cc\<close>) of the older ZeroMQ program.
\<close>

section \<open>Configuration\<close>

text \<open>The YAML library is a parameter: the scalar under two keys, or its exception.\<close>

record yaml =
  yaml_string :: "string \<Rightarrow> string \<Rightarrow> fault + string"
  yaml_int :: "string \<Rightarrow> string \<Rightarrow> fault + c_int"

record broker_config =
  mongo_host :: string
  mongo_port :: c_int
  broker_listen_ip :: string
  broker_listen_port :: c_int

definition set_config :: "yaml \<Rightarrow> broker_config \<Rightarrow> (broker_config, unit) outcome" where
  "set_config y c0 =
     andthen (yaml_string y ''mongo'' ''host'', c0) (\<lambda>v c.
     let c = c\<lparr>mongo_host := v\<rparr> in
     andthen (yaml_int y ''mongo'' ''port'', c) (\<lambda>v c.
     let c = c\<lparr>mongo_port := v\<rparr> in
     andthen (yaml_string y ''broker'' ''listen_ip'', c) (\<lambda>v c.
     let c = c\<lparr>broker_listen_ip := v\<rparr> in
     andthen (yaml_int y ''broker'' ''listen_port'', c) (\<lambda>v c.
     (Inr (), c\<lparr>broker_listen_port := v\<rparr>)))))"

text \<open>What \<open>inspect\<close> prints, line by line.\<close>

definition inspect :: "broker_config \<Rightarrow> string list" where
  "inspect c = [''mongo_host:'' @ mongo_host c, ''mongo_port:'' @ show_int (sint (mongo_port c)),
     ''broker_listen_ip:'' @ broker_listen_ip c, ''broker_listen_port:'' @ show_int (sint (broker_listen_port c))]"

section \<open>The request handler\<close>

text \<open>
  A pointer that no constructor has set, \<open>NULL\<close>, or a pointer to an object. The environment chooses
  what the numbers of the configuration are before it is loaded (\<open>c0\<close>).
\<close>

datatype pointer = Unset | Null | Points

record request_handler =
  m_config :: broker_config
  m_config_file :: string
  m_endpoint :: string
  h_socket :: pointer

definition new_request_handler :: "broker_config \<Rightarrow> string \<Rightarrow> request_handler" where
  "new_request_handler c0 config_file =
     \<lparr>m_config = c0, m_config_file = config_file, m_endpoint = [], h_socket = Unset\<rparr>"

definition delete_request_handler :: "request_handler \<Rightarrow> (request_handler, unit) outcome" where
  "delete_request_handler h = (case h_socket h of
     Unset \<Rightarrow> (Inl Undefined, h) | Null \<Rightarrow> (Inr (), h) | Points \<Rightarrow> (Inr (), h))"

text \<open>The endpoint is printed into an array of 64 more than the address.\<close>

definition endpoint :: "broker_config \<Rightarrow> fault + string" where
  "endpoint c =
     sprintf_into (length (broker_listen_ip c) + 64)
       (''tcp://'' @ c_str (broker_listen_ip c) @ '':'' @ show_int (sint (broker_listen_port c)))"

definition handler_init :: "yaml \<Rightarrow> request_handler \<Rightarrow> (request_handler, unit) outcome" where
  "handler_init y h0 =
     (let (r, c) = set_config y (m_config h0); h = h0\<lparr>m_config := c\<rparr>
      in case r of
           Inl e \<Rightarrow> (Inl e, h)
         | Inr _ \<Rightarrow> (case endpoint c of Inl e \<Rightarrow> (Inl e, h) | Inr s \<Rightarrow> (Inr (), h\<lparr>m_endpoint := s\<rparr>)))"

text \<open>
  \<open>handler\<close> replies with \<open>pack_reply(doc,reply,OK)\<close>. Neither \<open>doc\<close> nor \<open>OK\<close> is declared in the file,
  which does not compile, so they are arguments here, as is \<open>rep\<close> in its \<open>pack_reply\<close>; the request is not
  looked at.
\<close>

definition handler_pack_reply :: "string \<Rightarrow> 32 word \<Rightarrow> string" where
  "handler_pack_reply doc rep = doc @ le_bytes rep"

datatype zmq_event = Received string | Sent string

definition handler :: "string \<Rightarrow> 32 word \<Rightarrow> string \<Rightarrow> zmq_event list" where
  "handler doc ok request = [Sent (handler_pack_reply doc ok)]"

text \<open>
  \<open>run\<close> binds the socket, which the library may refuse, and then receives and handles requests for
  ever: what it does for the requests that arrive.
\<close>

fun zmq_requests :: "string \<Rightarrow> 32 word \<Rightarrow> string list \<Rightarrow> zmq_event list" where
  "zmq_requests doc ok [] = []"
| "zmq_requests doc ok (request # requests) = Received request # handler doc ok request @ zmq_requests doc ok requests"

definition run_handler ::
  "yaml \<Rightarrow> (string \<Rightarrow> fault + unit) \<Rightarrow> string \<Rightarrow> 32 word \<Rightarrow> string list \<Rightarrow> request_handler \<Rightarrow>
   (request_handler, zmq_event list) outcome" where
  "run_handler y bind_to doc ok requests h =
     andthen (handler_init y h) (\<lambda>_ h.
       let h1 = h\<lparr>h_socket := Points\<rparr>
       in case bind_to (c_str (m_endpoint h1)) of
            Inl e \<Rightarrow> (Inl e, h1)
          | Inr _ \<Rightarrow> (Inr (zmq_requests doc ok requests), h1))"

section \<open>Properties\<close>

lemma length_show_int: "length (show_int (sint (i :: c_int))) \<le> 11"
proof -
  have b: "- (2 ^ 31) \<le> sint i" "sint i < 2 ^ 31" using sint_ge [of i] sint_lt [of i] by simp_all
  then have "length (show_nat (nat (sint i))) \<le> 10" "length (show_nat (nat (- sint i))) \<le> 10"
    by (auto intro!: length_show_nat)
  then show ?thesis by (auto simp: show_int_def)
qed

lemma endpoint_fits:
  "endpoint c = Inr (''tcp://'' @ c_str (broker_listen_ip c) @ '':'' @ show_int (sint (broker_listen_port c)))"
proof -
  have "length (c_str ip) \<le> length ip" for ip
    unfolding c_str_def by (rule length_takeWhile_le)
  then show ?thesis
    using length_show_int [of "broker_listen_port c"] add_mono [of "length (c_str (broker_listen_ip c))" "length (broker_listen_ip c)"]
    by (fastforce simp: endpoint_def sprintf_into_def)
qed

text \<open>
  The endpoint of the request handler always fits its array, for any address and any port: a
  complete configuration gives \<open>tcp://<ip>:<port>\<close>, and a missing entry the exception of the
  YAML library, with the entries before it set.
\<close>

theorem handler_endpoint:
  "handler_init y h =
    (case set_config y (m_config h) of
       (Inl e, c) \<Rightarrow> (Inl e, h\<lparr>m_config := c\<rparr>)
     | (Inr _, c) \<Rightarrow> (Inr (), h\<lparr>m_config := c,
         m_endpoint := ''tcp://'' @ c_str (broker_listen_ip c) @ '':'' @ show_int (sint (broker_listen_port c))\<rparr>))"
  by (simp add: handler_init_def endpoint_fits split: prod.split sum.split)

text \<open>The configuration of the repository's test gives the endpoint the test expects.\<close>

lemma handler_test_endpoint:
  assumes "set_config y c0 = (Inr (), c)" "broker_listen_ip c = ''0.0.0.0''" "broker_listen_port c = 5566"
  shows "m_endpoint (snd (handler_init y (new_request_handler c0 file))) = ''tcp://0.0.0.0:5566''"
proof -
  have "show_nat 5566 = map digit [5, 5, 6, 6]" by (simp add: show_nat.simps)
  then have "show_nat 5566 = ''5566''" by (simp add: digit_def char_of_def bit_Suc_0_iff)
  then show ?thesis
    using assms by (simp add: handler_endpoint new_request_handler_def c_str_def show_int_def)
qed

text \<open>
  Only \<open>run\<close> sets the pointer to the socket, and the destructor reads it: a request handler that is
  constructed and initialised and goes without \<open>run\<close>, as in the repository's own test of it, is
  undefined behaviour.
\<close>

theorem unused_handler_undefined:
  "fst (delete_request_handler (snd (handler_init y (new_request_handler c0 file)))) = Inl Undefined \<and>
   (fst (handler_init y (new_request_handler c0 file)) = Inr () \<longrightarrow>
    fst (delete_request_handler (snd (run_handler y bind_to doc ok requests (new_request_handler c0 file)))) = Inr ())"
  by (auto simp: delete_request_handler_def handler_endpoint new_request_handler_def run_handler_def andthen_def Let_def
      split: prod.splits sum.splits)

text \<open>
  Requests and replies alternate, as a socket of type \<open>ZMQ_REP\<close> demands, and every client gets the
  document and the code back.
\<close>

fun alternating :: "zmq_event list \<Rightarrow> bool" where
  "alternating [] = True"
| "alternating (Received r # Sent s # es) = alternating es"
| "alternating _ = False"

theorem handler_serves:
  assumes "run_handler y bind_to doc ok requests h = (Inr es, h')"
  shows "alternating es \<and> [r. Received r \<leftarrow> es] = requests \<and>
    [unpack_reply s. Sent s \<leftarrow> es] = map (\<lambda>_. (doc, ok)) requests"
proof -
  have "alternating (zmq_requests doc ok requests) \<and> [r. Received r \<leftarrow> zmq_requests doc ok requests] = requests \<and>
      [unpack_reply s. Sent s \<leftarrow> zmq_requests doc ok requests] = map (\<lambda>_. (doc, ok)) requests"
    by (induction requests)
      (simp_all add: handler_def unpack_reply_def handler_pack_reply_def of_le_bytes_le_bytes)
  moreover have "es = zmq_requests doc ok requests"
    using assms by (auto simp: run_handler_def andthen_def Let_def split: prod.splits sum.splits)
  ultimately show ?thesis by simp
qed

end
