(* ===== verification/Spec2Isabelle.thy ===== *)
theory Spec2Isabelle
  imports Color Queue_Spec Queue_Threads Broker_Pages Reader_Views Update_Views Threads Connection_Writes
    Client_Server Request_Handler
begin

text \<open>
  A verification development of zbroker, a broker between network clients and collections of
  a MongoDB database.

  \<^bold>\<open>The program.\<close> Clients connect over TCP and send packets (a 16 byte decimal length, a 32
  byte id, a JSON request). Each connection is attached to a processor, shared by all
  connections that opened the same options. A processor owns two brokers: the read broker's
  thread queries the collection page by page and pushes the documents into a bounded queue,
  from which \<open>READ\<close> requests pop batches; \<open>WRITE\<close> requests push update requests into the queue
  of the write broker, whose thread applies them to the database. One thread, called the io
  thread here, runs all network handlers and with them all requests. The program runs until a
  fault leaves a handler.

  The repository also has the clients' side: a Ruby library with packets, proxies for reading and
  writing and a client that combines them.

  \<^bold>\<open>Theories and code\<close> (paths under \<^verbatim>\<open>src/src\<close>, the Ruby client under \<^verbatim>\<open>src/rb/lib/zbroker\<close>), in the
  order of their imports:

  \<^item> \<open>Prelude\<close>: machine integers as words (\<open>int\<close> has 32 bits, \<open>size_t\<close> 64), the type \<open>fault\<close>
    of everything a call can end in besides a value (exceptions, failed assertions, undefined
    behaviour, waiting for ever), the shape \<open>outcome\<close> of a stateful call, and shared lemmas.
  \<^item> \<open>C_Library\<close>: what the code uses of the C library (C strings, \<open>sprintf\<close>, \<open>atoi\<close>).
  \<^item> \<open>Protocol\<close>: \<^verbatim>\<open>protocol.h\<close>, commands, purposes, responses, error messages.
  \<^item> \<open>Packet\<close>: \<^verbatim>\<open>request_packet.hpp\<close>, \<^verbatim>\<open>request_packet.cc\<close>, packets on both sides of the wire.
  \<^item> \<open>Color\<close>: \<^verbatim>\<open>color.h\<close>, \<^verbatim>\<open>color.cc\<close>, coloured log texts.
  \<^item> \<open>Sized_Queue\<close>: \<^verbatim>\<open>sized_queue.hpp\<close>, \<^verbatim>\<open>sized_queue.cc\<close>, the bounded blocking queue as calls
    of one thread under a schedule of interference; \<open>Queue_Spec\<close>: its refinement of a bounded
    list; \<open>Queue_Threads\<close>: senders and receivers that share it, among them the demonstration
    program in the same file.
  \<^item> \<open>Step_System\<close>: reachability, invariants, ranks and simulation as locales.
  \<^item> \<open>Driver_Api\<close>: the database driver, a parameter of the model (a record of the functions the
    code calls, with their documented behaviour as named hypotheses and a small instance for
    concrete runs).
  \<^item> \<open>Broker\<close>: \<^verbatim>\<open>broker.hpp\<close>, \<^verbatim>\<open>broker.cc\<close>, the record of members and one definition per
    member function; \<open>Broker_Facts\<close>, \<open>Broker_Batches\<close>, \<open>Broker_Pages\<close>, \<open>Broker_Updates\<close>: its
    invariant, \<open>init\<close> and \<open>open\<close>, \<open>batch_pop\<close>, \<open>query\<close>, and \<open>update\<close>.
  \<^item> \<open>Reader_System\<close>: \<open>broker::read\<close>, \<open>batch_pop\<close>, \<open>rewind\<close> and \<open>processor::term\<close> as a transition
    system of two threads over the critical sections of the code; \<open>Reader_Facts\<close>,
    \<open>Reader_Liveness\<close>, \<open>Reader_Batches\<close>: what holds in all its runs, runs that show what can go
    wrong, and that batches end.
  \<^item> \<open>Writer_System\<close>, \<open>Writer_Facts\<close>: the same for \<open>broker::update\<close>, \<open>asio_processor::do_write\<close>,
    \<open>wait_update_done\<close> and \<open>term\<close> on a write broker.
  \<^item> \<open>Call_Views\<close>: when a call of an interleaved system is the call in one piece, as a locale;
    \<open>Reader_Views\<close>, \<open>Writer_Views\<close>, \<open>Update_Views\<close>: batches, write requests and the run of the
    writing thread are such calls.
  \<^item> \<open>Processor\<close>: \<^verbatim>\<open>asio_processor.hpp\<close>, \<^verbatim>\<open>asio_processor.cc\<close>, requests and responses;
    \<open>Processor_Facts\<close>.
  \<^item> \<open>Connection\<close>: \<^verbatim>\<open>asio_handler.hpp\<close>, \<^verbatim>\<open>asio_handler.cc\<close>, \<^verbatim>\<open>zbroker_asio.cc\<close>, the server as a
    state machine over completed network operations; \<open>Connection_Facts\<close>, \<open>User_Counts\<close>,
    \<open>Responses\<close>, \<open>Connection_Input\<close> (packets that arrive) and \<open>Connection_Writes\<close> (sockets, failed
    writes, the send buffer).
  \<^item> \<open>Threads\<close>: the start routines of the two threads (\<^verbatim>\<open>asio_processor.hpp\<close>), and how a fault in
    one ends the server process.
  \<^item> \<open>Ruby_Client\<close>: \<^verbatim>\<open>common.rb\<close>, \<^verbatim>\<open>packet.rb\<close>, \<^verbatim>\<open>proxy.rb\<close>, \<^verbatim>\<open>client.rb\<close>, one definition per method over a
    socket that delivers segments; \<open>Ruby_Facts\<close>, \<open>Client_Server\<close>: the client against the server.
  \<^item> \<open>Legacy\<close>: \<^verbatim>\<open>zbroker.cc\<close>, the processor of the older ZeroMQ program; \<open>Request_Handler\<close>:
    \<^verbatim>\<open>broker_config.hpp\<close>, \<^verbatim>\<open>request_handler.hpp\<close>, \<^verbatim>\<open>request_handler.cc\<close>.
  \<^item> This theory: the way of documents through several components.

  \<^bold>\<open>Two views of concurrency.\<close> Most operations are functions of one thread's call. What the
  other threads do to a queue while a call waits for its lock or for a notification is a list
  \<open>m_sched\<close> in the queue's state: each entry says what was added and taken and whether a waiting
  caller was woken or timed out. Theorems for all schedules hold under any interference;
  theorems for the empty schedule describe a queue nobody else uses. \<open>Reader_System\<close>,
  \<open>Writer_System\<close> and \<open>Queue_Threads\<close> are the other view: they interleave the critical sections
  of the threads, so that notifications, lost wake-ups and joins are those of the code. The two
  views agree: a batch, a write request and the whole run of the writing thread in the interleaved
  systems give what \<open>do_read\<close>, \<open>do_write\<close> and \<open>update\<close> give in one piece under some schedule. Not
  covered is \<open>term\<close> on a read broker, whose test of \<open>m_reach_end\<close> may see a value that changed during
  the call.

  \<^bold>\<open>What the lemmas show.\<close>

  \<^item> \<open>Packet\<close>: \<open>pack\<close> and \<open>in_packet\<close> are inverse to each other, a stream of packets is cut
    where it was joined, and the limits of buffers and lengths.
  \<^item> \<open>Sized_Queue\<close>, \<open>Queue_Spec\<close>: the effect of each operation under interference, and that a
    quiet queue is a bounded list; \<open>push\<close> of a vector queues it in reverse.
  \<^item> Broker theories: a consistent broker stays consistent in every call; which options \<open>init\<close>
    accepts; how many documents a batch has; which documents successive pages return; that the
    writing thread flushes its queue, and when it does not.
  \<^item> \<open>Reader_Facts\<close>: until the shutdown documents are neither lost nor duplicated nor reordered, and
    those popped are those that read requests return; the queue is bounded,
    \<open>pop\<close> never reads an empty deque under conditions that are all needed, \<open>term\<close> is not left
    hanging in a join; a deadlock in \<open>batch_pop\<close> and a lost rewind. \<open>Reader_Liveness\<close>: all states
    in which the threads can be stuck.
  \<^item> \<open>Writer_Facts\<close>: every document of a write request is applied or accounted for, a waiting
    client is served, the shutdown ends and applies everything, but for one race.
  \<^item> \<open>Reader_Views\<close>, \<open>Writer_Views\<close>, \<open>Update_Views\<close>: the interleaved systems refine the calls.
  \<^item> \<open>Threads\<close>: a write request that is answered \<open>OK\<close> and ends the process.
  \<^item> \<open>Queue_Threads\<close>: one sender and one receiver keep everything in order, and without spurious
    wake-ups deliver it; with them, or with two on a side, the queue is unsafe.
  \<^item> \<open>Processor_Facts\<close>: the responses of requests, errors, and the processor's invariant.
  \<^item> \<open>Connection_Facts\<close>, \<open>User_Counts\<close>: the server's invariant in all runs, requests that end the
    server, reference counts against the connections that use a processor. \<open>Responses\<close>: all that
    is sent is packets, so that clients can read their responses. \<open>Connection_Input\<close>: a whole
    packet reaches the request in any run. \<open>Connection_Writes\<close>: every event of the server is a
    step of a small state machine per connection; what a failed write leads to; when the send
    buffer is safe.
  \<^item> \<open>Reader_Batches\<close>: \<open>batch_pop\<close> ends, in every interleaving and alone.
  \<^item> \<open>Ruby_Facts\<close>, \<open>Client_Server\<close>: requests of the client are received and parsed by the server,
    responses of the server are received by the client, the handshake of \<open>open\<close>, sessions; and
    how the two sides lose each other.
  \<^item> \<open>Legacy\<close>, \<open>Request_Handler\<close>: replies, endpoint and request loop of the older programs, and where
    they use pointers that were never set.

  \<^bold>\<open>Interfaces.\<close> The locale \<open>fifo_source\<close> is what a client of \<open>pop\<close> relies on, interpreted by the
  queue and by the broker; \<open>length_prefixed\<close> what the receiving loop relies on, interpreted by
  the packets of the server and by those of the client; \<open>connection_property\<close> is what a property
  of one connection needs to hold along a run of the server, interpreted by the state machine of
  the connections, by the bound after a failed write and by the discipline of waiting for
  responses; \<open>simulation\<close> relates operations to a specification, interpreted by the queue;
  \<open>step_invariant\<close> is interpreted by the threads of each broker and by the server,
  \<open>ranked_thread\<close> by the threads that must end or serve somebody, among them the io thread in a batch; \<open>broker_contract\<close> is what the processor relies
  on in its brokers, interpreted by the broker's invariant; \<open>call_view\<close> relates the steps of an
  interleaved call to the call in one piece, interpreted by batches, write requests and the run
  of the writing thread.

  \<^bold>\<open>Loops and bounds.\<close> \<open>broker::update\<close> may run for ever, so \<open>update\<close> takes a number of rounds
  and returns \<open>None\<close> when they are used up; one round more than there are queued requests is
  enough. The threads' loops are transition systems, with ranks that bound their runs. \<open>batch_pop_loop\<close>, \<open>move_back\<close>, \<open>write_loop\<close> and
  \<open>split_stream\<close> terminate by measures. The server runs over a finite list of events.

  \<^bold>\<open>Not modelled.\<close> Log output and timers. The MongoDB driver, Boost.Asio, yaml-cpp, ZeroMQ, the
  allocator, and on the client's side Yajl, the BSON library and the Ruby version's strings,
  which are parameters or events. The bytes a handler gets are those the
  completed operation delivered; partial transfers are the library's. A write gives a success or
  an error at any time while it is pending, a read on an open socket likewise; what a peer sees
  of a write whose buffer was overwritten is undefined, so that \<open>sent\<close> says what was handed to
  the socket. Closing a socket is taken to succeed, and so is the client's \<open>send\<close>. Memory is
  not modelled beyond buffer sizes: \<open>auto_ptr\<close> of an array is not visible in the model.
  \<open>m_con_query.wait(m_query_done_mutex)\<close> is called without owning the mutex; the model takes it as
  waiting for the next notification. \<open>prepare_condition\<close> reads \<open>m_last_doc_id\<close> without the mutex under
  which \<open>rewind\<close> clears it; the model takes a query up to the driver's call as one step. A loop counter \<open>int i\<close> in \<open>batch_pop\<close> is taken not to overflow
  (it would after \<open>2 ^ 31\<close> documents of one batch). The names that \<^verbatim>\<open>request_handler.cc\<close>
  uses without declaring them (\<open>doc\<close>, \<open>OK\<close>, \<open>rep\<close>) are arguments of the model. The server's runs and the
  threads are separate models: a run of the server goes on where, in the program, a thread has ended
  the process (\<open>Threads\<close> says when). The benchmark in \<^verbatim>\<open>client.rb\<close>, getters and tests are left out.
\<close>

section \<open>Components together\<close>

lemma query_frame:
  assumes "query D db dir b = (r, b')"
  shows "m_queue b' = m_queue b \<and> m_inited b' = m_inited b \<and> m_connected b' = m_connected b \<and>
    m_read_retry b' = m_read_retry b \<and> m_read_timeout b' = m_read_timeout b"
  using assms
  by (auto simp: query_def query_begin_def query_end_def andthen_def Let_def
      split: prod.splits sum.splits option.splits if_splits)

lemma packet_received:
  assumes "length i \<le> packet_id_length" "length json < max_body_length"
  shows "\<forall>seg segs. segments (seg # segs) \<and> 16 \<le> length seg \<and> concat (seg # segs) = frame_of i json \<longrightarrow>
    (\<exists>q. recv_packet (seg # segs) = (Inr q, []) \<and> rp_body q = Some json)"
proof (intro allI impI)
  fix seg segs
  assume "segments (seg # segs) \<and> 16 \<le> length seg \<and> concat (seg # segs) = frame_of i json"
  with assms recv_packet_frame [of seg segs i json "[]"] obtain q segs'
    where "recv_packet (seg # segs) = (Inr q, segs')" "segments segs'" "concat segs' = []" "rp_body q = Some json"
    by (auto simp: packet_id_length_def max_body_length_def)
  moreover from this have "segs' = []" by (cases segs') (auto simp: segments_def)
  ultimately show "\<exists>q. recv_packet (seg # segs) = (Inr q, []) \<and> rp_body q = Some json" by blast
qed

text \<open>
  C25: The way of a page to a client. Take a collection that does not change and is not empty, and a read
  broker at its beginning with a positive limit, no skip, one retry, a positive timeout and an empty
  queue that nobody else touches and that has room for a whole page. The documents of the query, pushed
  by the reading thread and popped by a read request, are answered in one packet with the
  processor's id, whose body is the response with the object that \<open>toBSONObj\<close> makes of all of them in the
  reverse of the order the query gave; the queue is empty again; and the Ruby client gets exactly this
  body, however the packet is cut into segments after its header. The conditions on the response are
  those under which it can be sent: the last document fits the buffer of \<open>toBSONObj\<close>, their text
  parses, and the response is below the limit of a packet.
\<close>

theorem first_page_reversed:
  assumes "collection_of D db (m_read_broker p) M" "m_last_doc_id (m_read_broker p) = []"
    "0 < sint (m_limit (m_read_broker p))" "m_skip (m_read_broker p) = 0" "M \<noteq> []"
    "quiet (m_read_broker p)" "sint (m_read_retry (m_read_broker p)) = 1"
    "0 < sint (m_read_timeout (m_read_broker p))" "m_deque (m_queue (m_read_broker p)) = []"
    "nat (sint (m_limit (m_read_broker p))) \<le> unat (m_limit_size (m_queue (m_read_broker p)))"
    and docs: "docs = map (jsonString D) (take (nat (sint (m_limit (m_read_broker p)))) M)"
    and fits: "length (element_text (length docs - 1) (hd docs) '' }'') < last_buffer 2048 (rev docs)"
      "fromjson D (''{ '' @ elements_text 0 (rev docs)) = Inr obj" "length (page_response D obj) < max_body_length"
    and i: "NUL \<notin> set (m_processor_id p)" "length (m_processor_id p) \<le> packet_id_length"
  shows "\<exists>b1 n b2 p'. query D db Asc (m_read_broker p) = (Inr docs, b1) \<and>
    on_queue (push_all docs 0) b1 = (Inr (n, []), b2) \<and>
    do_read D (set_packet_id (m_processor_id p) new_out_packet) (p\<lparr>m_read_broker := b2\<rparr>) =
      (Inr (frame_of (m_processor_id p) (page_response D obj)), p') \<and>
    m_deque (m_queue (m_read_broker p')) = [] \<and>
    (\<forall>seg segs. segments (seg # segs) \<and> 16 \<le> length seg \<and>
       concat (seg # segs) = frame_of (m_processor_id p) (page_response D obj) \<longrightarrow>
       (\<exists>q. recv_packet (seg # segs) = (Inr q, []) \<and> rp_body q = Some (page_response D obj)))"
proof -
  let ?packet = "set_packet_id (m_processor_id p) new_out_packet"
  let ?b = "m_read_broker p" and ?l = "nat (sint (m_limit (m_read_broker p)))"
  let ?docs = "map (jsonString D) (take ?l M)"
  have "at_position D ?b M 0" using assms(2) by (simp add: at_position_def)
  then obtain b1 where b1: "query D db Asc ?b = (Inr ?docs, b1)" "m_limit b1 = m_limit ?b" "\<not> m_querying b1"
    using query_at_position [OF assms(1), of 0] assms(3,4) by auto
  note f = query_frame [OF b1(1)]
  have len: "length ?docs \<le> unat (m_limit_size (m_queue b1))" "0 < unat (m_limit_size (m_queue b1))"
    using assms(3,10) f by auto
  have q: "m_sched (m_queue b1) = []" "m_deque (m_queue b1) = []" "quiet b1"
    using assms(6,9) f by (auto simp: quiet_def)
  let ?q = "(m_queue b1)\<lparr>m_deque := rev ?docs, m_signals := m_signals (m_queue b1) @ [Notified Can_pop]\<rparr>"
  have "push_all ?docs 0 (m_queue b1) = (Inr (word_of_nat (length ?docs), []), ?q)"
    using push_all_quiet [OF q(1) _ refl, of ?docs 0] q(2) len by (simp add: min_absorb1)
  then have push: "on_queue (push_all ?docs 0) b1 = (Inr (word_of_nat (length ?docs), []), b1\<lparr>m_queue := ?q\<rparr>)"
    by (simp add: on_queue_def)
  let ?p = "p\<lparr>m_read_broker := b1\<lparr>m_queue := ?q\<rparr>\<rparr>"
  have "\<exists>p'. do_read D ?packet ?p = (if rev ?docs = [] then pack_response_docs D ?packet NoMoreItem [] ''do_read no more items''
       else pack_response_docs D ?packet OK (take ?l (rev ?docs)) ''do_read'', p') \<and>
      m_deque (m_queue (m_read_broker p')) = drop ?l (rev ?docs)"
    using do_read_quiet [of ?p D ?packet] q assms(3,7,8) b1(2,3) f by (auto simp: quiet_def)
  moreover have "take ?l (rev ?docs) = rev ?docs" "drop ?l (rev ?docs) = []" "rev ?docs \<noteq> []" using assms(3,5) by auto
  ultimately obtain p' where read: "do_read D ?packet ?p = (pack_response_docs D ?packet OK (rev docs) ''do_read'', p')"
      "m_deque (m_queue (m_read_broker p')) = []"
    unfolding docs by auto
  have "nat (sint (m_limit ?b)) \<le> 10 ^ 28" using sint_lt [of "m_limit ?b"] by auto
  then have "length docs \<le> 10 ^ 28" "docs \<noteq> []" using assms(3,5) by (auto simp: docs)
  with fits i have "pack_response_docs D ?packet OK (rev docs) ''do_read'' = Inr (frame_of (m_processor_id p) (page_response D obj))"
    by (intro pack_response_docs_fits) (simp_all add: last_rev)
  then show ?thesis
    using b1(1) push read packet_received [OF i(2) fits(3)] unfolding docs [symmetric] by auto
qed

theorem first_page_reversed_witness:
  "\<exists>b1 n b2 p'. query sample_driver sample_docs Asc ((sample_reader 2 0 [])\<lparr>m_inited := True, m_connected := True\<rparr>) =
      (Inr [''a'', ''b''], b1) \<and>
    on_queue (push_all [''a'', ''b''] 0) b1 = (Inr (n, []), b2) \<and>
    do_read sample_driver (set_packet_id ''id'' new_out_packet)
      (sample_processor 1 ((sample_reader 2 0 [])\<lparr>m_inited := True, m_connected := True\<rparr>) (sample_open [] [])
        \<lparr>m_read_broker := b2\<rparr>) =
      (Inr (frame_of ''id'' (page_response sample_driver [(''_id'', VOid (''{ '' @ elements_text 0 [''b'', ''a'']))])), p') \<and>
    m_deque (m_queue (m_read_broker p')) = []"
proof -
  let ?b = "(sample_reader 2 0 [])\<lparr>m_inited := True, m_connected := True\<rparr>"
  let ?p = "sample_processor 1 ?b (sample_open [] [])"
  have c: "collection_of sample_driver sample_docs ?b sample_docs"
    using sample_collection [of 2 0 "[]"] by (subst collection_of_cong [of _ "sample_reader 2 0 []"]) simp_all
  have b: "m_queue ?b = new_sized_queue 100" "m_read_retry ?b = 1" "m_read_timeout ?b = 1"
    by (simp_all add: sample_reader_def new_broker_def reset_def default_broker_def default_sized_queue_def)
  have d: "[''a'', ''b''] = map (jsonString sample_driver) (take (nat (sint (m_limit (m_read_broker ?p)))) sample_docs)"
    by (simp add: sample_docs_def sample_driver_simps sample_oid_def)
  have l: "length (element_text 1 ''a'' '' }'') < 2048"
    by (simp add: length_element_text show_nat.simps [of "Suc 0"] c_str_def)
  have "length (page_response sample_driver x) < max_body_length" for x
    by (simp add: page_response_def init_response_builder_def sample_driver_simps sample_oid_def max_body_length_def Let_def)
  with c b d l show ?thesis
    using first_page_reversed [of sample_driver sample_docs ?p sample_docs "[''a'', ''b'']"
        "[(''_id'', VOid (''{ '' @ elements_text 0 [''b'', ''a'']))]"]
    by (simp add: quiet_def new_sized_queue_def, simp add: sample_docs_def sample_driver_simps last_buffer_def packet_id_length_def,
        blast)
qed

text \<open>
  C26: The way of a write to the database. If all documents of one write request fit into the empty queue
  of a write broker, nobody else touches the queue meanwhile, and the database accepts all of
  them, then the writing thread applies all of them before it ends, the last one of the request
  first. (What one rejected document does is a property of its own.)
\<close>

theorem write_applied_in_reverse:
  assumes "quiet (m_write_broker p)" "m_deque (m_queue (m_write_broker p)) = []"
    "length (objVals D (getObjectField D upd ''docs'')) \<le> unat (m_limit_size (m_queue (m_write_broker p)))"
    "apply_requests D (m_docset (m_write_broker p))
       (rev (map (jsonString D) (objVals D (getObjectField D upd ''docs'')))) db = Inr db'"
    "length (objVals D (getObjectField D upd ''docs'')) < n"
  shows "\<exists>p' b'. do_write D packet upd p = (pack_response D packet OK ''do_write'' None, p') \<and>
    update n D (set_exit (m_write_broker p'), db) = Some (Inr (), (b', db')) \<and> m_deque (m_queue b') = []"
proof -
  let ?docs = "map (jsonString D) (objVals D (getObjectField D upd ''docs''))"
  let ?b = "m_write_broker p"
  obtain b where b: "write_loop ?docs ?b = (Inr (), b)" "m_deque (m_queue b) = rev ?docs"
      "settings b = settings ?b" "quiet b"
    using write_loop_quiet [OF assms(1), of ?docs] assms(2,3) by auto
  have "m_docset b = m_docset ?b" using settings_fields(7) [OF b(3)] .
  then obtain b' where "update n D (set_exit b, db) = Some (Inr (), (b', db'))" "m_deque (m_queue b') = []"
    using update_flushes [of "set_exit b" D db db' n] b(2,4) assms(4,5)
    by (auto simp: set_exit_def quiet_def rev_map)
  with b(1) show ?thesis by (simp add: do_write_def on_write_def Let_def)
qed

theorem write_applied_in_reverse_witness:
  "\<exists>p' b'. do_write sample_driver new_out_packet
        [(''docs'', VObj [(''0'', VObj [(''_id'', VOid ''x'')]), (''1'', VObj [(''_id'', VOid ''y'')])])]
        (sample_processor 1 (sample_open [] []) (sample_open [] [])) =
      (pack_response sample_driver new_out_packet OK ''do_write'' None, p') \<and>
    update 3 sample_driver (set_exit (m_write_broker p'), []) = Some (Inr (), (b', [[], []])) \<and>
    m_deque (m_queue b') = []"
  by (rule write_applied_in_reverse)
    (simp_all add: quiet_def apply_request_def sample_driver_simps sample_vals_def sample_obj_def sample_oid_def)

end
